(* ===== verification/Prelude.thy ===== *)
theory Prelude
  imports Main "HOL-Library.Word" "HOL-Library.Monad_Syntax"
begin

text \<open>
  Shared vocabulary of the development: the machine integers of the Go code, the result
  type of a Go call that may panic, and the generic facts about words, byte lists and
  function updates that the component theories rest on.
\<close>

unbundle bit_operations_syntax

section \<open>Machine integers and results\<close>

text \<open>
  Go's \<open>byte\<close>, \<open>uint16\<close>, \<open>int32\<close>/\<open>uint32\<close> and \<open>int64\<close>/\<open>uint64\<close>. Signed and unsigned
  values of one width share a type; a signed comparison of the code is \<open><s\<close>, an unsigned
  one \<open><\<close>. A call that may panic returns an option, where \<open>None\<close> is the panic.
\<close>

type_synonym u8 = "8 word"
type_synonym u16 = "16 word"
type_synonym i32 = "32 word"
type_synonym i64 = "64 word"

named_theorems mem_simps \<open>evaluation of in-bounds memory accesses\<close>
named_theorems core_specs \<open>what one exported core function does to a well-formed module\<close>

section \<open>Bits of words\<close>

text \<open>
  Equality of narrow words is decided bit by bit at concrete positions: \<open>eq_bits_u8\<close>
  leaves eight ground goals that \<open>bit_simps\<close> evaluates.
\<close>

lemma all_less_8: "(\<forall>n<8. P n) \<longleftrightarrow> P 0 \<and> P 1 \<and> P 2 \<and> P 3 \<and> P 4 \<and> P 5 \<and> P 6 \<and> P (7::nat)"
proof -
  have "{..<8::nat} = {0,1,2,3,4,5,6,7}" by auto
  then show ?thesis by (metis (no_types, lifting) insert_iff lessThan_iff singleton_iff)
qed

lemma eq_bits_u8:
  fixes x y :: u8
  assumes "bit x 0 = bit y 0" "bit x 1 = bit y 1" "bit x 2 = bit y 2" "bit x 3 = bit y 3"
    "bit x 4 = bit y 4" "bit x 5 = bit y 5" "bit x 6 = bit y 6" "bit x 7 = bit y 7"
  shows "x = y"
proof (rule bit_word_eqI)
  fix n assume "n < LENGTH(8)"
  moreover have "\<forall>n<8. bit x n = bit y n" using assms by (simp only: all_less_8)
  ultimately show "bit x n = bit y n" by simp
qed

lemma bit_u8_high: "8 \<le> n \<Longrightarrow> bit (x::u8) n \<longleftrightarrow> False"
  by (auto dest: bit_imp_le_length)

lemma bit_i32_high: "32 \<le> n \<Longrightarrow> bit (x::i32) n \<longleftrightarrow> False"
  by (auto dest: bit_imp_le_length)

lemma bit_i64_high: "64 \<le> n \<Longrightarrow> bit (x::i64) n \<longleftrightarrow> False"
  by (auto dest: bit_imp_le_length)

lemmas bit_eval = bit_simps bit_u8_high bit_i32_high bit_i64_high

section \<open>Unsigned values\<close>

lemma unat_u8_less: "unat (x::u8) < 256"
  using unsigned_less[of x] by simp

lemma unat_i32_less: "unat (x::i32) < 4294967296"
  using unsigned_less[of x] by simp

lemma unat_i64_less: "unat (x::i64) < 18446744073709551616"
  using unsigned_less[of x] by simp

lemma unat_plus_i32: "unat v + unat k < 4294967296 \<Longrightarrow> unat (v + k :: i32) = unat v + unat k"
  by (subst unat_plus_simple [THEN iffD1]) (simp_all add: word_le_nat_alt unat_word_ariths)

lemma unat_plus_i64:
  "unat v + unat k < 18446744073709551616 \<Longrightarrow> unat (v + k :: i64) = unat v + unat k"
  by (subst unat_plus_simple [THEN iffD1]) (simp_all add: word_le_nat_alt unat_word_ariths)

lemma unat_of_nat_i32: "n < 4294967296 \<Longrightarrow> unat (of_nat n :: i32) = n"
  by (simp add: unat_of_nat)

lemma unat_of_nat_i64: "n < 18446744073709551616 \<Longrightarrow> unat (of_nat n :: i64) = n"
  by (simp add: unat_of_nat)

lemma unat_plus_numeral_i32:
  assumes "unat v + numeral k < 4294967296"
  shows "unat (v + numeral k :: i32) = unat v + numeral k"
proof -
  have "unat (of_nat (numeral k) :: i32) = numeral k"
    by (rule unat_of_nat_i32 [OF le_less_trans [OF le_add2 assms]])
  then have "unat (numeral k :: i32) = numeral k" by (simp only: of_nat_numeral)
  with assms unat_plus_i32[of v "numeral k"] show ?thesis by metis
qed

lemma unat_plus_1_i32: "unat v + 1 < 4294967296 \<Longrightarrow> unat (v + 1 :: i32) = unat v + 1"
  by (simp add: unat_word_ariths)

lemma or_eq_add:
  fixes a b :: "'a::len word"
  assumes "a AND b = 0" shows "a OR b = a + b"
  using assms by (simp add: disjunctive_add_eq_or)

lemma eq_of_natI: "unat w = n \<Longrightarrow> w = of_nat n"
  by auto

lemma unat_drop_bit: "unat (drop_bit k (w :: 'a::len word)) = unat w div 2 ^ k"
  using unsigned_drop_bit_eq [of k w, where 'a = nat] unsigned_less [of w]
  by (simp add: drop_bit_eq_div [of k "unat w"] take_bit_nat_eq_self)

lemma unat_take_bit: "unat (take_bit k (w :: 'a::len word)) = unat w mod 2 ^ k"
  using unsigned_take_bit_eq [of k w, where 'a = nat] by (simp add: take_bit_eq_mod [of k "unat w"])

section \<open>Bytes: nibbles, variants and signs\<close>

text \<open>
  The core tests a UUID's version and variant through sign-extended bytes. These lemmas turn
  its tests into statements about the nibble or the top two bits, as numbers and as bits.
\<close>

lemma u8_eq_iff:
  fixes x y :: u8
  shows "x = y \<longleftrightarrow> bit x 0 = bit y 0 \<and> bit x 1 = bit y 1 \<and> bit x 2 = bit y 2 \<and> bit x 3 = bit y 3 \<and>
    bit x 4 = bit y 4 \<and> bit x 5 = bit y 5 \<and> bit x 6 = bit y 6 \<and> bit x 7 = bit y 7"
  by (auto intro: eq_bits_u8)

lemma unat_div_u8: "unat (drop_bit k b) = unat (b::u8) div 2 ^ k"
  using unsigned_drop_bit_eq [of k b, where 'a = nat] unat_u8_less [of b]
  by (simp add: drop_bit_eq_div [of k "unat b"] take_bit_nat_eq_self)

lemma high_nibble_7: "unat (b::u8) div 16 = 7 \<longleftrightarrow> \<not> bit b 7 \<and> bit b 6 \<and> bit b 5 \<and> bit b 4"
proof -
  have "unat b div 16 = 7 \<longleftrightarrow> drop_bit 4 b = 7"
    using unat_div_u8 [of 4 b] by (simp add: word_unat_eq_iff)
  then show ?thesis by (auto simp: u8_eq_iff bit_eval)
qed

lemma high_nibble_8:
  "unat (b::u8) div 16 = 8 \<longleftrightarrow> bit b 7 \<and> \<not> bit b 6 \<and> \<not> bit b 5 \<and> \<not> bit b 4"
proof -
  have "unat b div 16 = 8 \<longleftrightarrow> drop_bit 4 b = 8"
    using unat_div_u8 [of 4 b] by (simp add: word_unat_eq_iff)
  then show ?thesis by (auto simp: u8_eq_iff bit_eval)
qed

lemma variant_bits: "unat (b::u8) div 64 = 2 \<longleftrightarrow> bit b 7 \<and> \<not> bit b 6"
proof -
  have "unat b div 64 = 2 \<longleftrightarrow> drop_bit 6 b = 2"
    using unat_div_u8 [of 6 b] by (simp add: word_unat_eq_iff)
  then show ?thesis by (auto simp: u8_eq_iff bit_eval)
qed

lemma unat_u8_of_div:
  fixes b :: u8 shows "unat b div 64 = 2 \<Longrightarrow> unat b = 128 + unat b mod 64"
    "unat b div 16 = 8 \<Longrightarrow> unat b = 128 + unat b mod 16"
  using div_mult_mod_eq [of "unat b" 64] div_mult_mod_eq [of "unat b" 16] by simp_all

lemma sint_u8: "sint (b::u8) = (if unat b < 128 then uint b else uint b - 256)"
proof -
  define u where "u = uint b"
  have u: "0 \<le> u" "u < 256" using unsigned_less[of b, where 'a=int] by (simp_all add: u_def)
  then have "bit u 7 \<longleftrightarrow> 128 \<le> u" "take_bit 7 u = (if u < 128 then u else u - 128)"
      "take_bit 8 u = u"
    by (simp_all add: bit_iff_odd take_bit_eq_mod) presburger+
  moreover have "unat b < 128 \<longleftrightarrow> u < 128" unfolding u_def uint_nat by linarith
  ultimately show ?thesis
    by (auto simp: sint_uint signed_take_bit_eq_take_bit_minus simp flip: u_def)
qed

lemma sint_scast_u8: "sint (scast (b::u8) :: i32) = sint b"
proof -
  define u where "u = uint b"
  have "0 \<le> u" "u < 256" using unsigned_less[of b, where 'a=int] by (simp_all add: u_def)
  then have "- (2 ^ 31) \<le> sint b" "sint b < 2 ^ 31" by (auto simp: sint_u8 simp flip: u_def) 
  then show ?thesis by (simp add: signed_scast_eq signed_take_bit_int_eq_self)
qed
  
lemma scast_u8_less:
  "k <s (scast (b::u8) :: i32) \<longleftrightarrow> sint k < sint b"
  "(scast (b::u8) :: i32) <s k \<longleftrightarrow> sint b < sint k"
  "(scast (b::u8) :: i32) \<le>s k \<longleftrightarrow> sint b \<le> sint k"
  by (simp_all add: word_sless_alt word_sle_eq sint_scast_u8)
lemma sint_u8_le:
  "sint (b::u8) < - 64 \<longleftrightarrow> unat b div 64 = 2"
  "sint (b::u8) < - 112 \<longleftrightarrow> unat b div 16 = 8"
  "sint (b::u8) \<le> - 65 \<longleftrightarrow> unat b div 64 = 2"
  "- 65 < sint (b::u8) \<longleftrightarrow> unat b div 64 \<noteq> 2"
  "- 113 < sint (b::u8) \<longleftrightarrow> unat b div 16 \<noteq> 8"
  "sint (b::u8) \<le> - 1 \<longleftrightarrow> 128 \<le> unat b"
proof -
  define n where "n = unat b"
  have n: "uint b = int n" "n < 256" using unat_u8_less[of b] by (simp_all add: n_def)
  show "sint b < - 64 \<longleftrightarrow> unat b div 64 = 2" "sint b < - 112 \<longleftrightarrow> unat b div 16 = 8"
    "sint b \<le> - 65 \<longleftrightarrow> unat b div 64 = 2" "- 65 < sint b \<longleftrightarrow> unat b div 64 \<noteq> 2"
    "- 113 < sint b \<longleftrightarrow> unat b div 16 \<noteq> 8" "sint b \<le> - 1 \<longleftrightarrow> 128 \<le> unat b"
    using n unfolding sint_u8 n_def [symmetric] by auto
qed

lemmas sign_tests = scast_u8_less sint_u8_le

lemma version_nibble_test:
  "ucast (b::u8) AND (-16) AND 255 = (112 :: i32) \<longleftrightarrow> unat b div 16 = 7"
proof -
  have "(ucast b AND (-16) AND 255 :: i32) = ucast (b AND 240)" by (simp add: unsigned_and_eq)
  also have "... = 112 \<longleftrightarrow> b AND 240 = 112" 
    using unat_u8_less [of "b AND 240"] by (simp add: word_unat_eq_iff unsigned_ucast_eq take_bit_nat_eq_self)
  finally show ?thesis by (auto simp: high_nibble_7 u8_eq_iff bit_eval)
qed

section \<open>Byte lists\<close>

lemma length_16_cases:
  assumes "length u = 16"
  obtains b0 b1 b2 b3 b4 b5 b6 b7 b8 b9 b10 b11 b12 b13 b14 b15
  where "u = [b0, b1, b2, b3, b4, b5, b6, b7, b8, b9, b10, b11, b12, b13, b14, b15]"
  using assms by (auto simp: eval_nat_numeral length_Suc_conv)

end
