(* ===== verification/Wasm_Memory.thy ===== *)
theory Wasm_Memory
  imports Prelude
begin

text \<open>
  The linear memory of the translated core and the helpers at the end of
  \<open>src/go/internal/core/core.go\<close>: the bounds-checked little-endian loads and stores,
  \<open>memory_grow\<close>, \<open>memory_init\<close> and \<open>memory_copy\<close>, and the slice copies with which the host
  (\<open>src/go/core.go\<close>) moves arguments and results. An access past the end is a Go panic,
  the value \<open>None\<close>.
\<close>

section \<open>The memory\<close>

record mem =
  msize :: nat
  mbytes :: "nat \<Rightarrow> u8"

text \<open>\<open>m.memory[a]\<close> read and written, and read with the conversions the core uses.\<close>

definition load8 :: "mem \<Rightarrow> nat \<Rightarrow> u8 option" where
  "load8 m a = (if a < msize m then Some (mbytes m a) else None)"

definition load8_u32 :: "mem \<Rightarrow> nat \<Rightarrow> i32 option" where
  "load8_u32 m a = do { b \<leftarrow> load8 m a; Some (ucast b) }"

definition load8_s32 :: "mem \<Rightarrow> nat \<Rightarrow> i32 option" where
  "load8_s32 m a = do { b \<leftarrow> load8 m a; Some (scast b) }"

definition load8_u64 :: "mem \<Rightarrow> nat \<Rightarrow> i64 option" where
  "load8_u64 m a = do { b \<leftarrow> load8 m a; Some (ucast b) }"

definition store8 :: "mem \<Rightarrow> nat \<Rightarrow> u8 \<Rightarrow> mem option" where
  "store8 m a v = (if a < msize m then Some (m\<lparr>mbytes := (mbytes m)(a := v)\<rparr>) else None)"

text \<open>The multi-byte helpers check the last byte of the access and are little-endian.\<close>

definition le16 :: "u8 \<Rightarrow> u8 \<Rightarrow> u16" where
  "le16 b0 b1 = ucast b0 OR push_bit 8 (ucast b1)"

definition le32 :: "u8 \<Rightarrow> u8 \<Rightarrow> u8 \<Rightarrow> u8 \<Rightarrow> i32" where
  "le32 b0 b1 b2 b3 =
     ucast b0 OR push_bit 8 (ucast b1) OR push_bit 16 (ucast b2) OR push_bit 24 (ucast b3)"

definition le64 :: "u8 \<Rightarrow> u8 \<Rightarrow> u8 \<Rightarrow> u8 \<Rightarrow> u8 \<Rightarrow> u8 \<Rightarrow> u8 \<Rightarrow> u8 \<Rightarrow> i64" where
  "le64 b0 b1 b2 b3 b4 b5 b6 b7 =
     ucast b0 OR push_bit 8 (ucast b1) OR push_bit 16 (ucast b2) OR push_bit 24 (ucast b3) OR
     push_bit 32 (ucast b4) OR push_bit 40 (ucast b5) OR push_bit 48 (ucast b6) OR
     push_bit 56 (ucast b7)"

definition load16 :: "mem \<Rightarrow> nat \<Rightarrow> u16 option" where
  "load16 m a = (if a + 1 < msize m then Some (le16 (mbytes m a) (mbytes m (a + 1))) else None)"

definition store16 :: "mem \<Rightarrow> nat \<Rightarrow> u16 \<Rightarrow> mem option" where
  "store16 m a v = (if a + 1 < msize m
     then Some (m\<lparr>mbytes := (mbytes m)(a := ucast v, a + 1 := ucast (drop_bit 8 v))\<rparr>)
     else None)"

definition load32 :: "mem \<Rightarrow> nat \<Rightarrow> i32 option" where
  "load32 m a = (if a + 3 < msize m
     then Some (le32 (mbytes m a) (mbytes m (a + 1)) (mbytes m (a + 2)) (mbytes m (a + 3)))
     else None)"

definition store32 :: "mem \<Rightarrow> nat \<Rightarrow> i32 \<Rightarrow> mem option" where
  "store32 m a v = (if a + 3 < msize m
     then Some (m\<lparr>mbytes := (mbytes m)(a := ucast v, a + 1 := ucast (drop_bit 8 v),
       a + 2 := ucast (drop_bit 16 v), a + 3 := ucast (drop_bit 24 v))\<rparr>)
     else None)"

definition load64 :: "mem \<Rightarrow> nat \<Rightarrow> i64 option" where
  "load64 m a = (if a + 7 < msize m
     then Some (le64 (mbytes m a) (mbytes m (a + 1)) (mbytes m (a + 2)) (mbytes m (a + 3))
       (mbytes m (a + 4)) (mbytes m (a + 5)) (mbytes m (a + 6)) (mbytes m (a + 7)))
     else None)"

definition store64 :: "mem \<Rightarrow> nat \<Rightarrow> i64 \<Rightarrow> mem option" where
  "store64 m a v = (if a + 7 < msize m
     then Some (m\<lparr>mbytes := (mbytes m)(a := ucast v, a + 1 := ucast (drop_bit 8 v),
       a + 2 := ucast (drop_bit 16 v), a + 3 := ucast (drop_bit 24 v),
       a + 4 := ucast (drop_bit 32 v), a + 5 := ucast (drop_bit 40 v),
       a + 6 := ucast (drop_bit 48 v), a + 7 := ucast (drop_bit 56 v))\<rparr>)
     else None)"

text \<open>
  Loads and stores are inverse: a word is its bytes, and the bytes of a loaded word are the
  bytes in memory.
\<close>

lemma bit_le16:
  "bit (le16 b0 b1) n \<longleftrightarrow> (if n < 8 then bit b0 n else bit b1 (n - 8))"
  unfolding le16_def by (auto simp: bit_simps not_less dest: bit_imp_le_length)

lemma bit_le32:
  "bit (le32 b0 b1 b2 b3) n \<longleftrightarrow>
     (if n < 8 then bit b0 n else if n < 16 then bit b1 (n - 8)
      else if n < 24 then bit b2 (n - 16) else bit b3 (n - 24))"
proof -
  consider "n < 8" | "8 \<le> n" "n < 16" | "16 \<le> n" "n < 24" | "24 \<le> n" by linarith
  then show ?thesis
    unfolding le32_def by cases (auto simp: bit_simps bit_u8_high dest: bit_imp_le_length)
qed

lemma bit_le64:
  "bit (le64 b0 b1 b2 b3 b4 b5 b6 b7) n \<longleftrightarrow>
     (if n < 8 then bit b0 n else if n < 16 then bit b1 (n - 8)
      else if n < 24 then bit b2 (n - 16) else if n < 32 then bit b3 (n - 24)
      else if n < 40 then bit b4 (n - 32) else if n < 48 then bit b5 (n - 40)
      else if n < 56 then bit b6 (n - 48) else bit b7 (n - 56))"
proof -
  consider "n < 8" | "8 \<le> n" "n < 16" | "16 \<le> n" "n < 24" | "24 \<le> n" "n < 32"
    | "32 \<le> n" "n < 40" | "40 \<le> n" "n < 48" | "48 \<le> n" "n < 56" | "56 \<le> n"
    by linarith
  then show ?thesis
    unfolding le64_def by cases (auto simp: bit_simps bit_u8_high dest: bit_imp_le_length)
qed

lemma le16_bytes [simp]: "le16 (ucast v) (ucast (drop_bit 8 v)) = v"
  by (rule bit_word_eqI) (auto simp: bit_le16 bit_simps)

lemma le32_bytes [simp]:
  "le32 (ucast v) (ucast (drop_bit 8 v)) (ucast (drop_bit 16 v)) (ucast (drop_bit 24 v)) = v"
  by (rule bit_word_eqI) (auto simp: bit_le32 bit_simps less_diff_conv2)

lemma le64_bytes [simp]:
  "le64 (ucast v) (ucast (drop_bit 8 v)) (ucast (drop_bit 16 v)) (ucast (drop_bit 24 v))
     (ucast (drop_bit 32 v)) (ucast (drop_bit 40 v)) (ucast (drop_bit 48 v))
     (ucast (drop_bit 56 v)) = v"
  by (rule bit_word_eqI) (auto simp: bit_le64 bit_simps less_diff_conv2)

lemma bytes_le16 [simp]:
  "ucast (le16 b0 b1) = b0" "ucast (drop_bit 8 (le16 b0 b1)) = b1"
  by (rule eq_bits_u8; simp add: bit_le16 bit_eval)+

lemma bytes_le32 [simp]:
  "ucast (le32 b0 b1 b2 b3) = b0" "ucast (drop_bit 8 (le32 b0 b1 b2 b3)) = b1"
  "ucast (drop_bit 16 (le32 b0 b1 b2 b3)) = b2" "ucast (drop_bit 24 (le32 b0 b1 b2 b3)) = b3"
  by (rule eq_bits_u8; simp add: bit_le32 bit_eval)+

lemma bytes_le64 [simp]:
  "ucast (le64 b0 b1 b2 b3 b4 b5 b6 b7) = b0"
  "ucast (drop_bit 8 (le64 b0 b1 b2 b3 b4 b5 b6 b7)) = b1"
  "ucast (drop_bit 16 (le64 b0 b1 b2 b3 b4 b5 b6 b7)) = b2"
  "ucast (drop_bit 24 (le64 b0 b1 b2 b3 b4 b5 b6 b7)) = b3"
  "ucast (drop_bit 32 (le64 b0 b1 b2 b3 b4 b5 b6 b7)) = b4"
  "ucast (drop_bit 40 (le64 b0 b1 b2 b3 b4 b5 b6 b7)) = b5"
  "ucast (drop_bit 48 (le64 b0 b1 b2 b3 b4 b5 b6 b7)) = b6"
  "ucast (drop_bit 56 (le64 b0 b1 b2 b3 b4 b5 b6 b7)) = b7"
  by (rule eq_bits_u8; simp add: bit_le64 bit_eval)+

text \<open>
  Evaluation of accesses that are in bounds: loads in \<open>mem_simps\<close>, stores as updates of
  single bytes in \<open>store_upds\<close>.
\<close>

lemma load_in_bounds [mem_simps]:
  "a < msize m \<Longrightarrow> load8 m a = Some (mbytes m a)"
  "a < msize m \<Longrightarrow> load8_u32 m a = Some (ucast (mbytes m a))"
  "a < msize m \<Longrightarrow> load8_s32 m a = Some (scast (mbytes m a))"
  "a < msize m \<Longrightarrow> load8_u64 m a = Some (ucast (mbytes m a))"
  "a + 1 < msize m \<Longrightarrow> load16 m a = Some (le16 (mbytes m a) (mbytes m (a + 1)))"
  "a + 3 < msize m \<Longrightarrow> load32 m a =
     Some (le32 (mbytes m a) (mbytes m (a + 1)) (mbytes m (a + 2)) (mbytes m (a + 3)))"
  "a + 7 < msize m \<Longrightarrow> load64 m a =
     Some (le64 (mbytes m a) (mbytes m (a + 1)) (mbytes m (a + 2)) (mbytes m (a + 3))
       (mbytes m (a + 4)) (mbytes m (a + 5)) (mbytes m (a + 6)) (mbytes m (a + 7)))"
  by (simp_all add: load8_def load8_u32_def load8_s32_def load8_u64_def load16_def load32_def
      load64_def)

lemma store_upds:
  "a < msize m \<Longrightarrow> store8 m a b = Some (m\<lparr>mbytes := (mbytes m)(a := b)\<rparr>)"
  "a + 1 < msize m \<Longrightarrow> store16 m a h =
     Some (m\<lparr>mbytes := (mbytes m)(a := ucast h, a + 1 := ucast (drop_bit 8 h))\<rparr>)"
  "a + 3 < msize m \<Longrightarrow> store32 m a v =
     Some (m\<lparr>mbytes := (mbytes m)(a := ucast v, a + 1 := ucast (drop_bit 8 v),
       a + 2 := ucast (drop_bit 16 v), a + 3 := ucast (drop_bit 24 v))\<rparr>)"
  "a + 7 < msize m \<Longrightarrow> store64 m a w =
     Some (m\<lparr>mbytes := (mbytes m)(a := ucast w, a + 1 := ucast (drop_bit 8 w),
       a + 2 := ucast (drop_bit 16 w), a + 3 := ucast (drop_bit 24 w),
       a + 4 := ucast (drop_bit 32 w), a + 5 := ucast (drop_bit 40 w),
       a + 6 := ucast (drop_bit 48 w), a + 7 := ucast (drop_bit 56 w))\<rparr>)"
  by (simp_all add: store8_def store16_def store32_def store64_def)

section \<open>Byte ranges\<close>

definition bytes_at :: "mem \<Rightarrow> nat \<Rightarrow> nat \<Rightarrow> u8 list" where
  "bytes_at m a n = map (mbytes m) [a..<a + n]"

definition put_bytes :: "nat \<Rightarrow> u8 list \<Rightarrow> mem \<Rightarrow> mem" where
  "put_bytes a bs m =
     m\<lparr>mbytes := (\<lambda>x. if a \<le> x \<and> x < a + length bs then bs ! (x - a) else mbytes m x)\<rparr>"

text \<open>
  \<open>copy(mem[a:], bs)\<close> writes as many bytes as fit; \<open>copy(out[:], mem[a:])\<close> reads at most
  \<open>n\<close>. Slicing from beyond the end panics.
\<close>

definition copy_in :: "mem \<Rightarrow> nat \<Rightarrow> u8 list \<Rightarrow> mem option" where
  "copy_in m a bs =
     (if a \<le> msize m then Some (put_bytes a (take (msize m - a) bs) m) else None)"

definition copy_out :: "mem \<Rightarrow> nat \<Rightarrow> nat \<Rightarrow> u8 list option" where
  "copy_out m a n =
     (if a \<le> msize m then Some (bytes_at m a (min n (msize m - a))) else None)"

lemma length_bytes_at [simp]: "length (bytes_at m a n) = n"
  by (simp add: bytes_at_def)

lemma nth_bytes_at [simp]: "i < n \<Longrightarrow> bytes_at m a n ! i = mbytes m (a + i)"
  by (simp add: bytes_at_def)

lemma bytes_at_cong:
  "(\<And>x. a \<le> x \<Longrightarrow> x < a + n \<Longrightarrow> mbytes m x = mbytes m' x) \<Longrightarrow> bytes_at m a n = bytes_at m' a n"
  by (simp add: bytes_at_def)

lemma msize_put_bytes [simp]: "msize (put_bytes a bs m) = msize m"
  by (simp add: put_bytes_def)

lemma mbytes_put_bytes:
  "mbytes (put_bytes a bs m) x =
     (if a \<le> x \<and> x < a + length bs then bs ! (x - a) else mbytes m x)"
  by (simp add: put_bytes_def)

lemma bytes_at_put_bytes_same [simp]:
  "length bs = n \<Longrightarrow> bytes_at (put_bytes a bs m) a n = bs"
  by (rule nth_equalityI) (simp_all add: mbytes_put_bytes)

lemma bytes_at_put_bytes_other:
  "b + n \<le> a \<or> a + length bs \<le> b \<Longrightarrow> bytes_at (put_bytes a bs m) b n = bytes_at m b n"
  by (rule bytes_at_cong) (auto simp: mbytes_put_bytes)

lemma put_bytes_bytes_at [simp]: "put_bytes a (bytes_at m a n) m = m"
  by (rule mem.equality) (auto simp: fun_eq_iff put_bytes_def)

lemma put_bytes_twice [simp]:
  "length a = length b \<Longrightarrow> put_bytes p a (put_bytes p b m) = put_bytes p a m"
  by (rule mem.equality) (auto simp: fun_eq_iff put_bytes_def)

lemma put_bytes_append:
  "b = a + length xs \<Longrightarrow> put_bytes a xs (put_bytes b ys m) = put_bytes a (xs @ ys) m"
  by (rule mem.equality) (auto simp: fun_eq_iff put_bytes_def nth_append)

definition le_bytes8 :: "i64 \<Rightarrow> u8 list" where
  "le_bytes8 w = [ucast w, ucast (drop_bit 8 w), ucast (drop_bit 16 w), ucast (drop_bit 24 w),
     ucast (drop_bit 32 w), ucast (drop_bit 40 w), ucast (drop_bit 48 w), ucast (drop_bit 56 w)]"

lemma length_le_bytes8 [simp]: "length (le_bytes8 w) = 8"
  by (simp add: le_bytes8_def)

lemma store64_put_bytes:
  "a + 7 < msize m \<Longrightarrow> store64 m a w = Some (put_bytes a (le_bytes8 w) m)"
proof -
  assume a: "a + 7 < msize m"
  have "put_bytes a (le_bytes8 w) m = m\<lparr>mbytes := (mbytes m)(a := ucast w, a + 1 := ucast (drop_bit 8 w),
       a + 2 := ucast (drop_bit 16 w), a + 3 := ucast (drop_bit 24 w),
       a + 4 := ucast (drop_bit 32 w), a + 5 := ucast (drop_bit 40 w),
       a + 6 := ucast (drop_bit 48 w), a + 7 := ucast (drop_bit 56 w))\<rparr>"
    by (auto simp: put_bytes_def le_bytes8_def fun_eq_iff nth_Cons' not_less)
  with a show ?thesis by (simp add: store64_def)
qed

definition le_bytes4 :: "i32 \<Rightarrow> u8 list" where
  "le_bytes4 w = [ucast w, ucast (drop_bit 8 w), ucast (drop_bit 16 w), ucast (drop_bit 24 w)]"

lemma length_le_bytes4 [simp]: "length (le_bytes4 w) = 4"
  by (simp add: le_bytes4_def)

lemma store32_put_bytes:
  "a + 3 < msize m \<Longrightarrow> store32 m a w = Some (put_bytes a (le_bytes4 w) m)"
proof -
  assume a: "a + 3 < msize m"
  have "put_bytes a (le_bytes4 w) m = m\<lparr>mbytes := (mbytes m)(a := ucast w, a + 1 := ucast (drop_bit 8 w),
       a + 2 := ucast (drop_bit 16 w), a + 3 := ucast (drop_bit 24 w))\<rparr>"
    by (auto simp: put_bytes_def le_bytes4_def fun_eq_iff nth_Cons' not_less)
  with a show ?thesis by (simp add: store32_def)
qed

lemma le_bytes8_0: "le_bytes8 0 = replicate 8 0"
  by (simp add: le_bytes8_def eval_nat_numeral)

lemma copy_in_fits [mem_simps]:
  "a + length bs \<le> msize m \<Longrightarrow> copy_in m a bs = Some (put_bytes a bs m)"
  by (simp add: copy_in_def)

lemma copy_out_fits [mem_simps]:
  "a + n \<le> msize m \<Longrightarrow> copy_out m a n = Some (bytes_at m a n)"
  by (auto simp: copy_out_def min_def)

section \<open>Growth, initialisation and block copy\<close>

definition memory_grow :: "nat \<Rightarrow> mem \<Rightarrow> i64 \<Rightarrow> i64 \<Rightarrow> i64 \<times> mem" where
  "memory_grow maxint m delta mx =
     (let old = msize m div 65536
      in if delta = 0 then (of_nat old, m)
         else let mx' = min (unat mx) (maxint div 65536);
                  new = old + unat delta
              in if new \<ge> 2 ^ 64 \<or> new > mx' then (- 1, m)
                 else (of_nat old,
                       \<lparr>msize = new * 65536,
                        mbytes = (\<lambda>a. if a < msize m then mbytes m a else 0)\<rparr>))"

definition memory_init :: "mem \<Rightarrow> u8 list \<Rightarrow> nat \<Rightarrow> nat \<Rightarrow> nat \<Rightarrow> mem option" where
  "memory_init m data dest src n =
     (if dest + n \<le> msize m \<and> src + n \<le> length data
      then Some (put_bytes dest (take n (drop src data)) m) else None)"

definition memory_copy :: "mem \<Rightarrow> nat \<Rightarrow> nat \<Rightarrow> nat \<Rightarrow> mem option" where
  "memory_copy m dest src n =
     (if dest + n \<le> msize m \<and> src + n \<le> msize m
      then Some (put_bytes dest (bytes_at m src n) m) else None)"

lemma memory_copy_in_bounds [mem_simps]:
  "dest + n \<le> msize m \<Longrightarrow> src + n \<le> msize m \<Longrightarrow>
     memory_copy m dest src n = Some (put_bytes dest (bytes_at m src n) m)"
  by (simp add: memory_copy_def)

end
