(* ===== verification/Memory_Portability.thy ===== *)
theory Memory_Portability
  imports Wasm_Memory
begin

text \<open>
  The memory helpers of \<open>src/go/internal/core/core.go\<close> as they are compiled for each
  architecture: the constants \<open>big\<close>, \<open>little\<close> and \<open>unalignedOK\<close>, the compile-time check that the
  byte order is known, and both ways of making an access, through \<open>encoding/binary\<close> or through
  a pointer in the machine's own byte order. All of them are the little-endian accesses of
  \<open>Wasm_Memory\<close>, on which the rest of the development is built.
\<close>

section \<open>Architectures\<close>

text \<open>\<open>runtime.GOARCH\<close> is a string; the three constants are functions of it.\<close>

definition big :: "string \<Rightarrow> bool" where
  "big GOARCH \<longleftrightarrow> False \<or>
     GOARCH = ''armbe'' \<or> GOARCH = ''arm64be'' \<or>
     GOARCH = ''m68k'' \<or> GOARCH = ''mips'' \<or>
     GOARCH = ''mips64'' \<or> GOARCH = ''mips64p32'' \<or>
     GOARCH = ''ppc'' \<or> GOARCH = ''ppc64'' \<or>
     GOARCH = ''s390'' \<or> GOARCH = ''s390x'' \<or>
     GOARCH = ''shbe'' \<or> GOARCH = ''sparc'' \<or>
     GOARCH = ''sparc64''"

definition little :: "string \<Rightarrow> bool" where
  "little GOARCH \<longleftrightarrow> False \<or>
     GOARCH = ''386'' \<or> GOARCH = ''amd64'' \<or>
     GOARCH = ''amd64p32'' \<or> GOARCH = ''alpha'' \<or>
     GOARCH = ''arm'' \<or> GOARCH = ''arm64'' \<or>
     GOARCH = ''loong64'' \<or> GOARCH = ''mipsle'' \<or>
     GOARCH = ''mips64le'' \<or> GOARCH = ''mips64p32le'' \<or>
     GOARCH = ''nios2'' \<or> GOARCH = ''ppc64le'' \<or>
     GOARCH = ''riscv'' \<or> GOARCH = ''riscv64'' \<or>
     GOARCH = ''sh'' \<or> GOARCH = ''wasm''"

definition unalignedOK :: "string \<Rightarrow> bool" where
  "unalignedOK GOARCH \<longleftrightarrow> False \<or>
     GOARCH = ''386'' \<or> GOARCH = ''amd64'' \<or>
     GOARCH = ''arm64'' \<or> GOARCH = ''loong64'' \<or>
     GOARCH = ''ppc64'' \<or> GOARCH = ''ppc64le'' \<or>
     GOARCH = ''s390x'' \<or> GOARCH = ''wasm''"

text \<open>
  \<open>map[bool]struct{}{big: {}, little: {}}\<close>: two equal constant keys in a map literal are a
  compile error, so the file compiles where the two constants differ.
\<close>

definition endianness_known :: "string \<Rightarrow> bool" where
  "endianness_known GOARCH \<longleftrightarrow> big GOARCH \<noteq> little GOARCH"

text \<open>
  What the lists say of the hardware: \<open>native_big\<close>, whether the machine stores the most
  significant byte first, is as the list the architecture is on.
\<close>

definition listed_order :: "string \<Rightarrow> bool \<Rightarrow> bool" where
  "listed_order GOARCH native_big \<longleftrightarrow>
     (big GOARCH \<longrightarrow> native_big) \<and> (little GOARCH \<longrightarrow> \<not> native_big)"

section \<open>The library's byte operations\<close>

text \<open>\<open>math/bits\<close>: the bytes of a word in reverse order, by masks and shifts.\<close>

definition ReverseBytes16 :: "u16 \<Rightarrow> u16" where
  "ReverseBytes16 x = drop_bit 8 x OR push_bit 8 x"

definition ReverseBytes32 :: "i32 \<Rightarrow> i32" where
  "ReverseBytes32 x =
     (let x = drop_bit 8 x AND 0x00FF00FF OR push_bit 8 (x AND 0x00FF00FF)
      in drop_bit 16 x OR push_bit 16 x)"

definition ReverseBytes64 :: "i64 \<Rightarrow> i64" where
  "ReverseBytes64 x =
     (let x = drop_bit 8 x AND 0x00FF00FF00FF00FF OR push_bit 8 (x AND 0x00FF00FF00FF00FF);
          x = drop_bit 16 x AND 0x0000FFFF0000FFFF OR push_bit 16 (x AND 0x0000FFFF0000FFFF)
      in drop_bit 32 x OR push_bit 32 x)"

text \<open>
  \<open>binary.LittleEndian\<close> reads and writes the first bytes of a slice, whatever the machine.
  \<open>peek\<close> and \<open>poke\<close> are the accesses through a pointer: the machine's own byte order.
\<close>

definition le_bytes2 :: "u16 \<Rightarrow> u8 list" where
  "le_bytes2 w = [ucast w, ucast (drop_bit 8 w)]"

definition peek16 :: "bool \<Rightarrow> mem \<Rightarrow> nat \<Rightarrow> u16" where
  "peek16 native_big m a = (let b = (\<lambda>i. mbytes m (a + i)) in
     if native_big then le16 (b 1) (b 0) else le16 (b 0) (b 1))"

definition peek32 :: "bool \<Rightarrow> mem \<Rightarrow> nat \<Rightarrow> i32" where
  "peek32 native_big m a = (let b = (\<lambda>i. mbytes m (a + i)) in
     if native_big then le32 (b 3) (b 2) (b 1) (b 0) else le32 (b 0) (b 1) (b 2) (b 3))"

definition peek64 :: "bool \<Rightarrow> mem \<Rightarrow> nat \<Rightarrow> i64" where
  "peek64 native_big m a = (let b = (\<lambda>i. mbytes m (a + i)) in
     if native_big then le64 (b 7) (b 6) (b 5) (b 4) (b 3) (b 2) (b 1) (b 0)
     else le64 (b 0) (b 1) (b 2) (b 3) (b 4) (b 5) (b 6) (b 7))"

definition poke :: "bool \<Rightarrow> mem \<Rightarrow> nat \<Rightarrow> u8 list \<Rightarrow> mem" where
  "poke native_big m a bs = put_bytes a (if native_big then rev bs else bs) m"

section \<open>The helpers\<close>

text \<open>
  An address is a \<open>uint64\<close> and its sums wrap. \<open>mem[:0:len(mem)][a : b : b]\<close> panics unless
  \<open>a \<le> b \<le> len(mem)\<close>, and \<open>mem[i]\<close> unless \<open>i < len(mem)\<close>.
\<close>

definition reslice :: "mem \<Rightarrow> i64 \<Rightarrow> i64 \<Rightarrow> nat option" where
  "reslice m a b = (if a \<le> b \<and> unat b \<le> msize m then Some (unat a) else None)"

definition arch_load16 :: "string \<Rightarrow> bool \<Rightarrow> mem \<Rightarrow> i64 \<Rightarrow> u16 option" where
  "arch_load16 GOARCH native_big m addr =
     (if \<not> unalignedOK GOARCH then
        do { s \<leftarrow> reslice m addr (addr + 2); Some (le16 (mbytes m s) (mbytes m (s + 1))) }
      else do { _ \<leftarrow> load8 m (unat (addr + 1));
                let val = peek16 native_big m (unat addr);
                if big GOARCH then Some (ReverseBytes16 val) else Some val })"

definition arch_store16 :: "string \<Rightarrow> bool \<Rightarrow> mem \<Rightarrow> i64 \<Rightarrow> u16 \<Rightarrow> mem option" where
  "arch_store16 GOARCH native_big m addr val =
     (if \<not> unalignedOK GOARCH then
        do { s \<leftarrow> reslice m addr (addr + 2); Some (put_bytes s (le_bytes2 val) m) }
      else do { let val = (if big GOARCH then ReverseBytes16 val else val);
                _ \<leftarrow> load8 m (unat (addr + 1));
                Some (poke native_big m (unat addr) (le_bytes2 val)) })"

definition arch_load32 :: "string \<Rightarrow> bool \<Rightarrow> mem \<Rightarrow> i64 \<Rightarrow> i32 option" where
  "arch_load32 GOARCH native_big m addr =
     (if \<not> unalignedOK GOARCH then
        do { s \<leftarrow> reslice m addr (addr + 4);
             Some (le32 (mbytes m s) (mbytes m (s + 1)) (mbytes m (s + 2)) (mbytes m (s + 3))) }
      else do { _ \<leftarrow> load8 m (unat (addr + 3));
                let val = peek32 native_big m (unat addr);
                if big GOARCH then Some (ReverseBytes32 val) else Some val })"

definition arch_store32 :: "string \<Rightarrow> bool \<Rightarrow> mem \<Rightarrow> i64 \<Rightarrow> i32 \<Rightarrow> mem option" where
  "arch_store32 GOARCH native_big m addr val =
     (if \<not> unalignedOK GOARCH then
        do { s \<leftarrow> reslice m addr (addr + 4); Some (put_bytes s (le_bytes4 val) m) }
      else do { let val = (if big GOARCH then ReverseBytes32 val else val);
                _ \<leftarrow> load8 m (unat (addr + 3));
                Some (poke native_big m (unat addr) (le_bytes4 val)) })"

definition arch_load64 :: "string \<Rightarrow> bool \<Rightarrow> mem \<Rightarrow> i64 \<Rightarrow> i64 option" where
  "arch_load64 GOARCH native_big m addr =
     (if \<not> unalignedOK GOARCH then
        do { s \<leftarrow> reslice m addr (addr + 8);
             Some (le64 (mbytes m s) (mbytes m (s + 1)) (mbytes m (s + 2)) (mbytes m (s + 3))
               (mbytes m (s + 4)) (mbytes m (s + 5)) (mbytes m (s + 6)) (mbytes m (s + 7))) }
      else do { _ \<leftarrow> load8 m (unat (addr + 7));
                let val = peek64 native_big m (unat addr);
                if big GOARCH then Some (ReverseBytes64 val) else Some val })"

definition arch_store64 :: "string \<Rightarrow> bool \<Rightarrow> mem \<Rightarrow> i64 \<Rightarrow> i64 \<Rightarrow> mem option" where
  "arch_store64 GOARCH native_big m addr val =
     (if \<not> unalignedOK GOARCH then
        do { s \<leftarrow> reslice m addr (addr + 8); Some (put_bytes s (le_bytes8 val) m) }
      else do { let val = (if big GOARCH then ReverseBytes64 val else val);
                _ \<leftarrow> load8 m (unat (addr + 7));
                Some (poke native_big m (unat addr) (le_bytes8 val)) })"

text \<open>
  The lists exclude one another, so the check refuses exactly the architectures on neither; and
  the ports of the Go toolchain are all on one of them.
\<close>

lemma big_not_little: "big GOARCH \<Longrightarrow> \<not> little GOARCH"
  unfolding big_def little_def by auto

lemma endianness_known_iff: "endianness_known GOARCH \<longleftrightarrow> big GOARCH \<or> little GOARCH"
  using big_not_little by (auto simp: endianness_known_def)

lemma go_ports_known:
  "\<forall>a\<in>{''386'', ''amd64'', ''arm'', ''arm64'', ''loong64'', ''mips'', ''mips64'', ''mips64le'', ''mipsle'',
     ''ppc64'', ''ppc64le'', ''riscv64'', ''s390x'', ''wasm''}. endianness_known a"
  by (simp add: endianness_known_def big_def little_def)

lemma listed_order_big:
  "endianness_known GOARCH \<Longrightarrow> listed_order GOARCH native_big \<Longrightarrow> native_big = big GOARCH"
  by (auto simp: endianness_known_iff listed_order_def dest: big_not_little)

section \<open>Byte reversal\<close>

lemma le16_eqI: "ucast v = b0 \<Longrightarrow> ucast (drop_bit 8 v) = b1 \<Longrightarrow> v = le16 b0 b1"
  by (metis le16_bytes)

lemma le32_eqI:
  "ucast v = b0 \<Longrightarrow> ucast (drop_bit 8 v) = b1 \<Longrightarrow> ucast (drop_bit 16 v) = b2 \<Longrightarrow>
   ucast (drop_bit 24 v) = b3 \<Longrightarrow> v = le32 b0 b1 b2 b3"
  by (metis le32_bytes)

lemma le64_eqI:
  "ucast v = b0 \<Longrightarrow> ucast (drop_bit 8 v) = b1 \<Longrightarrow> ucast (drop_bit 16 v) = b2 \<Longrightarrow>
   ucast (drop_bit 24 v) = b3 \<Longrightarrow> ucast (drop_bit 32 v) = b4 \<Longrightarrow> ucast (drop_bit 40 v) = b5 \<Longrightarrow>
   ucast (drop_bit 48 v) = b6 \<Longrightarrow> ucast (drop_bit 56 v) = b7 \<Longrightarrow>
   v = le64 b0 b1 b2 b3 b4 b5 b6 b7"
  by (metis le64_bytes)

lemma ReverseBytes16_le [simp]: "ReverseBytes16 (le16 b0 b1) = le16 b1 b0"
  by (rule le16_eqI; rule eq_bits_u8; simp add: ReverseBytes16_def bit_eval bit_le16)

lemma ReverseBytes32_le [simp]: "ReverseBytes32 (le32 b0 b1 b2 b3) = le32 b3 b2 b1 b0"
  by (rule le32_eqI; rule eq_bits_u8; simp add: ReverseBytes32_def Let_def bit_eval bit_le32)

lemma ReverseBytes64_le [simp]:
  "ReverseBytes64 (le64 b0 b1 b2 b3 b4 b5 b6 b7) = le64 b7 b6 b5 b4 b3 b2 b1 b0"
  by (rule le64_eqI; rule eq_bits_u8; simp add: ReverseBytes64_def Let_def bit_eval bit_le64)

text \<open>So the bytes of a reversed word are its bytes reversed.\<close>

lemma le_bytes2_reverse: "rev (le_bytes2 (ReverseBytes16 v)) = le_bytes2 v"
proof -
  obtain b0 b1 where "v = le16 b0 b1" using le16_bytes by metis
  then show ?thesis by (simp add: le_bytes2_def)
qed

lemma le_bytes4_reverse: "rev (le_bytes4 (ReverseBytes32 v)) = le_bytes4 v"
proof -
  obtain b0 b1 b2 b3 where "v = le32 b0 b1 b2 b3" using le32_bytes by metis
  then show ?thesis by (simp add: le_bytes4_def)
qed

lemma le_bytes8_reverse: "rev (le_bytes8 (ReverseBytes64 v)) = le_bytes8 v"
proof -
  obtain b0 b1 b2 b3 b4 b5 b6 b7 where "v = le64 b0 b1 b2 b3 b4 b5 b6 b7"
    using le64_bytes by metis
  then show ?thesis by (simp add: le_bytes8_def)
qed

section \<open>One access on every architecture\<close>

text \<open>A sum of two 32-bit values, as the core's addresses are, leaves room for the width.\<close>

lemma unat_address:
  "unat (ucast (v :: i32) + ucast (k :: i32) :: i64) = unat v + unat k"
  using unat_i32_less [of v] unat_i32_less [of k]
  by (subst unat_plus_i64) (simp_all add: unsigned_ucast_eq take_bit_nat_eq_self)

lemma unat_address_plus:
  assumes "unat (a :: i64) \<le> 8589934590" "d \<le> 8"
  shows "unat (a + of_nat d) = unat a + d" "a \<le> a + of_nat d"
  using assms by (simp_all add: unat_plus_i64 unat_of_nat_i64 word_le_nat_alt)

lemma reslice_address:
  assumes "unat a \<le> 8589934590" "d \<le> 8"
  shows "reslice m a (a + of_nat d) = (if unat a + d \<le> msize m then Some (unat a) else None)"
  using unat_address_plus [OF assms] by (simp add: reslice_def)

lemma store16_put_bytes: "a + 1 < msize m \<Longrightarrow> store16 m a v = Some (put_bytes a (le_bytes2 v) m)"
  by (auto simp: store16_def put_bytes_def le_bytes2_def nth_Cons' not_less intro!: mem.equality ext)

lemma store_past_end:
  "\<not> a + 1 < msize m \<Longrightarrow> store16 m a h = None" "\<not> a + 3 < msize m \<Longrightarrow> store32 m a v = None"
  "\<not> a + 7 < msize m \<Longrightarrow> store64 m a w = None"
  by (simp_all add: store16_def store32_def store64_def)

lemmas arch_helpers = arch_load16_def arch_load32_def arch_load64_def arch_store16_def
  arch_store32_def arch_store64_def

lemma reslices:
  assumes "unat a \<le> 8589934590"
  shows "reslice m a (a + 2) = (if unat a + 1 < msize m then Some (unat a) else None)"
    "reslice m a (a + 4) = (if unat a + 3 < msize m then Some (unat a) else None)"
    "reslice m a (a + 8) = (if unat a + 7 < msize m then Some (unat a) else None)"
    "unat (a + 1) = unat a + 1" "unat (a + 3) = unat a + 3" "unat (a + 7) = unat a + 7"
  using reslice_address [OF assms, of 2 m] reslice_address [OF assms, of 4 m] reslice_address [OF assms, of 8 m]
    unat_address_plus(1) [OF assms, of 1] unat_address_plus(1) [OF assms, of 3] unat_address_plus(1) [OF assms, of 7]
  by (auto simp: Suc_le_eq)

text \<open>Loads and stores in turn, for a machine whose byte order is the architecture's.\<close>

lemma arch_loads:
  assumes "unat a \<le> 8589934590"
  shows "arch_load16 GOARCH (big GOARCH) m a = load16 m (unat a)"
    "arch_load32 GOARCH (big GOARCH) m a = load32 m (unat a)"
    "arch_load64 GOARCH (big GOARCH) m a = load64 m (unat a)"
  by (simp_all add: arch_helpers reslices [OF assms] load8_def load16_def load32_def load64_def
      peek16_def peek32_def peek64_def Let_def del: One_nat_def)

lemma poke_reversed:
  "poke b m a (le_bytes2 (if b then ReverseBytes16 h else h)) = put_bytes a (le_bytes2 h) m"
  "poke b m a (le_bytes4 (if b then ReverseBytes32 v else v)) = put_bytes a (le_bytes4 v) m"
  "poke b m a (le_bytes8 (if b then ReverseBytes64 w else w)) = put_bytes a (le_bytes8 w) m"
  by (simp_all add: poke_def le_bytes2_reverse le_bytes4_reverse le_bytes8_reverse)

lemma arch_stores:
  assumes "unat a \<le> 8589934590"
  shows "arch_store16 GOARCH (big GOARCH) m a h = store16 m (unat a) h"
    "arch_store32 GOARCH (big GOARCH) m a v = store32 m (unat a) v"
    "arch_store64 GOARCH (big GOARCH) m a w = store64 m (unat a) w"
  by (simp_all add: arch_helpers reslices [OF assms] load8_def poke_reversed Let_def
      store16_put_bytes store32_put_bytes store64_put_bytes store_past_end)

text \<open>
  C11. The memory helpers mean the same on every architecture. Wherever the compile-time check
  passes, on a machine with the byte order of its list, each of the six helpers at an address
  the core forms, \<open>uint64(uint32(v)) + k\<close>, is the little-endian access of \<open>Wasm_Memory\<close> at
  that offset, panics included: by \<open>encoding/binary\<close> where accesses must be aligned, by one
  native access where they need not be, and with its bytes swapped where the machine is
  big-endian.
\<close>

theorem memory_helpers_portable:
  assumes "endianness_known GOARCH" "listed_order GOARCH native_big"
    "a = ucast (v :: i32) + ucast (k :: i32)"
  shows "arch_load16 GOARCH native_big m a = load16 m (unat v + unat k) \<and>
    arch_load32 GOARCH native_big m a = load32 m (unat v + unat k) \<and>
    arch_load64 GOARCH native_big m a = load64 m (unat v + unat k) \<and>
    arch_store16 GOARCH native_big m a x16 = store16 m (unat v + unat k) x16 \<and>
    arch_store32 GOARCH native_big m a x32 = store32 m (unat v + unat k) x32 \<and>
    arch_store64 GOARCH native_big m a x64 = store64 m (unat v + unat k) x64"
proof -
  have a: "unat a = unat v + unat k" unfolding assms(3) by (rule unat_address)
  then have "unat a \<le> 8589934590" using unat_i32_less [of v] unat_i32_less [of k] by simp
  note arch_loads [OF this] arch_stores [OF this]
  then show ?thesis by (simp add: listed_order_big [OF assms(1,2)] a)
qed

theorem memory_helpers_portable_witness:
  "arch_load32 ''s390x'' True \<lparr>msize = 8, mbytes = of_nat\<rparr> 3 =
     Some 0x06050403 \<and>
   arch_load32 ''s390x'' True \<lparr>msize = 8, mbytes = of_nat\<rparr> 5 = None"
  using memory_helpers_portable [of "''s390x''" True 3 1 2 "\<lparr>msize = 8, mbytes = of_nat\<rparr>"]
    memory_helpers_portable [of "''s390x''" True 5 1 4 "\<lparr>msize = 8, mbytes = of_nat\<rparr>"]
  by (simp add: endianness_known_def listed_order_def big_def little_def load32_def le32_def)

end
