(* ===== verification/Uuid_Spec.thy ===== *)
theory Uuid_Spec
  imports Wasm_Memory
begin

text \<open>
  The abstract side of the development: a UUID as its sixteen bytes and the fields RFC 9562
  and the SQL Server layout give them, as numbers. The component theories show that the
  translated core computes these.
\<close>

section \<open>Big-endian numbers\<close>

definition be_nat :: "u8 list \<Rightarrow> nat" where
  "be_nat bs = foldl (\<lambda>n b. 256 * n + unat b) 0 bs"

lemma foldl_be_nat: "foldl (\<lambda>n b. 256 * n + unat b) k bs = 256 ^ length bs * k + be_nat bs"
proof (induction bs arbitrary: k)
  case (Cons b bs)
  show ?case
    using Cons [of "256 * k + unat b"] Cons [of "unat b"]
    by (simp add: be_nat_def algebra_simps)
qed (simp add: be_nat_def)

lemma be_nat_Nil [simp]: "be_nat [] = 0"
  by (simp add: be_nat_def)

lemma be_nat_Cons: "be_nat (b # bs) = 256 ^ length bs * unat b + be_nat bs"
  using foldl_be_nat [of "unat b" bs] by (simp add: be_nat_def)

lemma be_nat_append: "be_nat (xs @ ys) = 256 ^ length ys * be_nat xs + be_nat ys"
  by (induction xs) (simp_all add: be_nat_Cons algebra_simps power_add)

lemma be_nat_less: "be_nat bs < 256 ^ length bs"
proof (induction bs)
  case (Cons b bs)
  have "256 ^ length bs * unat b + be_nat bs < 256 ^ length bs * (unat b + 1)"
    using Cons by (simp add: algebra_simps)
  also have "\<dots> \<le> 256 ^ length bs * 256"
    using unat_u8_less [of b] by (intro mult_le_mono2) linarith
  finally show ?case by (simp add: be_nat_Cons mult.commute)
qed simp

lemma be_nat_inject:
  "length xs = length ys \<Longrightarrow> be_nat xs = be_nat ys \<longleftrightarrow> xs = ys"
proof (induction xs ys rule: list_induct2)
  case (Cons x xs y ys)
  have d: "unat z = be_nat (z # zs) div 256 ^ length zs" "be_nat zs = be_nat (z # zs) mod 256 ^ length zs"
    for z zs using be_nat_less [of zs] by (simp_all add: be_nat_Cons)
  have "be_nat (x # xs) = be_nat (y # ys) \<longleftrightarrow> unat x = unat y \<and> be_nat xs = be_nat ys"
    using d [where z = x and zs = xs] d [where z = y and zs = ys] Cons.hyps by (metis be_nat_Cons)
  then show ?case using Cons.IH by (simp add: word_unat_eq_iff [of x y])
qed simp

text \<open>The unsigned value of a word put together from its bytes.\<close>

lemma unat_or_push_bit:
  fixes x y :: "'a::len word"
  assumes "unat x < 2 ^ k" "unat x + 2 ^ k * unat y < 2 ^ LENGTH('a)"
  shows "unat (x OR push_bit k y) = unat x + 2 ^ k * unat y"
proof -
  have "\<not> bit x n" if "k \<le> n" for n
  proof -
    from assms(1) have "take_bit k (unat x) = unat x" by (simp add: take_bit_nat_eq_self)
    then have "bit (unat x) n \<longleftrightarrow> n < k \<and> bit (unat x) n" by (metis bit_take_bit_iff)
    with that have "\<not> bit (unat x) n" by simp
    then show ?thesis by (simp add: bit_unsigned_iff bit_imp_le_length)
  qed
  then have "x AND push_bit k y = 0"
    by (intro bit_word_eqI) (auto simp: bit_simps)
  then have "x OR push_bit k y = x + push_bit k y" by (rule or_eq_add)
  moreover have "unat (push_bit k y) = 2 ^ k * unat y"
    using assms(2) unsigned_push_bit_eq [of k y, where 'a = nat]
    by (simp add: take_bit_nat_eq_self push_bit_eq_mult [of k "unat y"] mult.commute)
  ultimately show ?thesis using assms(2) by (simp add: unat_word_ariths)
qed


lemma unat_ucast_u8 [simp]: "unat (ucast (b::u8) :: i64) = unat b" "unat (ucast (b::u8) :: i32) = unat b"
  using unat_u8_less [of b] by (simp_all add: unsigned_ucast_eq take_bit_nat_eq_self)

lemma unat_or_push_byte:
  assumes "unat (x::i64) = v" "v < 2 ^ k" "k + 8 \<le> 64"
  shows "unat (x OR push_bit k (ucast (b::u8))) = v + 2 ^ k * unat b"
proof -
  have "v + 2 ^ k * unat b < 2 ^ k * (unat b + 1)" using assms(2) by simp
  also have "\<dots> \<le> 2 ^ k * 256" using unat_u8_less [of b] by (intro mult_le_mono2) linarith
  finally have "v + 2 ^ k * unat b < 2 ^ (k + 8)" by (simp add: power_add)
  moreover have "(2::nat) ^ (k + 8) \<le> 2 ^ LENGTH(64)" using assms(3) by (intro power_increasing) auto
  ultimately show ?thesis using assms by (subst unat_or_push_bit) auto
qed

lemma unat_le64:
  "unat (le64 b0 b1 b2 b3 b4 b5 b6 b7) = be_nat [b7, b6, b5, b4, b3, b2, b1, b0]"
proof -
  note lt = unat_u8_less [of b0] unat_u8_less [of b1] unat_u8_less [of b2] unat_u8_less [of b3]
    unat_u8_less [of b4] unat_u8_less [of b5] unat_u8_less [of b6]
  have "unat (le64 b0 b1 b2 b3 b4 b5 b6 b7) =
      unat b0 + 2 ^ 8 * unat b1 + 2 ^ 16 * unat b2 + 2 ^ 24 * unat b3 + 2 ^ 32 * unat b4 +
      2 ^ 40 * unat b5 + 2 ^ 48 * unat b6 + 2 ^ 56 * unat b7"
    unfolding le64_def or.assoc [symmetric]
    by (intro unat_or_push_byte unat_ucast_u8) (use lt in simp_all)
  then show ?thesis by (simp add: be_nat_Cons)
qed

end
