(* ===== verification/Core_Module.thy ===== *)
theory Core_Module
  imports Uuid_Spec
begin

text \<open>
  The state of one translated module (\<open>Module\<close> of \<open>src/go/internal/core/core.go\<close>): its
  linear memory and its stack pointer \<open>g0\<close>; its creation, its version constant, and the one
  import, WASI's \<open>random_get\<close>. The import is an argument of the functions that call it, with
  the state \<open>'s\<close> of whatever serves it threaded through.
\<close>

section \<open>State and creation\<close>

record core_module =
  memory :: mem
  g0 :: i32

type_synonym 's wasi = "i32 \<Rightarrow> i32 \<Rightarrow> mem \<Rightarrow> 's \<Rightarrow> (i32 \<times> mem \<times> 's) option"

definition data0 :: "u8 list" where
  "data0 = [0x01, 0x23, 0x45, 0x67, 0x89, 0xab, 0xcd, 0xef, 0xfe, 0xdc, 0xba, 0x98,
            0x76, 0x54, 0x32, 0x10, 0xf0, 0xe1, 0xd2, 0xc3, 0x02, 0x02, 0x03]"

definition core_New :: "core_module option" where
  "core_New =
     do { mm \<leftarrow> memory_init \<lparr>msize = 0x20000, mbytes = (\<lambda>_. 0)\<rparr> data0 65536 0 (length data0);
          Some \<lparr>memory = mm, g0 = 65536\<rparr> }"

definition Xhyperuuid_version :: "core_module \<Rightarrow> i32" where
  "Xhyperuuid_version m = 65792"

definition module_Grow :: "nat \<Rightarrow> core_module \<Rightarrow> i64 \<Rightarrow> i64 \<Rightarrow> i64 \<times> core_module" where
  "module_Grow maxint m delta mx =
     (let (r, mm) = memory_grow maxint (memory m) delta mx in (r, m\<lparr>memory := mm\<rparr>))"

definition fn0 :: "'s wasi \<Rightarrow> core_module \<Rightarrow> 's \<Rightarrow> i32 \<Rightarrow> i32 \<Rightarrow> (i32 \<times> core_module \<times> 's) option" where
  "fn0 rg m s v0 v1 =
     do { (r, mm, s') \<leftarrow> rg v0 v1 (memory m) s; Some (r, m\<lparr>memory := mm\<rparr>, s') }"

section \<open>Well-formed modules\<close>

text \<open>
  Between calls the stack pointer is back at 65536, so the stack is the first page, the
  core's data and the v7 stream word sit right above it, and callers pass addresses from
  the third page on. \<open>core_ok\<close> is kept by every exported function.
\<close>

definition core_ok :: "core_module \<Rightarrow> bool" where
  "core_ok m \<longleftrightarrow> g0 m = 65536 \<and> 131072 \<le> msize (memory m) \<and> msize (memory m) \<le> 4294967296 \<and>
     bytes_at (memory m) 65536 23 = data0"

definition arg_ok :: "core_module \<Rightarrow> i32 \<Rightarrow> nat \<Rightarrow> bool" where
  "arg_ok m p n \<longleftrightarrow> 131072 \<le> unat p \<and> unat p + n \<le> msize (memory m)"

definition same_above_stack :: "mem \<Rightarrow> mem \<Rightarrow> bool" where
  "same_above_stack m m' \<longleftrightarrow> msize m' = msize m \<and> (\<forall>a\<ge>65536. mbytes m' a = mbytes m a)"

definition stream_word :: "core_module \<Rightarrow> i64" where
  "stream_word m =
     (let b = (\<lambda>i. mbytes (memory m) (65560 + i))
      in le64 (b 0) (b 1) (b 2) (b 3) (b 4) (b 5) (b 6) (b 7))"

lemma length_data0 [simp]: "length data0 = 23"
  by (simp add: data0_def)

lemma same_above_stack_refl [simp]: "same_above_stack m m"
  by (simp add: same_above_stack_def)

lemma same_above_stack_trans:
  "same_above_stack a b \<Longrightarrow> same_above_stack b c \<Longrightarrow> same_above_stack a c"
  by (simp add: same_above_stack_def)

lemma core_ok_frame:
  assumes "core_ok m" "g0 m' = 65536" "msize (memory m') = msize (memory m)"
    "\<And>a. 65536 \<le> a \<Longrightarrow> a < 65559 \<Longrightarrow> mbytes (memory m') a = mbytes (memory m) a"
  shows "core_ok m'"
  using assms bytes_at_cong [of 65536 23 "memory m'" "memory m"] by (simp add: core_ok_def)

lemma core_ok_put_bytes:
  "core_ok m \<Longrightarrow> arg_ok m p n \<Longrightarrow> core_ok (m\<lparr>memory := put_bytes (unat p) bs (memory m)\<rparr>)"
  by (rule core_ok_frame) (auto simp: core_ok_def arg_ok_def mbytes_put_bytes)

lemma stream_word_frame:
  assumes "\<And>a. 65560 \<le> a \<Longrightarrow> a < 65568 \<Longrightarrow> mbytes (memory m') a = mbytes (memory m) a"
  shows "stream_word m' = stream_word m"
  using assms by (simp add: stream_word_def)

text \<open>A fresh module is well-formed and its stream is unused.\<close>

lemma core_New_eq:
  "core_New = Some \<lparr>memory = put_bytes 65536 data0 \<lparr>msize = 131072, mbytes = (\<lambda>_. 0)\<rparr>, g0 = 65536\<rparr>"
  by (simp add: core_New_def memory_init_def)

lemma core_New_ok: "\<exists>m. core_New = Some m \<and> core_ok m \<and> stream_word m = 0"
  by (simp add: core_New_eq core_ok_def stream_word_def mbytes_put_bytes le64_def)

text \<open>The module a witness runs on: fresh, grown by one page, a value at the third page.\<close>

definition sample_module :: "u8 list \<Rightarrow> core_module" where
  "sample_module u = \<lparr>memory = put_bytes 131072 u (put_bytes 65536 data0
     \<lparr>msize = 196608, mbytes = (\<lambda>_. 0)\<rparr>), g0 = 65536\<rparr>"

lemma sample_module_ok:
  assumes "length u = 16"
  shows "core_ok (sample_module u)" "arg_ok (sample_module u) 131072 16"
    "bytes_at (memory (sample_module u)) 131072 16 = u"
  using assms
  by (simp_all add: sample_module_def core_ok_def arg_ok_def bytes_at_put_bytes_other)

section \<open>The random_get contract\<close>

text \<open>
  What the core relies on: called on a range inside the memory, \<open>random_get\<close> returns, and the
  outcome is that of a draw on the bytes of the range: they are replaced by as many others,
  nothing else moves, and the source stays well-formed.
\<close>

locale wasi_random =
  fixes rg :: "'s wasi"
    and draw :: "u8 list \<Rightarrow> 's \<Rightarrow> i32 \<times> u8 list \<times> 's"
    and inv :: "'s \<Rightarrow> bool"
  assumes draw_length: "inv s \<Longrightarrow> draw bs s = (code, out, s') \<Longrightarrow> length out = length bs"
    and draw_inv: "inv s \<Longrightarrow> draw bs s = (code, out, s') \<Longrightarrow> inv s'"
    and random_get: "inv s \<Longrightarrow> unat p + unat n \<le> msize m \<Longrightarrow> unat p + unat n < 2147483648 \<Longrightarrow>
      draw (bytes_at m (unat p) (unat n)) s = (code, out, s') \<Longrightarrow>
      rg p n m s = Some (code, put_bytes (unat p) out m, s')"
begin

lemma fn0_draw:
  assumes "inv s" "unat p + unat n \<le> msize (memory m)" "unat p + unat n < 2147483648"
    "draw (bytes_at (memory m) (unat p) (unat n)) s = (code, out, s')"
  shows "fn0 rg m s p n = Some (code, m\<lparr>memory := put_bytes (unat p) out (memory m)\<rparr>, s')"
    "length out = unat n" "inv s'"
  using assms random_get draw_length draw_inv by (fastforce simp: fn0_def)+

end

end
