(* ===== verification/Core_Inspect.thy ===== *)
theory Core_Inspect
  imports Core_Module
begin

text \<open>
  The core's inspection functions (\<open>Xuuid_version\<close>, \<open>Xuuid_variant\<close>, \<open>Xuuid_is_rfc\<close>,
  \<open>Xuuid_v7_unix_millis\<close>, \<open>Xuuid_v7_unix_millis_in\<close> and \<open>Xuuid_get_timestamp\<close> of
  \<open>src/go/internal/core/core.go\<close>), and what they answer in terms of the UUID's fields.
\<close>

section \<open>The translated functions\<close>

definition Xuuid_version :: "core_module \<Rightarrow> i32 \<Rightarrow> i32 \<Rightarrow> i32 option" where
  "Xuuid_version m v0 v1 =
     (let sel = v1 + (- 1)
      in if sel = 0 then
           do { t0 \<leftarrow> load8_u32 (memory m) (unat v0 + 6); Some (drop_bit 4 t0) }
         else if sel = 1 then
           do { t1 \<leftarrow> load8_s32 (memory m) (unat v0 + 7);
                if - 113 <s t1 then Some 0
                else do { t2 \<leftarrow> load8_s32 (memory m) (unat v0 + 8);
                          Some (if t2 <s - 64 then 7 else 0) } }
         else Some 0)"

definition Xuuid_variant :: "core_module \<Rightarrow> i32 \<Rightarrow> i32 option" where
  "Xuuid_variant m v0 =
     do { t0 \<leftarrow> load8_s32 (memory m) (unat v0 + 8);
          if t0 \<le>s - 1 then
            (let v0' = drop_bit 5 (t0 AND 224) + (- 4)
             in if v0' \<le> 2 then load8_u32 (memory m) (unat v0' + 65556) else Some 4)
          else Some 1 }"

definition Xuuid_is_rfc :: "core_module \<Rightarrow> i32 \<Rightarrow> i32 \<Rightarrow> i32 \<Rightarrow> i32 option" where
  "Xuuid_is_rfc m v0 v1 v2 =
     (let sel = v2 + (- 1)
      in if sel = 1 then
           if v1 > 255 then Some 0
           else if v1 \<noteq> 0 then
             do { t3 \<leftarrow> load8_s32 (memory m) (unat v0 + 7);
                  t4 \<leftarrow> load8_s32 (memory m) (unat v0 + 8);
                  let p5 = (if v1 = 7 then 1 else 0);
                      p6 = (if t3 <s - 112 then 1 else 0);
                      p7 = (if t4 <s - 64 then 1 else 0)
                  in Some (p5 AND (p6 AND p7)) }
           else Some 0
         else if sel = 0 then
           if v1 > 255 then Some 0
           else do { t0 \<leftarrow> load8_s32 (memory m) (unat v0 + 8);
                     if t0 \<le>s - 65 then
                       do { t1 \<leftarrow> load8_u32 (memory m) (unat v0 + 6);
                            Some (if drop_bit 4 t1 = v1 AND 255 then 1 else 0) }
                     else Some 0 }
         else Some 0)"

definition Xuuid_v7_unix_millis :: "core_module \<Rightarrow> i32 \<Rightarrow> i64 option" where
  "Xuuid_v7_unix_millis m v0 =
     do { t0 \<leftarrow> load8_u64 (memory m) (unat v0 + 1);
          t1 \<leftarrow> load8_u64 (memory m) (unat v0);
          t2 \<leftarrow> load8_u64 (memory m) (unat v0 + 2);
          t3 \<leftarrow> load8_u64 (memory m) (unat v0 + 3);
          t4 \<leftarrow> load8_u64 (memory m) (unat v0 + 4);
          t5 \<leftarrow> load8_u64 (memory m) (unat v0 + 5);
          Some (push_bit 32 t0 OR push_bit 40 t1 OR push_bit 24 t2 OR push_bit 16 t3 OR
                push_bit 8 t4 OR t5) }"

definition Xuuid_v7_unix_millis_in :: "core_module \<Rightarrow> i32 \<Rightarrow> i32 \<Rightarrow> i64 option" where
  "Xuuid_v7_unix_millis_in m v0 v1 =
     (let sel = v1 + (- 1);
          l3 = (\<lambda>v0 v1 v3 v4 v5 v6.
            do { t0 \<leftarrow> load8_u64 (memory m) (unat v3);
                 t1 \<leftarrow> load8_u64 (memory m) (unat v1);
                 t2 \<leftarrow> load8_u64 (memory m) (unat v4);
                 t3 \<leftarrow> load8_u64 (memory m) (unat v5);
                 t4 \<leftarrow> load8_u64 (memory m) (unat v6);
                 t5 \<leftarrow> load8_u64 (memory m) (unat v0);
                 Some (push_bit 8 t0 OR t1 OR push_bit 16 t2 OR push_bit 24 t3 OR
                       push_bit 32 t4 OR push_bit 40 t5) })
      in if sel = 1 then l3 (v0 + 10) (v0 + 15) (v0 + 14) (v0 + 13) (v0 + 12) (v0 + 11)
         else if sel = 0 then l3 v0 (v0 + 5) (v0 + 4) (v0 + 3) (v0 + 2) (v0 + 1)
         else Some 0)"

definition Xuuid_get_timestamp ::
    "core_module \<Rightarrow> i32 \<Rightarrow> i32 \<Rightarrow> i32 \<Rightarrow> (core_module \<times> i32) option"
where
  "Xuuid_get_timestamp m v0 v1 v2 =
     (let sel = v1 + (- 1);
          l3 = (\<lambda>v0 v1 v4 v5 v6 v7.
            do { t4 \<leftarrow> load8_u64 (memory m) (unat v5);
                 t5 \<leftarrow> load8_u64 (memory m) (unat v6);
                 t6 \<leftarrow> load8_u64 (memory m) (unat v4);
                 t7 \<leftarrow> load8_u64 (memory m) (unat v1);
                 t8 \<leftarrow> load8_u64 (memory m) (unat v0);
                 let v8 = push_bit 16 t4 OR push_bit 8 t5 OR push_bit 24 t6 OR push_bit 32 t7 OR
                          push_bit 40 t8
                 in if v8 > 253402300799999 then Some (m, 0)
                    else do { t9 \<leftarrow> load8_u64 (memory m) (unat v7);
                              mm \<leftarrow> store64 (memory m) (unat v2) (v8 OR t9);
                              Some (m\<lparr>memory := mm\<rparr>, 7) } })
      in if sel = 0 then
           do { t0 \<leftarrow> load8_s32 (memory m) (unat v0 + 8);
                if - 65 <s t0 then Some (m, 0)
                else do { t1 \<leftarrow> load8_u32 (memory m) (unat v0 + 6);
                          if t1 AND (- 16) AND 255 \<noteq> 112 then Some (m, 0)
                          else l3 v0 (v0 + 1) (v0 + 2) (v0 + 3) (v0 + 4) (v0 + 5) } }
         else if sel = 1 then
           do { t2 \<leftarrow> load8_s32 (memory m) (unat v0 + 7);
                if - 113 <s t2 then Some (m, 0)
                else do { t3 \<leftarrow> load8_s32 (memory m) (unat v0 + 8);
                          if - 65 <s t3 then Some (m, 0)
                          else l3 (v0 + 10) (v0 + 11) (v0 + 12) (v0 + 13) (v0 + 14) (v0 + 15) } }
         else Some (m, 0))"

section \<open>What they answer\<close>

text \<open>The fields of a UUID in the two byte orders.\<close>

definition rfc_version :: "u8 list \<Rightarrow> nat" where
  "rfc_version u = unat (u ! 6) div 16"

definition is_variant_rfc :: "u8 list \<Rightarrow> bool" where
  "is_variant_rfc u \<longleftrightarrow> unat (u ! 8) div 64 = 2"

definition is_rfc_v7 :: "u8 list \<Rightarrow> bool" where
  "is_rfc_v7 u \<longleftrightarrow> rfc_version u = 7 \<and> is_variant_rfc u"

definition is_sql_v7 :: "u8 list \<Rightarrow> bool" where
  "is_sql_v7 u \<longleftrightarrow> unat (u ! 7) div 16 = 8 \<and> is_variant_rfc u"

definition rfc_millis :: "u8 list \<Rightarrow> nat" where
  "rfc_millis u = be_nat (take 6 u)"

definition sql_millis :: "u8 list \<Rightarrow> nat" where
  "sql_millis u = be_nat (drop 10 u)"

definition variant_code :: "u8 list \<Rightarrow> nat" where
  "variant_code u =
     (let b = unat (u ! 8) in if b < 128 then 1 else if b < 192 then 2 else if b < 224 then 3 else 4)"

lemma bytes_at_16:
  "bytes_at m p 16 = [mbytes m p, mbytes m (p + 1), mbytes m (p + 2), mbytes m (p + 3),
     mbytes m (p + 4), mbytes m (p + 5), mbytes m (p + 6), mbytes m (p + 7), mbytes m (p + 8),
     mbytes m (p + 9), mbytes m (p + 10), mbytes m (p + 11), mbytes m (p + 12),
     mbytes m (p + 13), mbytes m (p + 14), mbytes m (p + 15)]"
  by (simp add: bytes_at_def eval_nat_numeral upt_conv_Cons)

lemmas uuid_fields = rfc_version_def is_variant_rfc_def is_rfc_v7_def is_sql_v7_def
  rfc_millis_def sql_millis_def variant_code_def bytes_at_16

lemma layout_cases [simp]:
  "v + (- 1) = (0 :: i32) \<longleftrightarrow> v = 1" "v + (- 1) = (1 :: i32) \<longleftrightarrow> v = 2"
  by (auto simp: algebra_simps)

lemma le64_of_nat: "le64 b0 b1 b2 b3 b4 b5 b6 b7 = of_nat (be_nat [b7, b6, b5, b4, b3, b2, b1, b0])"
  by (simp flip: unat_le64)

lemma millis_word:
  "be_nat [b0, b1, b2, b3, b4, b5] = unat (le64 b5 b4 b3 b2 b1 b0 0 0)"
  by (simp add: unat_le64 be_nat_Cons)

lemma arg_byte:
  assumes "core_ok m" "arg_ok m p n"
  shows "numeral k < n \<Longrightarrow> unat (p + numeral k) = unat p + numeral k"
    and "1 < n \<Longrightarrow> unat (p + 1) = unat p + 1"
proof -
  from assms have "unat p + n \<le> 4294967296" by (simp add: core_ok_def arg_ok_def)
  then show "numeral k < n \<Longrightarrow> unat (p + numeral k) = unat p + numeral k"
    "1 < n \<Longrightarrow> unat (p + 1) = unat p + 1"
    by (simp_all only: unat_plus_numeral_i32 unat_plus_1_i32)
qed

lemma drop_nibble: "drop_bit 4 (ucast (b::u8) :: i32) = of_nat (unat b div 16)"
proof -
  have "unat (drop_bit 4 (ucast b :: i32)) = unat b div 16"
    using unsigned_drop_bit_eq [of 4 "ucast b :: i32", where 'a = nat] unat_u8_less [of b]
    by (simp add: drop_bit_eq_div [of 4 "unat b"] take_bit_nat_eq_self)
  then show ?thesis by (simp flip: \<open>_ = unat b div 16\<close>)
qed

lemma variant_field: "drop_bit 5 (scast (b::u8) AND 224 :: i32) = of_nat (unat b div 32)"
proof -
  have mask: "(224 :: i32) = push_bit 5 (mask 3)" by (simp add: mask_eq_exp_minus_1)
  have "drop_bit 5 (scast b AND 224 :: i32) = ucast (drop_bit 5 b)"
    unfolding mask
  proof (rule bit_word_eqI)
    fix n :: nat
    consider "n < 2" | "n = 2" | "3 \<le> n" by linarith
    then show "bit (drop_bit 5 (scast b AND push_bit 5 (mask 3)) :: i32) n = bit (ucast (drop_bit 5 b) :: i32) n"
      by cases (auto simp: bit_simps bit_u8_high min_def)
  qed
  moreover have "unat (drop_bit 5 b) = unat b div 32"
    using unsigned_drop_bit_eq [of 5 b, where 'a = nat] unat_u8_less [of b]
    by (simp add: drop_bit_eq_div [of 5 "unat b"] take_bit_nat_eq_self)
  ultimately show ?thesis by (metis of_nat_unat)
qed

lemmas variant_field_simp = variant_field [simplified]

lemma version_spec [core_specs]:
  assumes "arg_ok m p 16" and u: "u = bytes_at (memory m) (unat p) 16"
  shows "Xuuid_version m p layout = Some (of_nat
    (if layout = 1 then rfc_version u else if layout = 2 \<and> is_sql_v7 u then 7 else 0))"
  using assms(1) unfolding u
  by (simp add: Xuuid_version_def mem_simps arg_ok_def uuid_fields drop_nibble sign_tests)

lemma variant_spec [core_specs]:
  assumes "core_ok m" "arg_ok m p 16" and u: "u = bytes_at (memory m) (unat p) 16"
  shows "Xuuid_variant m p = Some (of_nat (variant_code u))"
proof -
  define b where "b = mbytes (memory m) (unat p + 8)"
  define n where "n = unat b div 32"
  have n: "n < 8" "128 \<le> unat b \<longleftrightarrow> 4 \<le> n" using unat_u8_less [of b] by (auto simp: n_def)
  have table: "mbytes (memory m) (65556 + i) = data0 ! (20 + i)" if "i < 3" for i
    using assms(1) that nth_bytes_at [of "20 + i" 23 "memory m" 65536]
    by (simp add: core_ok_def)
  have code: "variant_code u = (if n < 4 then 1 else if n < 6 then 2 else if n < 7 then 3 else 4)"
    unfolding u by (auto simp: variant_code_def Let_def bytes_at_16 n_def simp flip: b_def)
  have "Xuuid_variant m p = (if 4 \<le> n then
      if of_nat n + (- 4) \<le> (2 :: i32) then load8_u32 (memory m) (unat (of_nat n + (- 4) :: i32) + 65556)
      else Some 4 else Some 1)"
    using assms(2)
    by (simp add: Xuuid_variant_def mem_simps arg_ok_def sign_tests variant_field_simp n Let_def
        flip: b_def n_def)
  moreover have "n = 0 \<or> n = 1 \<or> n = 2 \<or> n = 3 \<or> n = 4 \<or> n = 5 \<or> n = 6 \<or> n = 7" using n by linarith
  ultimately show ?thesis
    using assms(1) table [of 0] table [of 1] table [of 2]
    by (auto simp: code mem_simps core_ok_def data0_def)
qed

lemma is_rfc_spec [core_specs]:
  assumes "arg_ok m p 16" and u: "u = bytes_at (memory m) (unat p) 16"
  shows "Xuuid_is_rfc m p v layout = Some (if
    (layout = 1 \<and> is_variant_rfc u \<and> unat v = rfc_version u) \<or> (layout = 2 \<and> v = 7 \<and> is_sql_v7 u)
    then 1 else 0)"
proof -
  have v: "v AND 255 = v" if "v \<le> 255"
  proof -
    have "v AND 255 = take_bit 8 v" by (simp add: take_bit_eq_mask mask_eq_exp_minus_1)
    moreover have "unat (take_bit 8 v) = unat v"
      using that by (simp add: unsigned_take_bit_eq take_bit_nat_eq_self word_le_nat_alt)
    ultimately show ?thesis by (simp add: word_unat_eq_iff)
  qed
  have n: "of_nat (unat b div 16) = v \<longleftrightarrow> unat v = unat b div 16" for b :: u8
    using unat_u8_less [of b] unat_of_nat_i32 [of "unat b div 16"]
    by (auto simp: word_unat_eq_iff [of _ v])
  have "unat v \<noteq> unat b div 16" if "\<not> v \<le> 255" for b :: u8
    using unat_u8_less [of b] that by (auto simp: word_le_nat_alt)
  with assms(1) v show ?thesis unfolding u
    by (auto simp add: Xuuid_is_rfc_def mem_simps arg_ok_def uuid_fields drop_nibble sign_tests n not_less)
qed

lemma v7_unix_millis_spec [core_specs]:
  assumes "arg_ok m p 16" and u: "u = bytes_at (memory m) (unat p) 16"
  shows "Xuuid_v7_unix_millis m p = Some (of_nat (rfc_millis u))"
  using assms(1) unfolding u
  by (simp add: Xuuid_v7_unix_millis_def mem_simps arg_ok_def uuid_fields millis_word)
    (simp add: le64_def ac_simps)

lemma v7_unix_millis_in_spec [core_specs]:
  assumes "core_ok m" "arg_ok m p 16" and u: "u = bytes_at (memory m) (unat p) 16"
  shows "Xuuid_v7_unix_millis_in m p layout = Some (of_nat
    (if layout = 1 then rfc_millis u else if layout = 2 then sql_millis u else 0))"
proof -
  from assms(2) have in_mem: "unat p + 16 \<le> msize (memory m)" by (simp add: arg_ok_def)
  have "Xuuid_v7_unix_millis_in m p layout = Some
      (let b = (\<lambda>i. mbytes (memory m) (unat p + i))
       in if layout = 1 then le64 (b 5) (b 4) (b 3) (b 2) (b 1) (b 0) 0 0
          else if layout = 2 then le64 (b 15) (b 14) (b 13) (b 12) (b 11) (b 10) 0 0 else 0)"
    using in_mem
    by (simp add: Xuuid_v7_unix_millis_in_def mem_simps arg_byte [OF assms(1,2)])
      (simp add: le64_def ac_simps)
  then show ?thesis unfolding u by (simp add: uuid_fields millis_word)
qed

text \<open>
  \<open>Xuuid_get_timestamp\<close> compares the timestamp with the cap before it has read the last byte;
  the cap ends in 0xff, so the answer is that of the whole timestamp.
\<close>

lemma cap_test:
  "le64 0 b4 b3 b2 b1 b0 0 0 \<le> 253402300799999 \<longleftrightarrow> be_nat [b0, b1, b2, b3, b4, b5] \<le> 253402300799999"
proof -
  have "256 * x \<le> 253402300799999 \<longleftrightarrow> 256 * x + unat b5 \<le> 253402300799999" for x
    using unat_u8_less [of b5] by presburger
  from this [of "4294967296 * unat b0 + 16777216 * unat b1 + 65536 * unat b2 + 256 * unat b3 + unat b4"]
  show ?thesis by (simp add: word_le_nat_alt unat_le64 be_nat_Cons add.assoc)
qed

definition timestamp_code :: "u8 list \<Rightarrow> i32 \<Rightarrow> nat option" where
  "timestamp_code u layout =
     (if layout = 1 \<and> is_rfc_v7 u \<and> rfc_millis u \<le> 253402300799999 then Some (rfc_millis u)
      else if layout = 2 \<and> is_sql_v7 u \<and> sql_millis u \<le> 253402300799999 then Some (sql_millis u)
      else None)"

lemma assemble_millis:
  "push_bit 16 (ucast b3) OR push_bit 8 (ucast b4) OR push_bit 24 (ucast b2) OR
     push_bit 32 (ucast b1) OR push_bit 40 (ucast b0) = le64 0 b4 b3 b2 b1 b0 0 0"
  "le64 0 b4 b3 b2 b1 b0 0 0 OR ucast b5 = le64 b5 b4 b3 b2 b1 b0 0 0"
  by (simp_all add: le64_def ac_simps)

lemma get_timestamp_spec [core_specs]:
  assumes "core_ok m" "arg_ok m p 16" "arg_ok m q 8" and u: "u = bytes_at (memory m) (unat p) 16"
  shows "Xuuid_get_timestamp m p layout q = Some (case timestamp_code u layout of
      None \<Rightarrow> (m, 0)
    | Some ms \<Rightarrow> (m\<lparr>memory := put_bytes (unat q) (le_bytes8 (of_nat ms)) (memory m)\<rparr>, 7))"
proof -
  define b where "b i = mbytes (memory m) (unat p + i)" for i
  have in_mem: "unat p + 16 \<le> msize (memory m)" "unat q + 8 \<le> msize (memory m)"
    using assms(2,3) by (simp_all add: arg_ok_def)
  have b: "mbytes (memory m) (unat p) = b 0" "mbytes (memory m) (Suc (unat p)) = b (Suc 0)"
    "mbytes (memory m) (Suc (Suc (unat p))) = b 2" "mbytes (memory m) (unat p + numeral k) = b (numeral k)"
    for k by (simp_all add: b_def)
  let ?put = "\<lambda>w. (m\<lparr>memory := put_bytes (unat q) (le_bytes8 w) (memory m)\<rparr>, 7 :: i32)"
  have eq: "Xuuid_get_timestamp m p layout q = Some
      (if layout = 1 \<and> unat (b 8) div 64 = 2 \<and> unat (b 6) div 16 = 7 \<and>
          le64 0 (b 4) (b 3) (b 2) (b (Suc 0)) (b 0) 0 0 \<le> 253402300799999
       then ?put (le64 (b 5) (b 4) (b 3) (b 2) (b (Suc 0)) (b 0) 0 0)
       else if layout = 2 \<and> unat (b 7) div 16 = 8 \<and> unat (b 8) div 64 = 2 \<and>
          le64 0 (b 14) (b 13) (b 12) (b 11) (b 10) 0 0 \<le> 253402300799999
       then ?put (le64 (b 15) (b 14) (b 13) (b 12) (b 11) (b 10) 0 0)
       else (m, 0))"
    using in_mem
    by (simp add: Xuuid_get_timestamp_def Let_def mem_simps arg_byte [OF assms(1,2)] sign_tests
        version_nibble_test [simplified] b assemble_millis store64_put_bytes)
  show ?thesis unfolding eq u
    by (simp add: timestamp_code_def uuid_fields cap_test [of _ _ _ _ "b 0" "b 5"]
        cap_test [of _ _ _ _ "b 10" "b 15"] b)
      (simp add: millis_word)
qed

lemma variant_code_rfc: "is_variant_rfc u \<Longrightarrow> variant_code u = 2"
  using unat_u8_of_div(1) [of "u ! 8"] pos_mod_bound [of 64 "int (unat (u ! 8))"]
  by (auto simp: is_variant_rfc_def variant_code_def Let_def)

text \<open>A version 7 for the witnesses.\<close>

definition sample_v7 :: "u8 list" where
  "sample_v7 = [0x01, 0x99, 0x3a, 0x5b, 0x7c, 0x10, 0x7a, 0xbc, 0x9d, 0xef, 1, 2, 3, 4, 5, 6]"

lemma sample_v7_ok: "length sample_v7 = 16" "is_rfc_v7 sample_v7"
  by (simp_all add: sample_v7_def is_rfc_v7_def rfc_version_def is_variant_rfc_def)

end
