(* ===== verification/Core_SqlOrder.thy ===== *)
theory Core_SqlOrder
  imports Core_Inspect
begin

text \<open>
  The two SQL-order conversions of the core (\<open>Xuuid_v7_to_sql_order\<close> and
  \<open>Xuuid_v7_to_rfc_order\<close> of \<open>src/go/internal/core/core.go\<close>), rewriting sixteen bytes in
  place: what they write, that they are inverse to each other, and that SQL Server's
  comparison of the converted values is the order of the originals.
\<close>

section \<open>The translated functions\<close>

definition Xuuid_v7_to_rfc_order :: "core_module \<Rightarrow> i32 \<Rightarrow> (core_module \<times> i32) option" where
  "Xuuid_v7_to_rfc_order md v0 = (let m = memory md; a = unat v0 in
     do { v2 \<leftarrow> load8_s32 m (a + 7);
          if - 113 <s v2 then Some (md, 5) else
     do { v3 \<leftarrow> load8_s32 m (a + 8);
          if - 65 <s v3 then Some (md, 5) else
     do { v1 \<leftarrow> load32 m (a + 12);
          t3 \<leftarrow> load32 m a;
          let v4 = (ucast t3 :: i64);
          m \<leftarrow> store8 m (a + 12) (ucast v4);
          t5 \<leftarrow> load16 m (a + 10);
          let v5 = (ucast t5 :: i32);
          v6 \<leftarrow> load8_u64 m (a + 5);
          m \<leftarrow> store8 m (a + 11) (ucast v6);
          v7 \<leftarrow> load8_u64 m (a + 4);
          m \<leftarrow> store8 m (a + 10) (ucast v7);
          m \<leftarrow> store32 m (a + 2) v1;
          m \<leftarrow> store16 m a (ucast v5);
          m \<leftarrow> store8 m (a + 14) (ucast (drop_bit 16 v4));
          let v8 = drop_bit 8 v4;
          m \<leftarrow> store8 m (a + 13) (ucast v8);
          let v9 = push_bit 32 v4;
          let v10 = drop_bit 56 v9;
          m \<leftarrow> store8 m (a + 15) (ucast v10);
          v1 \<leftarrow> load8_u32 m (a + 9);
          t13 \<leftarrow> load8_u32 m (a + 6);
          let v2 = push_bit 4 t13 OR (v2 AND 15);
          m \<leftarrow> store8 m (a + 9) (ucast v2);
          m \<leftarrow> store8 m (a + 6) (ucast (drop_bit 2 (v3 AND 60) OR 112));
          let t16 = push_bit 48 (ucast v2 :: i64);
          let v6 = push_bit 16 v7 OR push_bit 24 v6 OR v9;
          let v4 = t16 OR (push_bit 24 (v6 AND 0xff0000) OR push_bit 8 (v6 AND 0xff000000) OR
                     ((push_bit 24 v4 AND 0xff000000) OR (push_bit 8 v4 AND 0xff0000) OR
                      ((v8 AND 0xff00) OR v10))) OR push_bit 60 (ucast v1);
          m \<leftarrow> store8 m (a + 7) (ucast (drop_bit 62 v4 OR
                 ((ucast (drop_bit 2 (v1 OR push_bit 8 v3)) :: i64) AND 252)));
          m \<leftarrow> store8 m (a + 8) (ucast (((ucast (drop_bit 56 v4) :: i32) AND 63) OR 128));
          Some (md\<lparr>memory := m\<rparr>, 0) }}})"

definition Xuuid_v7_to_sql_order :: "core_module \<Rightarrow> i32 \<Rightarrow> (core_module \<times> i32) option" where
  "Xuuid_v7_to_sql_order md v0 = (let m = memory md; a = unat v0 in
     do { v2 \<leftarrow> load8_s32 m (a + 8);
          if - 65 <s v2 then Some (md, 5) else
     do { v3 \<leftarrow> load8_u32 m (a + 6);
          if v3 AND (- 16) AND 255 \<noteq> 112 then Some (md, 5) else
     do { v1 \<leftarrow> load32 m (a + 12);
          v4 \<leftarrow> load8_u64 m (a + 5);
          m \<leftarrow> store8 m (a + 15) (ucast v4);
          v5 \<leftarrow> load8_u64 m (a + 4);
          m \<leftarrow> store8 m (a + 14) (ucast v5);
          v6 \<leftarrow> load8_u64 m (a + 3);
          m \<leftarrow> store8 m (a + 13) (ucast v6);
          v7 \<leftarrow> load8_u64 m (a + 2);
          m \<leftarrow> store8 m (a + 12) (ucast v7);
          v8 \<leftarrow> load8_u64 m a;
          v9 \<leftarrow> load8_u64 m (a + 1);
          m \<leftarrow> store32 m a v1;
          v1 \<leftarrow> load8_u32 m (a + 7);
          v10 \<leftarrow> load8_u32 m (a + 9);
          m \<leftarrow> store8 m (a + 7) (ucast ((v10 AND 15) OR 128));
          let v1 = push_bit 14 v1;
          let v2 = push_bit 8 (v2 AND 63);
          m \<leftarrow> store8 m (a + 9) (ucast (drop_bit 12 (v1 OR v2)));
          m \<leftarrow> store8 m (a + 6) (ucast (drop_bit 4 (v2 OR v10)));
          m \<leftarrow> store8 m (a + 8) (ucast (drop_bit 20 (v1 OR push_bit 22 (v3 AND 15)) OR 128));
          v11 \<leftarrow> load8_u64 m (a + 11);
          let v4 = v4 OR push_bit 8 v5 OR push_bit 16 v6 OR push_bit 24 v7 OR push_bit 32 v9;
          m \<leftarrow> store8 m (a + 11) (ucast (drop_bit 32 v4));
          v5 \<leftarrow> load8_u64 m (a + 10);
          m \<leftarrow> store8 m (a + 10) (ucast (drop_bit 40 (v4 OR push_bit 40 v8)));
          let v4 = push_bit 16 v5 OR push_bit 24 v11;
          let v5 = v4 AND 0xff0000;
          m \<leftarrow> store16 m (a + 4) (ucast (
                 push_bit 8 (ucast (drop_bit 32 (push_bit 24 v5 OR push_bit 8 (v4 AND 0xff000000))) :: i32)
                 OR drop_bit 16 (ucast v5 :: i32)));
          Some (md\<lparr>memory := m\<rparr>, 0) }}})"

section \<open>The two layouts as byte lists\<close>

text \<open>
  The 26 counter bits of a version 7 lie around its version and variant in octets 6 to 9.
  In SQL order they go, most significant first, to octets 8, 9, 6 and 7, the order in which
  SQL Server compares them; the timestamp goes to octets 10 to 15 and the random bytes to
  4, 5 and 0 to 3.
\<close>

definition sql_bytes :: "u8 list \<Rightarrow> u8 list" where
  "sql_bytes u = [u ! 12, u ! 13, u ! 14, u ! 15, u ! 10, u ! 11,
     push_bit 4 (u ! 8) OR drop_bit 4 (u ! 9),
     0x80 OR (u ! 9 AND 0x0f),
     0x80 OR push_bit 2 (u ! 6 AND 0x0f) OR drop_bit 6 (u ! 7),
     push_bit 2 (u ! 7) OR (drop_bit 4 (u ! 8) AND 3),
     u ! 0, u ! 1, u ! 2, u ! 3, u ! 4, u ! 5]"

definition rfc_bytes :: "u8 list \<Rightarrow> u8 list" where
  "rfc_bytes w = [w ! 10, w ! 11, w ! 12, w ! 13, w ! 14, w ! 15,
     0x70 OR (drop_bit 2 (w ! 8) AND 0x0f),
     push_bit 6 (w ! 8) OR drop_bit 2 (w ! 9),
     0x80 OR push_bit 4 (w ! 9 AND 3) OR drop_bit 4 (w ! 6),
     push_bit 4 (w ! 6) OR (w ! 7 AND 0x0f),
     w ! 4, w ! 5, w ! 0, w ! 1, w ! 2, w ! 3]"

lemma length_sql_bytes [simp]: "length (sql_bytes u) = 16" "length (rfc_bytes u) = 16"
  by (simp_all add: sql_bytes_def rfc_bytes_def)

text \<open>A memory that differs from another in sixteen known bytes is that memory with them put in.\<close>

lemma mem_eq_put_bytes_16:
  assumes "length u = 16"
    "f a = u ! 0" "f (Suc a) = u ! 1" "f (Suc (Suc a)) = u ! 2" "f (a + 3) = u ! 3"
    "f (a + 4) = u ! 4" "f (a + 5) = u ! 5" "f (a + 6) = u ! 6" "f (a + 7) = u ! 7"
    "f (a + 8) = u ! 8" "f (a + 9) = u ! 9" "f (a + 10) = u ! 10" "f (a + 11) = u ! 11"
    "f (a + 12) = u ! 12" "f (a + 13) = u ! 13" "f (a + 14) = u ! 14" "f (a + 15) = u ! 15"
    "\<And>x. x < a \<or> a + 16 \<le> x \<Longrightarrow> f x = mbytes m x"
  shows "m\<lparr>mbytes := f\<rparr> = put_bytes a u m"
proof -
  have "f x = u ! (x - a)" if "a \<le> x" "x < a + 16" for x
  proof -
    define i where "i = x - a"
    have "x = a + i" "i < 16" using that by (simp_all add: i_def)
    then show ?thesis using assms(2-17) by (auto simp: eval_nat_numeral less_Suc_eq)
  qed
  then have "f = mbytes (put_bytes a u m)"
    using assms(1,18) by (auto simp: fun_eq_iff mbytes_put_bytes not_le not_less)
  then show ?thesis by (simp add: put_bytes_def)
qed

lemma to_sql_order_spec [core_specs]:
  assumes "arg_ok md p 16" and u: "u = bytes_at (memory md) (unat p) 16"
  shows "Xuuid_v7_to_sql_order md p = Some (if is_rfc_v7 u
    then (md\<lparr>memory := put_bytes (unat p) (sql_bytes u) (memory md)\<rparr>, 0) else (md, 5))"
proof -
  define b where "b i = mbytes (memory md) (unat p + i)" for i
  have in_mem: "unat p + 16 \<le> msize (memory md)" using assms(1) by (simp add: arg_ok_def)
  have b: "mbytes (memory md) (unat p) = b 0" "mbytes (memory md) (Suc (unat p)) = b (Suc 0)"
    "mbytes (memory md) (Suc (Suc (unat p))) = b 2" "mbytes (memory md) (unat p + numeral k) = b (numeral k)"
    for k by (simp_all add: b_def)
  have comm: "numeral k + unat p = unat p + numeral k" for k by simp
  show ?thesis
    using in_mem unfolding u
    apply (simp add: Xuuid_v7_to_sql_order_def Let_def mem_simps store_upds sign_tests
        version_nibble_test [simplified] uuid_fields b comm)
    apply (intro impI arg_cong [where f = "\<lambda>m. md\<lparr>memory := m\<rparr>"] mem_eq_put_bytes_16 length_sql_bytes)
    prefer 17
    subgoal by auto
    apply (simp_all add: sql_bytes_def)
    by (rule eq_bits_u8; simp add: bit_eval)+
qed

lemma to_rfc_order_spec [core_specs]:
  assumes "arg_ok md p 16" and u: "u = bytes_at (memory md) (unat p) 16"
  shows "Xuuid_v7_to_rfc_order md p = Some (if is_sql_v7 u
    then (md\<lparr>memory := put_bytes (unat p) (rfc_bytes u) (memory md)\<rparr>, 0) else (md, 5))"
proof -
  define b where "b i = mbytes (memory md) (unat p + i)" for i
  have in_mem: "unat p + 16 \<le> msize (memory md)" using assms(1) by (simp add: arg_ok_def)
  have b: "mbytes (memory md) (unat p) = b 0" "mbytes (memory md) (Suc (unat p)) = b (Suc 0)"
    "mbytes (memory md) (Suc (Suc (unat p))) = b 2" "mbytes (memory md) (unat p + numeral k) = b (numeral k)"
    for k by (simp_all add: b_def)
  have comm: "numeral k + unat p = unat p + numeral k" for k by simp
  show ?thesis
    using in_mem unfolding u
    apply (simp add: Xuuid_v7_to_rfc_order_def Let_def mem_simps store_upds sign_tests
        uuid_fields b comm)
    apply (intro impI arg_cong [where f = "\<lambda>m. md\<lparr>memory := m\<rparr>"] mem_eq_put_bytes_16 length_sql_bytes)
    prefer 17
    subgoal by auto
    apply (simp_all add: rfc_bytes_def)
    by (rule eq_bits_u8; simp add: bit_eval bit_le16 bit_le32)+
qed

section \<open>The layouts are inverse and keep the fields\<close>

lemma is_sql_sql_bytes: "is_sql_v7 (sql_bytes u)"
  by (simp add: is_sql_v7_def is_variant_rfc_def sql_bytes_def high_nibble_8 variant_bits bit_eval)

lemma is_rfc_rfc_bytes: "is_rfc_v7 (rfc_bytes w)"
  by (simp add: is_rfc_v7_def rfc_version_def is_variant_rfc_def rfc_bytes_def high_nibble_7
      variant_bits bit_eval)

lemma rfc_sql_bytes:
  assumes "length u = 16" "is_rfc_v7 u"
  shows "rfc_bytes (sql_bytes u) = u"
  using assms
  by (elim length_16_cases)
    (simp add: sql_bytes_def rfc_bytes_def is_rfc_v7_def rfc_version_def is_variant_rfc_def
      high_nibble_7 variant_bits u8_eq_iff bit_eval)

lemma sql_rfc_bytes:
  assumes "length w = 16" "is_sql_v7 w"
  shows "sql_bytes (rfc_bytes w) = w"
  using assms
  by (elim length_16_cases)
    (simp add: sql_bytes_def rfc_bytes_def is_sql_v7_def is_variant_rfc_def
      high_nibble_8 variant_bits u8_eq_iff bit_eval)

definition rfc_counter :: "u8 list \<Rightarrow> nat" where
  "rfc_counter u = (unat (u ! 6) mod 16) * 2 ^ 22 + unat (u ! 7) * 2 ^ 14 +
     (unat (u ! 8) mod 64) * 2 ^ 8 + unat (u ! 9)"

definition sql_counter :: "u8 list \<Rightarrow> nat" where
  "sql_counter w = (unat (w ! 8) mod 64) * 2 ^ 20 + unat (w ! 9) * 2 ^ 12 + unat (w ! 6) * 2 ^ 4 +
     unat (w ! 7) mod 16"

definition sql_random :: "u8 list \<Rightarrow> u8 list" where
  "sql_random w = [w ! 4, w ! 5, w ! 0, w ! 1, w ! 2, w ! 3]"

lemma unat_u8_parts:
  "unat (take_bit k (b::u8)) = unat b mod 2 ^ k" "unat (drop_bit k b) = unat b div 2 ^ k"
  using unsigned_take_bit_eq [of k b, where 'a = nat]
  by (simp_all add: take_bit_eq_mod [of k "unat b"] unat_div_u8)

lemma unat_u8_join:
  assumes "unat y < 2 ^ k" "k + j \<le> 8"
  shows "unat (y OR push_bit k (take_bit j (x::u8))) = unat y + 2 ^ k * (unat x mod 2 ^ j)"
proof -
  have "2 ^ k * (unat x mod 2 ^ j + 1) \<le> 2 ^ k * (2::nat) ^ j"
    by (intro mult_le_mono2) (simp add: Suc_le_eq)
  also have "\<dots> = 2 ^ (k + j)" by (simp add: power_add)
  also have "\<dots> \<le> 2 ^ 8" using assms(2) by (intro power_increasing) auto
  finally show ?thesis
    using assms(1) by (subst unat_or_push_bit) (simp_all add: unat_u8_parts)
qed

lemma counter_arith:
  fixes b6 b7 b8 b9 :: nat
  shows "(b7 div 64 + 4 * (b6 mod 16)) * 2 ^ 20 + (b8 mod 64 div 16 + 4 * (b7 mod 64)) * 2 ^ 12 +
     (b9 div 16 + 16 * (b8 mod 16)) * 2 ^ 4 + b9 mod 16 =
   (b6 mod 16) * 2 ^ 22 + b7 * 2 ^ 14 + (b8 mod 64) * 2 ^ 8 + b9"
proof -
  define p q where "p = b7 div 64" and "q = b7 mod 64"
  define r t where "r = b8 mod 64 div 16" and "t = b8 mod 16"
  define v w where "v = b9 div 16" and "w = b9 mod 16"
  have "b8 mod 64 = 16 * (b8 mod 64 div 16) + b8 mod 64 mod 16" by (simp only: mult_div_mod_eq)
  then have "b8 mod 64 = 16 * r + t" by (simp add: r_def t_def mod_mod_cancel)
  moreover have "b7 = 64 * p + q" "b9 = 16 * v + w" by (simp_all add: p_def q_def v_def w_def)
  ultimately show ?thesis
    unfolding p_def [symmetric] q_def [symmetric] r_def [symmetric] t_def [symmetric]
      v_def [symmetric] w_def [symmetric]
    by simp
qed

lemma sql_counter_bytes: "sql_counter (sql_bytes u) = rfc_counter u"
proof -
  let ?w = "sql_bytes u"
  have parts: "take_bit 6 (?w ! 8) = drop_bit 6 (u ! 7) OR push_bit 2 (take_bit 4 (u ! 6))"
    "?w ! 9 = drop_bit 4 (take_bit 6 (u ! 8)) OR push_bit 2 (take_bit 6 (u ! 7))"
    "?w ! 6 = drop_bit 4 (u ! 9) OR push_bit 4 (take_bit 4 (u ! 8))"
    "take_bit 4 (?w ! 7) = take_bit 4 (u ! 9)"
    by (rule eq_bits_u8; simp add: sql_bytes_def bit_eval)+
  have "unat (?w ! 8) mod 64 = unat (u ! 7) div 64 + 4 * (unat (u ! 6) mod 16)"
    using unat_u8_join [of "drop_bit 6 (u ! 7)" 2 4 "u ! 6"] unat_u8_less [of "u ! 7"]
      arg_cong [OF parts(1), of unat]
    by (simp add: unat_u8_parts)
  moreover have "unat (?w ! 9) = unat (u ! 8) mod 64 div 16 + 4 * (unat (u ! 7) mod 64)"
    using unat_u8_join [of "drop_bit 4 (take_bit 6 (u ! 8))" 2 6 "u ! 7"] arg_cong [OF parts(2), of unat]
    by (simp add: unat_u8_parts)
  moreover have "unat (?w ! 6) = unat (u ! 9) div 16 + 16 * (unat (u ! 8) mod 16)"
    using unat_u8_join [of "drop_bit 4 (u ! 9)" 4 4 "u ! 8"] unat_u8_less [of "u ! 9"]
      arg_cong [OF parts(3), of unat]
    by (simp add: unat_u8_parts)
  moreover have "unat (?w ! 7) mod 16 = unat (u ! 9) mod 16"
    using arg_cong [OF parts(4), of unat] by (simp add: unat_u8_parts)
  ultimately show ?thesis
    unfolding sql_counter_def rfc_counter_def by (simp only: counter_arith)
qed

section \<open>SQL Server's order\<close>

text \<open>
  \<open>sql_rank\<close> lists the octets of a stored value in the order in which SQL Server compares a
  \<open>uniqueidentifier\<close>: 10 to 15, then 8 and 9, 6 and 7, 4 and 5, 0 to 3.
\<close>

definition sql_rank :: "u8 list \<Rightarrow> u8 list" where
  "sql_rank w = [w ! 10, w ! 11, w ! 12, w ! 13, w ! 14, w ! 15, w ! 8, w ! 9, w ! 6, w ! 7,
     w ! 4, w ! 5, w ! 0, w ! 1, w ! 2, w ! 3]"

lemma spread_mono:
  fixes c d k K :: nat
  assumes "k \<le> K" "0 < k"
  shows "(c div k) * K + c mod k < (d div k) * K + d mod k \<longleftrightarrow> c < d"
proof -
  define x y where "x = c div k" and "y = c mod k"
  define z w where "z = d div k" and "w = d mod k"
  have eq: "c = k * x + y" "d = k * z + w" by (simp_all add: x_def y_def z_def w_def)
  have lt: "y < k" "w < k" using assms by (simp_all add: y_def w_def)
  have less: "k * a + b < k * a' + b' \<and> a * K + b < a' * K + b'" if "a < a'" "b < k" for a a' b b' :: nat
  proof -
    from that(1) obtain i where "a' = a + 1 + i" by (metis add.commute add_Suc less_imp_Suc_add plus_1_eq_Suc)
    with that assms show ?thesis by (simp add: algebra_simps)
  qed
  have "x * K + y < z * K + w \<longleftrightarrow> k * x + y < k * z + w"
    using less [of x z y w] less [of z x w y] lt by (cases x z rule: linorder_cases) auto
  then show ?thesis unfolding x_def [symmetric] y_def [symmetric] z_def [symmetric] w_def [symmetric]
    by (simp flip: eq)
qed

lemma lex_less:
  fixes a b x y M :: nat
  assumes "x < M" "y < M"
  shows "M * a + x < M * b + y \<longleftrightarrow> a < b \<or> a = b \<and> x < y"
proof -
  have "M * c + z < M * d" if "c < d" "z < M" for c d z
    using that mult_le_mono2 [of "c + 1" d M] by simp
  then show ?thesis using assms by (metis add.commute add_less_cancel_right linorder_neqE_nat
    not_add_less1 order_less_trans trans_less_add1)
qed

lemma be_nat_less_append:
  assumes "length a = length b" "length x = length y"
  shows "be_nat (a @ x) < be_nat (b @ y) \<longleftrightarrow> be_nat a < be_nat b \<or> a = b \<and> be_nat x < be_nat y"
  using be_nat_less [of x] be_nat_less [of y] assms
  by (simp add: be_nat_append lex_less be_nat_inject)

text \<open>
  Octets 6 to 9 of a version 7 in RFC order, and octets 8, 9, 6, 7 of its SQL order, both
  compare as the counter.
\<close>

lemma spread_eq: "y < k \<Longrightarrow> n = k * x + y \<Longrightarrow> (n div k) * K + n mod k = x * K + y" for k n x y K :: nat
  by simp

lemma rfc_counter_octets:
  assumes "is_rfc_v7 u"
  shows "be_nat [u ! 6, u ! 7, u ! 8, u ! 9] =
     0x70008000 + ((rfc_counter u div 2 ^ 14) * 2 ^ 16 + rfc_counter u mod 2 ^ 14)"
proof -
  define a b c d where "a = unat (u ! 6) mod 16" and "b = unat (u ! 7)" and "c = unat (u ! 8) mod 64"
    and "d = unat (u ! 9)"
  have "unat (u ! 6) = 112 + a" "unat (u ! 8) = 128 + c"
    using assms div_mult_mod_eq [of "unat (u ! 6)" 16] div_mult_mod_eq [of "unat (u ! 8)" 64]
    by (simp_all add: a_def c_def is_rfc_v7_def rfc_version_def is_variant_rfc_def)
  moreover have "c < 64" "d < 256" using unat_u8_less [of "u ! 9"] by (simp_all add: c_def d_def)
  moreover have "rfc_counter u = 2 ^ 14 * (a * 2 ^ 8 + b) + (c * 2 ^ 8 + d)"
    by (simp add: rfc_counter_def a_def b_def c_def d_def)
  then have "(rfc_counter u div 2 ^ 14) * 2 ^ 16 + rfc_counter u mod 2 ^ 14 =
      (a * 2 ^ 8 + b) * 2 ^ 16 + (c * 2 ^ 8 + d)"
    using \<open>c < 64\<close> \<open>d < 256\<close> by (intro spread_eq) simp_all
  ultimately show ?thesis by (simp add: be_nat_Cons flip: b_def d_def)
qed

lemma sql_counter_octets:
  assumes "is_sql_v7 w"
  shows "be_nat [w ! 8, w ! 9, w ! 6, w ! 7] =
     0x80000080 + ((sql_counter w div 2 ^ 4) * 2 ^ 8 + sql_counter w mod 2 ^ 4)"
proof -
  define a b c d where "a = unat (w ! 8) mod 64" and "b = unat (w ! 9)" and "c = unat (w ! 6)"
    and "d = unat (w ! 7) mod 16"
  have "unat (w ! 8) = 128 + a" "unat (w ! 7) = 128 + d"
    using assms unat_u8_of_div [of "w ! 8"] unat_u8_of_div [of "w ! 7"]
    by (simp_all add: a_def d_def is_sql_v7_def is_variant_rfc_def)
  moreover have "d < 16" by (simp add: d_def)
  moreover have "sql_counter w = 2 ^ 4 * (a * 2 ^ 16 + b * 2 ^ 8 + c) + d"
    by (simp add: sql_counter_def a_def b_def c_def d_def)
  then have "(sql_counter w div 2 ^ 4) * 2 ^ 8 + sql_counter w mod 2 ^ 4 =
      (a * 2 ^ 16 + b * 2 ^ 8 + c) * 2 ^ 8 + d"
    using \<open>d < 16\<close> by (intro spread_eq) simp_all
  ultimately show ?thesis by (simp add: be_nat_Cons flip: b_def c_def)
qed

lemma rank_sql_bytes:
  assumes "length u = 16" "is_rfc_v7 u" "length v = 16" "is_rfc_v7 v"
  shows "be_nat (sql_rank (sql_bytes u)) < be_nat (sql_rank (sql_bytes v)) \<longleftrightarrow> be_nat u < be_nat v"
proof -
  let ?ts = "\<lambda>u. [u ! 0, u ! 1, u ! 2, u ! 3, u ! 4, u ! 5 :: u8]"
  let ?rnd = "\<lambda>u. [u ! 10, u ! 11, u ! 12, u ! 13, u ! 14, u ! 15 :: u8]"
  let ?rc = "\<lambda>u. [u ! 6, u ! 7, u ! 8, u ! 9 :: u8]"
  let ?sc = "\<lambda>u. let w = sql_bytes u in [w ! 8, w ! 9, w ! 6, w ! 7 :: u8]"
  have split: "u = ?ts u @ ?rc u @ ?rnd u" if "length u = 16" for u :: "u8 list"
    using that by (elim length_16_cases) simp
  have rank: "sql_rank (sql_bytes u) = ?ts u @ ?sc u @ ?rnd u" for u
    by (simp add: sql_rank_def sql_bytes_def)
  have sc: "be_nat (?sc u) < be_nat (?sc v) \<longleftrightarrow> be_nat (?rc u) < be_nat (?rc v)"
    if "is_rfc_v7 u" "is_rfc_v7 v" for u v
    using that by (simp add: Let_def sql_counter_octets [OF is_sql_sql_bytes] rfc_counter_octets
        sql_counter_bytes spread_mono)
  have sc_eq: "?sc u = ?sc v \<longleftrightarrow> ?rc u = ?rc v"
    using sc [OF assms(2,4)] sc [OF assms(4,2)] be_nat_inject [of "?sc u" "?sc v"]
      be_nat_inject [of "?rc u" "?rc v"] by (metis (no_types, lifting) linorder_neq_iff length_Cons list.size(3))
  have "be_nat (?ts u @ ?sc u @ ?rnd u) < be_nat (?ts v @ ?sc v @ ?rnd v) \<longleftrightarrow>
      be_nat (?ts u @ ?rc u @ ?rnd u) < be_nat (?ts v @ ?rc v @ ?rnd v)"
    using sc [OF assms(2,4)] sc_eq by (simp only: be_nat_less_append length_append length_Cons list.size Let_def)
  then show ?thesis by (simp only: rank split [OF assms(1), symmetric] split [OF assms(3), symmetric])
qed

section \<open>Properties\<close>

text \<open>
  C17. Converting a version 7 to SQL order in place and converting the result back restores the
  whole memory, with return code 0 both times; and the value in between is a version 8 in the
  layout.
\<close>

theorem sql_order_round_trip:
  assumes "arg_ok md p 16" "is_rfc_v7 (bytes_at (memory md) (unat p) 16)"
  shows "\<exists>md'. Xuuid_v7_to_sql_order md p = Some (md', 0) \<and>
    is_sql_v7 (bytes_at (memory md') (unat p) 16) \<and> Xuuid_v7_to_rfc_order md' p = Some (md, 0)"
proof -
  let ?u = "bytes_at (memory md) (unat p) 16"
  let ?md = "md\<lparr>memory := put_bytes (unat p) (sql_bytes ?u) (memory md)\<rparr>"
  have "arg_ok ?md p 16" using assms(1) by (simp add: arg_ok_def)
  with assms show ?thesis
    by (intro exI [of _ ?md])
      (simp add: to_sql_order_spec to_rfc_order_spec is_sql_sql_bytes rfc_sql_bytes)
qed

lemma sql_order_round_trip_witness:
  "\<exists>md'. Xuuid_v7_to_sql_order (sample_module sample_v7) 131072 = Some (md', 0) \<and>
    is_sql_v7 (bytes_at (memory md') (unat (131072 :: i32)) 16) \<and>
    Xuuid_v7_to_rfc_order md' 131072 = Some (sample_module sample_v7, 0)"
  using sample_module_ok [OF sample_v7_ok(1)] sample_v7_ok(2)
  by (intro sql_order_round_trip) simp_all

text \<open>
  C18. Nothing but a version 7 is converted to SQL order, and nothing but a value in the layout
  is converted back: code 5, and the module, all of its memory included, is unchanged. In the
  other direction too the conversions are inverse.
\<close>

theorem sql_order_refuses:
  assumes "arg_ok md p 16"
  shows "(\<not> is_rfc_v7 (bytes_at (memory md) (unat p) 16) \<longrightarrow> Xuuid_v7_to_sql_order md p = Some (md, 5)) \<and>
   (if is_sql_v7 (bytes_at (memory md) (unat p) 16)
     then (\<exists>md'. Xuuid_v7_to_rfc_order md p = Some (md', 0) \<and>
       is_rfc_v7 (bytes_at (memory md') (unat p) 16) \<and> Xuuid_v7_to_sql_order md' p = Some (md, 0))
     else Xuuid_v7_to_rfc_order md p = Some (md, 5))"
proof -
  let ?w = "bytes_at (memory md) (unat p) 16"
  let ?md = "md\<lparr>memory := put_bytes (unat p) (rfc_bytes ?w) (memory md)\<rparr>"
  have "arg_ok ?md p 16" using assms(1) by (simp add: arg_ok_def)
  then have "\<exists>md'. Xuuid_v7_to_rfc_order md p = Some (md', 0) \<and>
       is_rfc_v7 (bytes_at (memory md') (unat p) 16) \<and> Xuuid_v7_to_sql_order md' p = Some (md, 0)"
    if "is_sql_v7 ?w" using assms that
    by (intro exI [of _ ?md])
      (simp add: to_sql_order_spec to_rfc_order_spec is_rfc_rfc_bytes sql_rfc_bytes)
  with assms show ?thesis by (simp add: to_sql_order_spec to_rfc_order_spec)
qed

lemma sql_order_refuses_witness:
  "Xuuid_v7_to_rfc_order (sample_module sample_v7) 131072 = Some (sample_module sample_v7, 5)"
proof -
  have "\<not> is_sql_v7 sample_v7" by (simp add: is_sql_v7_def sample_v7_def)
  then show ?thesis
    using sql_order_refuses [of "sample_module sample_v7" 131072] sample_module_ok [OF sample_v7_ok(1)]
    by simp
qed

text \<open>
  C16. SQL Server orders two converted values as the two originals are ordered as 128-bit
  numbers, so by timestamp, then counter, then random bits.
\<close>

theorem sql_order_sorts:
  assumes "arg_ok md p 16" "Xuuid_v7_to_sql_order md p = Some (md', 0)"
    and "arg_ok mc q 16" "Xuuid_v7_to_sql_order mc q = Some (mc', 0)"
  shows "be_nat (sql_rank (bytes_at (memory md') (unat p) 16)) <
      be_nat (sql_rank (bytes_at (memory mc') (unat q) 16)) \<longleftrightarrow>
    be_nat (bytes_at (memory md) (unat p) 16) < be_nat (bytes_at (memory mc) (unat q) 16)"
proof -
  have conv: "is_rfc_v7 (bytes_at (memory m) (unat a) 16)"
    "bytes_at (memory m') (unat a) 16 = sql_bytes (bytes_at (memory m) (unat a) 16)"
    if "arg_ok m a 16" "Xuuid_v7_to_sql_order m a = Some (m', 0)" for m m' a
    using that by (auto simp: to_sql_order_spec split: if_splits)
  show ?thesis
    using conv [OF assms(1,2)] conv [OF assms(3,4)] by (simp add: rank_sql_bytes)
qed

lemma sql_order_sorts_witness:
  "be_nat (sql_rank (sql_bytes sample_v7)) < be_nat (sql_rank (sql_bytes (sample_v7[9 := 0xf0])))"
proof -
  let ?v = "sample_v7[9 := 0xf0]"
  have v: "length ?v = 16" "is_rfc_v7 ?v"
    by (simp_all add: sample_v7_def is_rfc_v7_def rfc_version_def is_variant_rfc_def)
  have conv: "Xuuid_v7_to_sql_order (sample_module u) 131072 =
      Some ((sample_module u)\<lparr>memory := put_bytes 131072 (sql_bytes u) (memory (sample_module u))\<rparr>, 0)"
    if "length u = 16" "is_rfc_v7 u" for u
    using that sample_module_ok [of u] by (simp add: to_sql_order_spec)
  show ?thesis
    using sql_order_sorts [OF sample_module_ok(2) [OF sample_v7_ok(1)] conv [OF sample_v7_ok]
        sample_module_ok(2) [OF v(1)] conv [OF v]] sample_module_ok(3) [OF sample_v7_ok(1)]
      sample_module_ok(3) [OF v(1)] v(1) sample_v7_ok(1)
    by simp (simp add: sample_v7_def be_nat_Cons)
qed

text \<open>
  C19. A value in SQL order is inspected where it is: after the conversion the layout's version
  reads 7, the RFC guard accepts it for 7, and the timestamp is the original's.
\<close>

theorem sql_order_inspection:
  assumes "core_ok md" "arg_ok md p 16" "Xuuid_v7_to_sql_order md p = Some (md', 0)"
  shows "Xuuid_version md' p 2 = Some 7 \<and> Xuuid_is_rfc md' p 7 2 = Some 1 \<and>
    Xuuid_variant md' p = Some 2 \<and>
    Xuuid_v7_unix_millis_in md' p 2 = Xuuid_v7_unix_millis md p"
proof -
  let ?u = "bytes_at (memory md) (unat p) 16"
  have u: "is_rfc_v7 ?u" and md': "md' = md\<lparr>memory := put_bytes (unat p) (sql_bytes ?u) (memory md)\<rparr>"
    using assms(2,3) by (auto simp: to_sql_order_spec split: if_splits)
  have ok: "core_ok md'" "arg_ok md' p 16" "bytes_at (memory md') (unat p) 16 = sql_bytes ?u"
    using assms(1,2) md' core_ok_put_bytes by (simp_all add: arg_ok_def)
  have var: "variant_code (sql_bytes ?u) = 2"
    using is_sql_sql_bytes [of ?u] by (intro variant_code_rfc) (simp add: is_sql_v7_def)
  have ms: "sql_millis (sql_bytes ?u) = rfc_millis ?u"
    by (simp add: sql_millis_def rfc_millis_def sql_bytes_def bytes_at_16 take_Cons')
  show ?thesis
    using ok is_sql_sql_bytes [of ?u] assms(2)
    by (simp add: version_spec variant_spec is_rfc_spec v7_unix_millis_in_spec v7_unix_millis_spec var ms)
qed

lemma sql_order_inspection_witness:
  "\<exists>md'. Xuuid_v7_to_sql_order (sample_module sample_v7) 131072 = Some (md', 0) \<and>
     Xuuid_version md' 131072 2 = Some 7"
proof -
  obtain md' where "Xuuid_v7_to_sql_order (sample_module sample_v7) 131072 = Some (md', 0)"
    using to_sql_order_spec [OF sample_module_ok(2) [OF sample_v7_ok(1)] refl]
      sample_module_ok(3) [OF sample_v7_ok(1)] sample_v7_ok(2) by simp
  then show ?thesis
    using sql_order_inspection [OF sample_module_ok(1,2) [OF sample_v7_ok(1)]] by blast
qed

end
