(* ===== verification/V7_Stream.thy ===== *)
theory V7_Stream
  imports Core_SqlOrder
begin

text \<open>
  The abstract version 7 stream behind \<open>uuid_new_v7\<close> and \<open>uuid_new_v7_batch\<close>. The stream is one
  number \<open>S\<close>, 0 while unused: the newest reserved step, \<open>(ms + 1) * 2 ^ 20 + step\<close>. A call for
  \<open>k\<close> steps at timestamp \<open>v0\<close> either reserves the steps \<open>b, \<dots>, b + k - 1\<close>, or mints outside the
  stream, or is refused. The core's functions are proved to follow this plan; here is what the
  plan guarantees.
\<close>

section \<open>The plan of a call\<close>

datatype v7_plan = Refused | OutOfStream | Reserved nat

definition v7_plan :: "nat \<Rightarrow> nat \<Rightarrow> nat \<Rightarrow> nat \<Rightarrow> v7_plan" where
  "v7_plan k S v0 seed =
     (if 17592186044414 < v0 then OutOfStream
      else let hi = S div 2 ^ 20 in
        if hi = 0 \<or> hi - 1 < v0 then Reserved ((v0 + 1) * 2 ^ 20 + seed)
        else if 11000 < hi - 1 - v0 then OutOfStream
        else if k + S mod 2 ^ 20 < 2 ^ 20 then Reserved (S + 1)
        else if hi = 17592186044415 \<or> 1000 < hi - v0 then Refused
        else Reserved (S + 1))"

definition word_millis :: "nat \<Rightarrow> nat" where
  "word_millis w = w div 2 ^ 20 - 1"

text \<open>What a call leaves in the stream.\<close>

definition v7_after :: "nat \<Rightarrow> nat \<Rightarrow> nat \<Rightarrow> nat \<Rightarrow> nat" where
  "v7_after k S v0 seed = (case v7_plan k S v0 seed of Reserved b \<Rightarrow> b + k - 1 | _ \<Rightarrow> S)"

section \<open>Ordering\<close>

text \<open>
  \<open>stream_inv S N\<close>: \<open>N\<close> is the newest timestamp at which the stream has been reserved, and the
  stream runs at most 1000 ms ahead of it.
\<close>

definition stream_inv :: "nat \<Rightarrow> nat \<Rightarrow> bool" where
  "stream_inv S N \<longleftrightarrow> (S = 0 \<and> N = 0) \<or>
     (2 ^ 20 \<le> S \<and> S < 2 ^ 64 \<and> word_millis S \<le> N + 1000 \<and> N \<le> word_millis S)"

lemma stream_inv_unused: "stream_inv 0 0"
  by (simp add: stream_inv_def)

lemma hi_bounds:
  fixes S hi low :: nat
  assumes "S = hi * 2 ^ 20 + low" "low < 2 ^ 20"
  shows "S div 2 ^ 20 = hi" "S mod 2 ^ 20 = low"
  using assms by auto

lemma reserved_cases:
  assumes "v7_plan k S v0 seed = Reserved b"
  obtains (fresh) "b = (v0 + 1) * 2 ^ 20 + seed" "S div 2 ^ 20 = 0 \<or> S div 2 ^ 20 - 1 < v0"
      "v0 \<le> 17592186044414"
  | (step) "b = S + 1" "S div 2 ^ 20 \<noteq> 0" "v0 \<le> word_millis S" "word_millis S - v0 \<le> 11000"
      "k + S mod 2 ^ 20 < 2 ^ 20" "v0 \<le> 17592186044414"
  | (split) "b = S + 1" "S div 2 ^ 20 \<noteq> 0" "v0 \<le> word_millis S" "word_millis S + 1 - v0 \<le> 1000"
      "2 ^ 20 \<le> k + S mod 2 ^ 20" "S div 2 ^ 20 \<noteq> 17592186044415" "v0 \<le> 17592186044414"
  using assms unfolding v7_plan_def word_millis_def
  by (auto simp: Let_def not_less not_le split: if_splits)

text \<open>A reservation lies strictly after everything reserved before it.\<close>

lemma reserved_after:
  assumes "v7_plan k S v0 seed = Reserved b" "0 < k"
  shows "S < b" "v7_after k S v0 seed = b + k - 1" "S < v7_after k S v0 seed"
proof -
  have less: "S < (S div 2 ^ 20 + 1) * 2 ^ 20"
    using mod_less_divisor [of "2 ^ 20" S] mult_div_mod_eq [of "2 ^ 20" S] by (simp add: algebra_simps)
  from assms(1) show b: "S < b"
  proof (cases rule: reserved_cases)
    case fresh
    then have "S div 2 ^ 20 + 1 \<le> v0 + 1" by linarith
    then have "(S div 2 ^ 20 + 1) * 2 ^ 20 \<le> (v0 + 1) * 2 ^ 20" by (rule mult_le_mono1)
    with less fresh show ?thesis by linarith
  qed simp_all
  show after: "v7_after k S v0 seed = b + k - 1" using assms by (simp add: v7_after_def)
  show "S < v7_after k S v0 seed" using after b assms(2) by linarith
qed

text \<open>\<open>valid_call k seed\<close>: a fresh reservation of \<open>k\<close> steps from \<open>seed\<close> stays in its millisecond.\<close>

definition valid_call :: "nat \<Rightarrow> nat \<Rightarrow> bool" where
  "valid_call k seed \<longleftrightarrow> 0 < k \<and> seed + k \<le> 2 ^ 20"

lemma stream_inv_reserved:
  assumes "stream_inv S N" "valid_call k seed" "v7_plan k S v0 seed = Reserved b"
  shows "stream_inv (b + k - 1) (max N v0)"
proof -
  define hi low where "hi = S div 2 ^ 20" and "low = S mod 2 ^ 20"
  have S: "S = hi * 2 ^ 20 + low" "low < 2 ^ 20" by (simp_all add: hi_def low_def)
  have k: "0 < k" "seed + k \<le> 2 ^ 20" using assms(2) by (simp_all add: valid_call_def)
  have inv: "hi \<noteq> 0 \<Longrightarrow> hi < 2 ^ 44 \<and> hi - 1 \<le> N + 1000 \<and> N \<le> hi - 1" "S = 0 \<Longrightarrow> N = 0" "hi = 0 \<Longrightarrow> N = 0"
    using assms(1) less_mult_imp_div_less [of S "2 ^ 44" "2 ^ 20"]
    by (auto simp: stream_inv_def word_millis_def hi_def)
  have new: "stream_inv w N'" if "w = h * 2 ^ 20 + l" "l < 2 ^ 20" "0 < h" "h < 2 ^ 44" "h - 1 \<le> N' + 1000"
    "N' \<le> h - 1" for w h l N'
  proof -
    have "h * 2 ^ 20 + l < (h + 1) * 2 ^ 20" using that by simp
    also have "\<dots> \<le> 2 ^ 44 * 2 ^ 20" using that by (intro mult_le_mono1) simp
    finally have "w < 2 ^ 64" using that by simp
    moreover have "1 * 2 ^ 20 \<le> h * 2 ^ 20" using that by (intro mult_le_mono1) simp
    ultimately show ?thesis using that hi_bounds [OF that(1,2)] by (simp add: stream_inv_def word_millis_def)
  qed
  from assms(3) show ?thesis
  proof (cases rule: reserved_cases)
    case fresh
    have "N \<le> v0" using fresh(2) inv unfolding hi_def [symmetric] by (cases "hi = 0") auto
    then show ?thesis using fresh(1,3) k by (intro new [of _ "v0 + 1" "seed + k - 1"]) simp_all
  next
    case step
    then show ?thesis using S k inv
      by (intro new [of _ hi "low + k"]) (simp_all add: word_millis_def max_def flip: hi_def low_def)
  next
    case split
    then have "hi \<noteq> 0" "hi \<noteq> 2 ^ 44 - 1" by (simp_all add: hi_def)
    with inv(1) have "hi < 2 ^ 44 - 1" by simp
    with split show ?thesis using S k inv
      by (intro new [of _ "hi + 1" "low + k - 2 ^ 20"])
        (simp_all add: word_millis_def flip: hi_def low_def, linarith)
  qed
qed

text \<open>
  The ordering contract: a timestamp within 10 s of the newest one the stream was reserved at
  is never minted outside it.
\<close>

lemma near_in_stream:
  assumes "stream_inv S N" "v0 \<le> 17592186044414" "N \<le> v0 + 10000"
  shows "v7_plan k S v0 seed \<noteq> OutOfStream"
  using assms by (auto simp: v7_plan_def stream_inv_def word_millis_def Let_def)

text \<open>A timestamp past the stream's millisecond is never refused.\<close>

lemma forward_not_refused:
  assumes "S = 0 \<or> word_millis S < v0"
  shows "v7_plan k S v0 seed \<noteq> Refused"
  using assms by (auto simp: v7_plan_def word_millis_def Let_def)

text \<open>The plan case by case, in the terms of the documentation.\<close>

text \<open>
  When the stream has no room for \<open>k\<close> steps at timestamp \<open>v0\<close>: its millisecond is the caller's or
  one up to 11 s later, the steps do not fit it, and the next millisecond would be more than 1000
  ms ahead of the caller or past the end of the stream.
\<close>

definition stream_full :: "nat \<Rightarrow> nat \<Rightarrow> nat \<Rightarrow> bool" where
  "stream_full k S v0 \<longleftrightarrow> S \<noteq> 0 \<and> v0 \<le> word_millis S \<and> word_millis S \<le> v0 + 11000 \<and> 2 ^ 20 \<le> k + S mod 2 ^ 20 \<and>
     v0 \<le> 2 ^ 44 - 2 \<and> (word_millis S = 2 ^ 44 - 2 \<or> v0 + 1000 < word_millis S + 1)"

text \<open>When a timestamp is minted outside the stream.\<close>

definition out_of_stream :: "nat \<Rightarrow> nat \<Rightarrow> bool" where
  "out_of_stream S v0 \<longleftrightarrow> 2 ^ 44 - 2 < v0 \<or> S \<noteq> 0 \<and> v0 + 11000 < word_millis S"

lemma stream_inv_hi: "stream_inv S N \<Longrightarrow> S div 2 ^ 20 = (if S = 0 then 0 else word_millis S + 1)"
proof -
  assume "stream_inv S N"
  then have "S = 0 \<or> 2 ^ 20 \<le> S" by (auto simp: stream_inv_def)
  then show ?thesis using div_le_mono [of "2 ^ 20" S "2 ^ 20"] by (auto simp: word_millis_def)
qed

lemma v7_plan_exact:
  assumes "stream_inv S N"
  shows "v7_plan k S v0 seed = (if out_of_stream S v0 then OutOfStream else if stream_full k S v0 then Refused
     else if S = 0 \<or> word_millis S < v0 then Reserved ((v0 + 1) * 2 ^ 20 + seed) else Reserved (S + 1))"
  unfolding v7_plan_def Let_def stream_inv_hi [OF assms] out_of_stream_def stream_full_def by auto

section \<open>The minted values\<close>

text \<open>
  A version 7 from its timestamp, its 26-bit counter and six random bytes. In the stream, step
  \<open>w\<close> fixes the timestamp and the counter's high 20 bits; \<open>c\<close> is its low 6 bits, random for a
  single value and an index within a batch.
\<close>

definition v7_bytes :: "nat \<Rightarrow> nat \<Rightarrow> u8 list \<Rightarrow> u8 list" where
  "v7_bytes ms cnt tail = [of_nat (ms div 2 ^ 40), of_nat (ms div 2 ^ 32), of_nat (ms div 2 ^ 24),
     of_nat (ms div 2 ^ 16), of_nat (ms div 2 ^ 8), of_nat ms,
     of_nat (112 + cnt div 2 ^ 22 mod 16), of_nat (cnt div 2 ^ 14),
     of_nat (128 + cnt div 2 ^ 8 mod 64), of_nat cnt] @ tail"

definition v7_uuid :: "nat \<Rightarrow> nat \<Rightarrow> u8 list \<Rightarrow> u8 list" where
  "v7_uuid w c tail = v7_bytes (word_millis w) ((w mod 2 ^ 20) * 64 + c) tail"

lemma length_v7_bytes [simp]: "length (v7_bytes ms cnt tail) = 10 + length tail"
  by (simp add: v7_bytes_def)

lemma unat_of_nat_u8: "unat (of_nat n :: u8) = n mod 256"
  by (simp add: unsigned_of_nat take_bit_eq_mod)

lemma digit: "(n::nat) mod (m * 2 ^ k) = 2 ^ k * (n div 2 ^ k mod m) + n mod 2 ^ k"
  by (simp only: mod_mult2_eq mult.commute [of m])

lemma digits6:
  "2 ^ 40 * (ms div 2 ^ 40 mod 256) + (2 ^ 32 * (ms div 2 ^ 32 mod 256) + (2 ^ 24 * (ms div 2 ^ 24 mod 256) +
     (2 ^ 16 * (ms div 2 ^ 16 mod 256) + (2 ^ 8 * (ms div 2 ^ 8 mod 256) + ms mod 256)))) = (ms :: nat) mod 2 ^ 48"
  using digit [of ms 256 40] digit [of ms 256 32] digit [of ms 256 24] digit [of ms 256 16]
    digit [of ms 256 8] by simp

lemma counter_digits:
  "(cnt div 2 ^ 22 mod 16) * 2 ^ 22 + (cnt div 2 ^ 14 mod 256) * 2 ^ 14 +
     (cnt div 2 ^ 8 mod 64) * 2 ^ 8 + cnt mod 256 = (cnt :: nat) mod 2 ^ 26"
  using digit [of cnt 16 22] digit [of cnt 256 14] digit [of cnt 64 8] by simp

lemma stamp_parts:
  "(x::nat) < 16 \<Longrightarrow> (112 + x) div 16 = 7" "(x::nat) < 64 \<Longrightarrow> (128 + x) div 64 = 2"
  "(x::nat) < 16 \<Longrightarrow> (112 + x) mod 16 = x" "(x::nat) < 64 \<Longrightarrow> (128 + x) mod 64 = x"
  using mod_mult_self3 [of 7 16 x] mod_mult_self3 [of 2 64 x]
  by (simp_all add: div_nat_eqI)

lemma stamped:
  "(x::nat) < 16 \<Longrightarrow> (112 + x) div 16 = 7" "(x::nat) < 64 \<Longrightarrow> (128 + x) div 64 = 2"
  "(x::nat) < 16 \<Longrightarrow> (112 + x) mod 256 mod 16 = x" "(x::nat) < 64 \<Longrightarrow> (128 + x) mod 256 mod 64 = x"
  by (simp_all add: stamp_parts)

lemma v7_bytes_fields:
  assumes "ms < 2 ^ 48" "cnt < 2 ^ 26"
  shows "is_rfc_v7 (v7_bytes ms cnt tail)" "rfc_millis (v7_bytes ms cnt tail) = ms"
    "rfc_counter (v7_bytes ms cnt tail) = cnt" "drop 10 (v7_bytes ms cnt tail) = tail"
proof -
  have nibble: "unat (of_nat (112 + cnt div 2 ^ 22 mod 16) :: u8) = 112 + cnt div 2 ^ 22 mod 16"
    "unat (of_nat (128 + cnt div 2 ^ 8 mod 64) :: u8) = 128 + cnt div 2 ^ 8 mod 64"
    using mod_less_divisor [of 16 "cnt div 2 ^ 22"] mod_less_divisor [of 64 "cnt div 2 ^ 8"]
    by (simp_all add: unat_of_nat_u8 del: of_nat_add)
  then show "is_rfc_v7 (v7_bytes ms cnt tail)"
    by (simp add: is_rfc_v7_def rfc_version_def is_variant_rfc_def v7_bytes_def stamped del: of_nat_add)
  show "drop 10 (v7_bytes ms cnt tail) = tail" by (simp add: v7_bytes_def)
  have "rfc_millis (v7_bytes ms cnt tail) = ms mod 2 ^ 48"
    using digits6 [of ms] by (simp add: rfc_millis_def v7_bytes_def be_nat_Cons unat_of_nat_u8)
  then show "rfc_millis (v7_bytes ms cnt tail) = ms" using assms(1) by simp
  have "rfc_counter (v7_bytes ms cnt tail) = cnt mod 2 ^ 26"
  proof -
    let ?u = "v7_bytes ms cnt tail"
    have "?u ! 6 = of_nat (112 + cnt div 2 ^ 22 mod 16)" "?u ! 7 = of_nat (cnt div 2 ^ 14)"
      "?u ! 8 = of_nat (128 + cnt div 2 ^ 8 mod 64)" "?u ! 9 = of_nat cnt"
      by (simp_all add: v7_bytes_def)
    then have "unat (?u ! 6) mod 16 = cnt div 2 ^ 22 mod 16" "unat (?u ! 7) = cnt div 2 ^ 14 mod 256"
      "unat (?u ! 8) mod 64 = cnt div 2 ^ 8 mod 64" "unat (?u ! 9) = cnt mod 256"
      using nibble by (simp_all only: unat_of_nat_u8 stamp_parts mod_less_divisor zero_less_numeral)
    then show ?thesis by (simp only: rfc_counter_def counter_digits)
  qed
  then show "rfc_counter (v7_bytes ms cnt tail) = cnt" using assms(2) by simp
qed

text \<open>
  A version 7 compares, as a 128-bit number, by timestamp, then counter, then random bytes; so
  values of the stream compare by step, then by the low counter bits.
\<close>

lemma v7_bytes_less:
  assumes "ms < 2 ^ 48" "cnt < 2 ^ 26" "ms' < 2 ^ 48" "cnt' < 2 ^ 26" "length t = 6" "length t' = 6"
  shows "be_nat (v7_bytes ms cnt t) < be_nat (v7_bytes ms' cnt' t') \<longleftrightarrow>
    ms < ms' \<or> ms = ms' \<and> (cnt < cnt' \<or> cnt = cnt' \<and> be_nat t < be_nat t')"
proof -
  let ?u = "v7_bytes ms cnt t" and ?v = "v7_bytes ms' cnt' t'"
  note fu = v7_bytes_fields [OF assms(1,2), of t] and fv = v7_bytes_fields [OF assms(3,4), of t']
  let ?rc = "\<lambda>u. [u ! 6, u ! 7, u ! 8, u ! 9 :: u8]"
  have split: "u = take 6 u @ ?rc u @ drop 10 u" if "length u = 16" for u :: "u8 list"
    using that by (elim length_16_cases) simp
  have rc: "be_nat (?rc u) < be_nat (?rc v) \<longleftrightarrow> rfc_counter u < rfc_counter v"
    if "is_rfc_v7 u" "is_rfc_v7 v" for u v
    using that by (simp add: rfc_counter_octets spread_mono)
  have ts_eq: "take 6 ?u = take 6 ?v \<longleftrightarrow> ms = ms'"
    using be_nat_inject [of "take 6 ?u" "take 6 ?v"] fu(2) fv(2) assms(5,6) by (simp add: rfc_millis_def)
  have rc_eq: "?rc ?u = ?rc ?v \<longleftrightarrow> cnt = cnt'"
    using rc [OF fu(1) fv(1)] rc [OF fv(1) fu(1)] be_nat_inject [of "?rc ?u" "?rc ?v"] fu(3) fv(3)
    by (metis (no_types, lifting) linorder_neq_iff length_Cons list.size(3))
  have "be_nat (take 6 ?u @ ?rc ?u @ drop 10 ?u) < be_nat (take 6 ?v @ ?rc ?v @ drop 10 ?v) \<longleftrightarrow>
      ms < ms' \<or> ms = ms' \<and> (cnt < cnt' \<or> cnt = cnt' \<and> be_nat t < be_nat t')"
    using rc [OF fu(1) fv(1)] ts_eq rc_eq fu(2-4) fv(2-4) assms(5,6)
    by (subst be_nat_less_append, simp, simp, subst be_nat_less_append) (simp_all add: rfc_millis_def)
  then show ?thesis using split [of ?u] split [of ?v] assms(5,6) by simp
qed

lemma v7_uuid_less:
  assumes "2 ^ 20 \<le> w" "w < 2 ^ 68" "2 ^ 20 \<le> w'" "w' < 2 ^ 68" "c < 64" "c' < 64"
    "length t = 6" "length t' = 6" "w * 64 + c < w' * 64 + c'"
  shows "be_nat (v7_uuid w c t) < be_nat (v7_uuid w' c' t')"
proof -
  define h l h' l' where "h = w div 2 ^ 20" and "l = w mod 2 ^ 20" and "h' = w' div 2 ^ 20" and "l' = w' mod 2 ^ 20"
  have w: "w = h * 2 ^ 20 + l" "l < 2 ^ 20" "w' = h' * 2 ^ 20 + l'" "l' < 2 ^ 20"
    by (simp_all add: h_def l_def h'_def l'_def)
  have h: "1 \<le> h" "1 \<le> h'" "h < 2 ^ 48" "h' < 2 ^ 48"
    using assms(1-4) less_mult_imp_div_less [of _ "2 ^ 48" "2 ^ 20"] by (simp_all add: h_def h'_def less_eq_div_iff_mult_less_eq)
  have "h < h' \<or> h = h' \<and> l * 64 + c < l' * 64 + c'"
  proof (cases h h' rule: linorder_cases)
    case greater
    then have "(h' + 1) * 2 ^ 20 \<le> h * 2 ^ 20" by (intro mult_le_mono1) simp
    then have "w' < w" using w by simp
    then show ?thesis using assms(5,6,9) by simp
  qed (use assms(9) w in auto)
  then show ?thesis
    using w(2,4) h assms(5-8) unfolding v7_uuid_def word_millis_def h_def [symmetric] l_def [symmetric] h'_def [symmetric] l'_def [symmetric]
    by (subst v7_bytes_less) auto
qed

section \<open>Calls on the stream\<close>

text \<open>
  \<open>stream_values lo hi us\<close>: every value of \<open>us\<close> is the value of a step from \<open>lo\<close> to \<open>hi\<close>. Values
  of later steps are greater, whatever their random bytes.
\<close>

definition stream_values :: "nat \<Rightarrow> nat \<Rightarrow> u8 list list \<Rightarrow> bool" where
  "stream_values lo hi us \<longleftrightarrow> 2 ^ 20 \<le> lo \<and> hi < 2 ^ 68 \<and>
     (\<forall>u\<in>set us. \<exists>w c t. lo \<le> w \<and> w \<le> hi \<and> c < 64 \<and> length t = 6 \<and> u = v7_uuid w c t)"

definition increasing :: "u8 list list \<Rightarrow> bool" where
  "increasing us \<longleftrightarrow> sorted_wrt (\<lambda>u v. be_nat u < be_nat v) us"

lemma stream_values_less:
  assumes "stream_values lo hi us" "stream_values lo' hi' vs" "hi < lo'" "u \<in> set us" "v \<in> set vs"
  shows "be_nat u < be_nat v"
proof -
  from assms(1,4) obtain w c t where u: "lo \<le> w" "w \<le> hi" "c < 64" "length t = 6" "u = v7_uuid w c t"
    unfolding stream_values_def by blast
  from assms(2,5) obtain w' c' t' where v: "lo' \<le> w'" "w' \<le> hi'" "c' < 64" "length t' = 6" "v = v7_uuid w' c' t'"
    unfolding stream_values_def by blast
  show ?thesis unfolding u(5) v(5)
    using assms(1-3) u v by (intro v7_uuid_less) (simp_all add: stream_values_def)
qed

lemma v7_uuid_fields:
  assumes "w < 2 ^ 68" "c < 64"
  shows "is_rfc_v7 (v7_uuid w c t)" "rfc_millis (v7_uuid w c t) = word_millis w"
proof -
  have "w div 2 ^ 20 < 2 ^ 48" using assms(1) by (intro less_mult_imp_div_less) simp
  then have "word_millis w < 2 ^ 48" by (simp add: word_millis_def)
  moreover have "w mod 2 ^ 20 * 64 + c < 2 ^ 26" using assms(2) mod_less_divisor [of "2 ^ 20" w] by simp
  ultimately show "is_rfc_v7 (v7_uuid w c t)" "rfc_millis (v7_uuid w c t) = word_millis w"
    by (simp_all add: v7_uuid_def v7_bytes_fields)
qed

text \<open>
  The specification of one call for \<open>k\<close> steps: from the stream \<open>S\<close> at timestamp \<open>v0\<close>, the return
  code, the values and the stream it leaves.
\<close>

inductive v7_call :: "nat \<Rightarrow> nat \<Rightarrow> nat \<Rightarrow> i32 \<Rightarrow> u8 list list \<Rightarrow> nat \<Rightarrow> bool" for k where
  in_stream: "v0 \<le> 253402300799999 \<Longrightarrow> valid_call k seed \<Longrightarrow> v7_plan k S v0 seed = Reserved b \<Longrightarrow>
    stream_values b (b + k - 1) us \<Longrightarrow> increasing us \<Longrightarrow> v7_call k S v0 0 us (b + k - 1)"
| stray: "v0 \<le> 253402300799999 \<Longrightarrow> valid_call k seed \<Longrightarrow> v7_plan k S v0 seed = OutOfStream \<Longrightarrow>
    b = (v0 + 1) * 2 ^ 20 + seed \<Longrightarrow> stream_values b (b + k - 1) us \<Longrightarrow> increasing us \<Longrightarrow>
    v7_call k S v0 0 us S"
| exhausted: "v0 \<le> 253402300799999 \<Longrightarrow> v7_plan k S v0 seed = Refused \<Longrightarrow> v7_call k S v0 6 [] S"
| no_random: "v0 \<le> 253402300799999 \<Longrightarrow> v7_call k S v0 1 [] S"
| out_of_range: "253402300799999 < v0 \<Longrightarrow> v7_call k S v0 2 [] S"

inductive_cases v7_call_cases [consumes 1]: "v7_call k S v0 rc us S'"

text \<open>The first step of a call that mints, and the call it makes once its values are known.\<close>

definition v7_first :: "nat \<Rightarrow> nat \<Rightarrow> nat \<Rightarrow> nat \<Rightarrow> nat" where
  "v7_first k S v0 seed = (case v7_plan k S v0 seed of Reserved b \<Rightarrow> b | _ \<Rightarrow> (v0 + 1) * 2 ^ 20 + seed)"

lemma v7_after_less:
  assumes "stream_inv S N" "valid_call k seed"
  shows "v7_after k S v0 seed < 2 ^ 64"
proof (cases "v7_plan k S v0 seed")
  case (Reserved b)
  then show ?thesis using stream_inv_reserved [OF assms Reserved] assms(2)
    by (auto simp: stream_inv_def v7_after_def valid_call_def)
qed (use assms in \<open>auto simp: v7_after_def stream_inv_def\<close>)

lemma v7_first_bounds:
  assumes "stream_inv S N" "valid_call k seed" "v0 \<le> 253402300799999"
  shows "2 ^ 20 \<le> v7_first k S v0 seed" "v7_first k S v0 seed + k - 1 < 2 ^ 68"
proof -
  have k: "0 < k" "seed + k \<le> 2 ^ 20" using assms(2) by (simp_all add: valid_call_def)
  have fresh: "2 ^ 20 \<le> (v0 + 1) * 2 ^ 20 + seed" "(v0 + 1) * 2 ^ 20 + seed + k - 1 < 2 ^ 68"
    using k assms(3) by simp_all
  have res: "2 ^ 20 \<le> b \<and> b + k - 1 < 2 ^ 68" if "v7_plan k S v0 seed = Reserved b" for b
  proof -
    have "2 ^ 20 \<le> b"
      using that by (cases rule: reserved_cases) (auto simp: less_eq_div_iff_mult_less_eq dest: div_le_mono [of _ _ "2 ^ 20"] intro: le_SucI
          order_trans [OF _ div_times_less_eq_dividend])
    moreover have "b + k - 1 < 2 ^ 64" using v7_after_less [OF assms(1,2), of v0] that by (simp add: v7_after_def)
    ultimately show ?thesis by simp
  qed
  show "2 ^ 20 \<le> v7_first k S v0 seed" "v7_first k S v0 seed + k - 1 < 2 ^ 68"
    using fresh res by (auto simp: v7_first_def split: v7_plan.split)
qed

lemma v7_call_plan:
  assumes "valid_call k seed" "v0 \<le> 253402300799999"
    "stream_values (v7_first k S v0 seed) (v7_first k S v0 seed + k - 1) us" "increasing us"
  shows "v7_call k S v0 (if v7_plan k S v0 seed = Refused then 6 else 0)
    (if v7_plan k S v0 seed = Refused then [] else us) (v7_after k S v0 seed)"
proof (cases "v7_plan k S v0 seed")
  case Refused
  then show ?thesis using v7_call.exhausted [OF assms(2) Refused] by (simp add: v7_after_def)
next
  case OutOfStream
  then show ?thesis using v7_call.stray [OF assms(2,1) OutOfStream refl, of us] assms(3,4)
    by (simp add: v7_after_def v7_first_def)
next
  case (Reserved b)
  then show ?thesis using v7_call.in_stream [OF assms(2,1) Reserved, of us] assms(3,4)
    by (simp add: v7_after_def v7_first_def)
qed

end
