(* ===== verification/Random_Source.thy ===== *)
theory Random_Source
  imports Prelude
begin

text \<open>
  The random sources of \<open>src/go/random.go\<close> and \<open>src/go/random_aes.go\<close>: the checked read of
  the operating system and the AES-256-CTR keystream buffer. The operating system is an
  explicit environment: the outcomes its next \<open>Read\<close> calls will have and the readings its
  clock will give. The keystream \<open>crypto/cipher\<close> produces is a parameter \<open>ctr\<close> of the model,
  a byte for each key, initial counter block and position; nothing is assumed of it.
\<close>

section \<open>The operating system\<close>

text \<open>
  One \<open>Read\<close> delivers bytes, with or without an error; a script that has run out fails. Any
  finite behaviour of \<open>crypto/rand.Reader\<close> is such a script. Times are in nanoseconds.
\<close>

datatype read_outcome = ReadOk "u8 list" | ReadErr "u8 list"

record os_env =
  reads :: "read_outcome list"
  clock :: "int list"

definition now :: "os_env \<Rightarrow> int \<times> os_env" where
  "now e = (case clock e of [] \<Rightarrow> (0, e) | t # ts \<Rightarrow> (t, e\<lparr>clock := ts\<rparr>))"

text \<open>
  \<open>io.ReadFull\<close>: read until \<open>n\<close> bytes have arrived or a \<open>Read\<close> reports an error; an error that
  comes with the last bytes is dropped. \<open>got\<close> is what has arrived so far.
\<close>

fun read_full_loop :: "nat \<Rightarrow> u8 list \<Rightarrow> read_outcome list \<Rightarrow> u8 list \<times> bool \<times> read_outcome list" where
  "read_full_loop n got [] = (got, n \<le> length got, [])"
| "read_full_loop n got (r # rs) =
     (if n \<le> length got then (got, True, r # rs)
      else case r of
        ReadErr bs \<Rightarrow> (let got' = got @ take (n - length got) bs in (got', n \<le> length got', rs))
      | ReadOk bs \<Rightarrow> read_full_loop n (got @ take (n - length got) bs) rs)"

definition readFull :: "u8 list \<Rightarrow> os_env \<Rightarrow> bool \<times> u8 list \<times> os_env" where
  "readFull dst e =
     (let (got, ok, rs) = read_full_loop (length dst) [] (reads e)
      in (ok, got @ drop (length got) dst, e\<lparr>reads := rs\<rparr>))"

definition wasiEIO :: i32 where "wasiEIO = 29"

definition os_fill :: "u8 list \<Rightarrow> os_env \<Rightarrow> i32 \<times> u8 list \<times> os_env" where
  "os_fill dst e =
     (if length dst = 0 then (0, dst, e)
      else let (ok, dst', e') = readFull dst e
           in if \<not> ok then (wasiEIO, dst', e') else (0, dst', e'))"

section \<open>The AES-256-CTR stream\<close>

definition keyBudget :: nat where "keyBudget = 1048576"
definition keyLifetime :: int where "keyLifetime = 1000000000"
definition bufSize :: nat where "bufSize = 512"

record ctr_stream =
  st_key :: "u8 list"
  st_iv :: "u8 list"
  st_pos :: nat

record aes_source =
  key :: "u8 list"
  iv :: "u8 list"
  stream :: "ctr_stream option"
  keyedAt :: int
  generated :: nat
  buf :: "u8 list"
  off :: nat

type_synonym keystream = "u8 list \<Rightarrow> u8 list \<Rightarrow> nat \<Rightarrow> u8"

definition newAESSource :: aes_source where
  "newAESSource = \<lparr>key = replicate 32 0, iv = replicate 16 0, stream = None, keyedAt = 0,
     generated = 0, buf = replicate bufSize 0, off = bufSize\<rparr>"

definition ks_bytes :: "keystream \<Rightarrow> ctr_stream \<Rightarrow> nat \<Rightarrow> u8 list" where
  "ks_bytes ctr st n = map (ctr (st_key st) (st_iv st)) [st_pos st..<st_pos st + n]"

definition xorKeyStream :: "keystream \<Rightarrow> ctr_stream \<Rightarrow> u8 list \<Rightarrow> u8 list \<times> ctr_stream" where
  "xorKeyStream ctr st dst =
     (map2 (\<lambda>a b. a XOR b) dst (ks_bytes ctr st (length dst)),
      st\<lparr>st_pos := st_pos st + length dst\<rparr>)"

definition rekey :: "aes_source \<Rightarrow> os_env \<Rightarrow> bool \<times> aes_source \<times> os_env" where
  "rekey s e =
     (let s1 = s\<lparr>stream := None, off := bufSize, generated := 0\<rparr>;
          (ok, k, e1) = readFull (key s1) e;
          s2 = s1\<lparr>key := k\<rparr>
      in if \<not> ok then (False, s2, e1)
         else if length k \<notin> {16, 24, 32} then (False, s2, e1)
         else let (t, e2) = now e1
              in (True, s2\<lparr>stream := Some \<lparr>st_key = k, st_iv = iv s2, st_pos = 0\<rparr>, keyedAt := t\<rparr>, e2))"

text \<open>
  \<open>generate\<close> cuts the draw at the key budget and finishes it under a fresh key. The result
  keeps the bytes of a failed draw as they stood. A stream that is missing would be a nil
  dereference in Go; \<open>aes_inv\<close> below excludes it where \<open>generate\<close> is called.
\<close>

function generate ::
    "keystream \<Rightarrow> u8 list \<Rightarrow> aes_source \<Rightarrow> os_env \<Rightarrow> (i32 \<times> u8 list \<times> aes_source \<times> os_env) option"
where
  "generate ctr dst s e =
     (if dst = [] then Some (0, [], s, e)
      else
        let (ok, s1, e1) = (if keyBudget \<le> generated s then rekey s e else (True, s, e))
        in if \<not> ok then Some (wasiEIO, dst, s1, e1)
           else case stream s1 of
             None \<Rightarrow> None
           | Some st \<Rightarrow>
               let n = min (length dst) (keyBudget - generated s1);
                   (out, st') = xorKeyStream ctr st (take n dst);
                   s2 = s1\<lparr>stream := Some st', generated := generated s1 + n\<rparr>
               in case generate ctr (drop n dst) s2 e1 of
                    None \<Rightarrow> None
                  | Some (code, out', s3, e3) \<Rightarrow> Some (code, out @ out', s3, e3))"
  by pat_completeness auto

lemma rekey_generated: "rekey s e = (True, s', e') \<Longrightarrow> generated s' = 0"
  by (auto simp: rekey_def Let_def split: prod.splits if_splits)

lemma ready_generated:
  "(True, s1, e1) = (if keyBudget \<le> generated s then rekey s e else (True, s, e)) \<Longrightarrow>
     generated s1 < keyBudget"
  by (auto simp: keyBudget_def split: if_splits dest!: rekey_generated [OF sym])

termination generate
proof (relation "measure (\<lambda>(ctr, dst, s, e). length dst)", goal_cases)
  case 1 show ?case by simp
next
  case (2 ctr dst s e p ok q s1 e1 st n r out st' s2)
  from 2(2-5) have "(True, s1, e1) = (if keyBudget \<le> generated s then rekey s e else (True, s, e))"
    by (cases q) auto
  then have "generated s1 < keyBudget" by (rule ready_generated)
  with 2(1) show ?case by (simp add: 2(7))
qed

declare generate.simps [simp del]

text \<open>
  \<open>fill\<close> in two steps: \<open>aes_serve\<close> hands out the buffer's remainder and then generates, either
  straight into the destination or by a refill; \<open>aes_fill\<close> puts the expiry check before it.
\<close>

definition aes_serve ::
    "keystream \<Rightarrow> u8 list \<Rightarrow> aes_source \<Rightarrow> os_env \<Rightarrow> (i32 \<times> u8 list \<times> aes_source \<times> os_env) option"
where
  "aes_serve ctr dst s e =
     (let served = take (length dst) (drop (off s) (buf s));
          n = length served;
          s2 = s\<lparr>off := off s + n\<rparr>;
          rest = drop n dst
      in if bufSize \<le> length rest then
           do { (code, out, s3, e3) \<leftarrow> generate ctr (replicate (length rest) 0) s2 e;
                Some (code, served @ out, s3, e3) }
         else if 0 < length rest then
           do { (code, out, s3, e3) \<leftarrow> generate ctr (replicate bufSize 0) s2 e;
                if code \<noteq> 0 then Some (code, served @ rest, s3\<lparr>buf := out, off := bufSize\<rparr>, e3)
                else Some (0, served @ take (length rest) out,
                           s3\<lparr>buf := out, off := length rest\<rparr>, e3) }
         else Some (0, served, s2, e))"

definition key_expired :: "aes_source \<Rightarrow> os_env \<Rightarrow> bool \<times> os_env" where
  "key_expired s e =
     (case stream s of None \<Rightarrow> (True, e)
      | Some st \<Rightarrow> (let (t, e') = now e in (t - keyedAt s \<ge> keyLifetime, e')))"

definition aes_fill ::
    "keystream \<Rightarrow> u8 list \<Rightarrow> aes_source \<Rightarrow> os_env \<Rightarrow> (i32 \<times> u8 list \<times> aes_source \<times> os_env) option"
where
  "aes_fill ctr dst s e =
     (if length dst = 0 then Some (0, dst, s, e)
      else
        let (expired, e0) = key_expired s e;
            (ok, s1, e1) = (if expired then rekey s e0 else (True, s, e0))
        in if \<not> ok then Some (wasiEIO, dst, s1, e1) else aes_serve ctr dst s1 e1)"

section \<open>The instance's source\<close>

datatype source = OsSource | AesSource aes_source

text \<open>\<open>newSource\<close>: the AES stream when it is accelerated and FIPS 140 mode is off.\<close>

definition newStream :: "bool \<Rightarrow> bool \<Rightarrow> source option" where
  "newStream accelerated fipsEnabled =
     (if \<not> accelerated \<or> fipsEnabled then None else Some (AesSource newAESSource))"

definition newSource :: "bool \<Rightarrow> bool \<Rightarrow> source" where
  "newSource accelerated fipsEnabled =
     (case newStream accelerated fipsEnabled of Some s \<Rightarrow> s | None \<Rightarrow> OsSource)"

fun fill ::
    "keystream \<Rightarrow> u8 list \<Rightarrow> source \<times> os_env \<Rightarrow> (i32 \<times> u8 list \<times> source \<times> os_env) option"
where
  "fill ctr dst (OsSource, e) =
     (let (code, out, e') = os_fill dst e in Some (code, out, OsSource, e'))"
| "fill ctr dst (AesSource s, e) =
     do { (code, out, s', e') \<leftarrow> aes_fill ctr dst s e; Some (code, out, AesSource s', e') }"

section \<open>What a draw returns\<close>

text \<open>
  \<open>read_full_loop\<close> succeeds exactly when enough bytes arrived, and then the bytes are those
  that arrived.
\<close>

lemma read_full_loop_length:
  "read_full_loop n got rs = (got', ok, rs') \<Longrightarrow> length got \<le> n \<Longrightarrow>
     length got' \<le> n \<and> (ok \<longleftrightarrow> length got' = n)"
  by (induction n got rs rule: read_full_loop.induct)
    (auto simp: Let_def split: if_splits read_outcome.splits)

lemma readFull_length: "readFull dst e = (ok, dst', e') \<Longrightarrow> length dst' = length dst"
  by (auto simp: readFull_def Let_def split: prod.splits dest!: read_full_loop_length)

lemma os_fill_length: "os_fill dst e = (code, out, e') \<Longrightarrow> length out = length dst"
  by (auto simp: os_fill_def Let_def split: prod.splits if_splits dest!: readFull_length)

definition aes_inv :: "aes_source \<Rightarrow> bool" where
  "aes_inv s \<longleftrightarrow> length (key s) = 32 \<and> length (iv s) = 16 \<and> length (buf s) = bufSize \<and>
     off s \<le> bufSize \<and> generated s \<le> keyBudget \<and>
     (\<forall>st. stream s = Some st \<longrightarrow> st_pos st = generated s)"

lemma aes_inv_new: "aes_inv newAESSource"
  by (simp add: aes_inv_def newAESSource_def keyBudget_def)

lemma aes_inv_off:
  "aes_inv s \<Longrightarrow> k \<le> bufSize \<Longrightarrow> aes_inv (s\<lparr>off := k\<rparr>)"
  by (simp add: aes_inv_def)

lemma aes_inv_buf:
  "aes_inv s \<Longrightarrow> k \<le> bufSize \<Longrightarrow> length bs = bufSize \<Longrightarrow> aes_inv (s\<lparr>buf := bs, off := k\<rparr>)"
  by (simp add: aes_inv_def)

lemma rekey_inv:
  assumes "aes_inv s" "rekey s e = (ok, s', e')"
  shows "aes_inv s'" "ok \<Longrightarrow> stream s' \<noteq> None \<and> generated s' = 0" "buf s' = buf s"
    "\<not> ok \<Longrightarrow> stream s' = None"
  using assms
  by (auto simp: rekey_def aes_inv_def Let_def split: prod.splits if_splits dest!: readFull_length)

lemma length_xorKeyStream:
  "xorKeyStream ctr st dst = (out, st') \<Longrightarrow> length out = length dst"
  by (auto simp: xorKeyStream_def ks_bytes_def)

lemma xorKeyStream_zeros:
  "xorKeyStream ctr st (replicate n 0) = (ks_bytes ctr st n, st\<lparr>st_pos := st_pos st + n\<rparr>)"
  by (auto simp: xorKeyStream_def ks_bytes_def intro!: nth_equalityI)

text \<open>
  \<open>generate\<close> returns whenever the source has a stream or is about to rekey, and keeps the
  invariant: the key budget is never exceeded.
\<close>

lemma generate_total:
  assumes "aes_inv s" "stream s \<noteq> None \<or> keyBudget \<le> generated s"
  shows "\<exists>code out s' e'. generate ctr dst s e = Some (code, out, s', e') \<and>
    length out = length dst \<and> aes_inv s' \<and> code \<in> {0, wasiEIO}"
  using assms
proof (induction ctr dst s e rule: generate.induct)
  case (1 ctr dst s e)
  show ?case
  proof (cases "dst = []")
    case True
    then show ?thesis using 1(2) by (simp add: generate.simps)
  next
    case False
    obtain ok s1 e1 where r: "(if keyBudget \<le> generated s then rekey s e else (True, s, e)) = (ok, s1, e1)"
      by (metis prod_cases3)
    have inv1: "aes_inv s1" using r 1(2) by (auto split: if_splits dest: rekey_inv(1))
    show ?thesis
    proof (cases ok)
      case False
      with r inv1 \<open>dst \<noteq> []\<close> show ?thesis
        by (subst generate.simps) (simp add: wasiEIO_def)
    next
      case True
      have "stream s1 \<noteq> None" using r True 1(2,3) by (auto split: if_splits dest: rekey_inv(2))
      then obtain st where st: "stream s1 = Some st" by blast
      have lt: "generated s1 < keyBudget" using r True ready_generated [of s1 e1 s e] by simp
      define n where "n = min (length dst) (keyBudget - generated s1)"
      obtain out st' where x: "xorKeyStream ctr st (take n dst) = (out, st')" by (metis prod.exhaust)
      let ?s2 = "s1\<lparr>stream := Some st', generated := generated s1 + n\<rparr>"
      have inv2: "aes_inv ?s2" using inv1 st x lt
        by (auto simp: aes_inv_def xorKeyStream_def n_def)
      have "\<exists>code out s' e'. generate ctr (drop n dst) ?s2 e1 = Some (code, out, s', e') \<and>
          length out = length (drop n dst) \<and> aes_inv s' \<and> code \<in> {0, wasiEIO}"
        using 1(1) [OF False r [symmetric] refl refl _ st n_def x [symmetric] refl refl inv2] True
        by simp
      moreover have "length out = n" using x length_xorKeyStream by (fastforce simp: n_def)
      ultimately show ?thesis
        using False r True st x
        by (subst generate.simps)
           (fastforce simp: n_def Let_def generate.simps [where dst = "[]"] split: prod.splits)
    qed
  qed
qed

lemma aes_serve_total:
  assumes "aes_inv s" "stream s \<noteq> None"
  shows "\<exists>code out s' e'. aes_serve ctr dst s e = Some (code, out, s', e') \<and>
    length out = length dst \<and> aes_inv s' \<and> code \<in> {0, wasiEIO}"
proof -
  define served where "served = take (length dst) (drop (off s) (buf s))"
  define rest where "rest = drop (length served) dst"
  let ?s2 = "s\<lparr>off := off s + length served\<rparr>"
  have inv2: "aes_inv ?s2" "stream ?s2 \<noteq> None"
    using assms by (auto simp: aes_inv_def served_def)
  have len: "length served + length rest = length dst" by (simp add: served_def rest_def)
  consider "bufSize \<le> length rest" | "0 < length rest" "length rest < bufSize" | "rest = []"
    by fastforce
  then show ?thesis
  proof cases
    case 1
    with generate_total [OF inv2(1), of ctr "replicate (length rest) 0" e] inv2(2) len
    show ?thesis by (auto simp: aes_serve_def Let_def simp flip: served_def rest_def)
  next
    case 2
    with generate_total [OF inv2(1), of ctr "replicate bufSize 0" e] inv2(2) len
    show ?thesis
      by (fastforce simp: aes_serve_def Let_def aes_inv_buf simp flip: served_def rest_def)
  next
    case 3
    with inv2 len show ?thesis
      by (auto simp: aes_serve_def Let_def bufSize_def wasiEIO_def simp flip: served_def rest_def)
  qed
qed

lemma aes_fill_total:
  assumes "aes_inv s"
  shows "\<exists>code out s' e'. aes_fill ctr dst s e = Some (code, out, s', e') \<and>
    length out = length dst \<and> aes_inv s' \<and> code \<in> {0, wasiEIO}"
proof (cases "length dst = 0")
  case True
  with assms show ?thesis by (simp add: aes_fill_def)
next
  case False
  obtain expired e0 where x: "key_expired s e = (expired, e0)" by (metis prod.exhaust)
  obtain ok s1 e1 where r: "(if expired then rekey s e0 else (True, s, e0)) = (ok, s1, e1)"
    by (metis prod_cases3)
  have "aes_inv s1" using r assms by (auto split: if_splits dest: rekey_inv(1))
  moreover have "ok \<Longrightarrow> stream s1 \<noteq> None"
    using r x assms rekey_inv(2)
    by (auto simp: key_expired_def split: if_splits option.splits prod.splits)
  ultimately show ?thesis
    using False x r aes_serve_total [of s1 ctr dst e1] by (simp add: aes_fill_def wasiEIO_def)
qed

fun source_inv :: "source \<times> os_env \<Rightarrow> bool" where
  "source_inv (OsSource, e) = True"
| "source_inv (AesSource s, e) = aes_inv s"

lemma source_inv_new: "source_inv (newSource accelerated fipsEnabled, e)"
  by (simp add: newSource_def newStream_def aes_inv_new)

lemma fill_total:
  assumes "source_inv s"
  shows "\<exists>code out s'. fill ctr dst s = Some (code, out, s') \<and> length out = length dst \<and>
    source_inv s' \<and> code \<in> {0, wasiEIO}"
proof (cases s rule: source_inv.cases)
  case (1 e)
  then show ?thesis
    by (auto simp: os_fill_def Let_def split: prod.splits dest: readFull_length)
next
  case (2 a e)
  with assms aes_fill_total [of a ctr dst e] show ?thesis by auto
qed

section \<open>A source writes every byte it answers for\<close>

text \<open>
  What a draw gives does not depend on what stood in the destination: two draws into buffers of
  one length end alike, with the same bytes when they succeed.
\<close>

lemma read_full_loop_full:
  "read_full_loop n got rs = (got', True, rs') \<Longrightarrow> length got \<le> n \<Longrightarrow> length got' = n"
  using read_full_loop_length by blast

lemma os_fill_ignores:
  assumes "os_fill dst e = (code, out, e')" "length dst' = length dst"
  shows "\<exists>out'. os_fill dst' e = (code, out', e') \<and> (code = 0 \<longrightarrow> out' = out)"
  using assms
  by (auto simp: os_fill_def readFull_def Let_def wasiEIO_def split: prod.splits if_splits dest!: read_full_loop_full)

lemma aes_serve_ignores:
  assumes "aes_serve ctr dst s e = Some (code, out, s', e')" "length dst' = length dst"
  shows "\<exists>out'. aes_serve ctr dst' s e = Some (code, out', s', e') \<and> (code = 0 \<longrightarrow> out' = out)"
proof -
  define served where "served = take (length dst) (drop (off s) (buf s))"
  define k where "k = length dst - length served"
  have k: "length (drop (length served) dst) = k" "length (drop (length served) dst') = k"
    using assms(2) by (simp_all add: k_def)
  note serve = aes_serve_def [of ctr _ s e, unfolded Let_def]
  consider "bufSize \<le> k" | "0 < k" "\<not> bufSize \<le> k" | "k = 0" by linarith
  then show ?thesis
  proof cases
    case 1
    then show ?thesis using assms(1) k unfolding serve assms(2) served_def [symmetric] by simp
  next
    case 2
    obtain c o3 s3 e3 where g: "generate ctr (replicate bufSize 0) (s\<lparr>off := off s + length served\<rparr>) e = Some (c, o3, s3, e3)"
      using assms(1) 2 k unfolding serve served_def [symmetric] by (auto split: bind_splits)
    show ?thesis using assms(1) k 2 g unfolding serve assms(2) served_def [symmetric] by (cases "c = 0") auto
  next
    case 3
    then show ?thesis using assms(1) k unfolding serve assms(2) served_def [symmetric]
      by (auto simp: bufSize_def simp del: length_drop)
  qed
qed

lemma aes_fill_ignores:
  assumes "aes_fill ctr dst s e = Some (code, out, s', e')" "length dst' = length dst"
  shows "\<exists>out'. aes_fill ctr dst' s e = Some (code, out', s', e') \<and> (code = 0 \<longrightarrow> out' = out)"
proof (cases "length dst = 0")
  case True
  with assms show ?thesis by (simp add: aes_fill_def)
next
  case False
  obtain x e0 where k: "key_expired s e = (x, e0)" by (metis prod.exhaust)
  obtain ok s1 e1 where r: "(if x then rekey s e0 else (True, s, e0)) = (ok, s1, e1)" by (metis prod_cases3)
  show ?thesis
  proof (cases ok)
    case True
    with assms False k r show ?thesis using aes_serve_ignores [of ctr dst s1 e1 code out s' e' dst']
      by (simp add: aes_fill_def)
  next
    case nok: False
    with assms False k r show ?thesis by (simp add: aes_fill_def wasiEIO_def)
  qed
qed

lemma fill_ignores:
  assumes "fill ctr dst s = Some (code, out, s')" "length dst' = length dst"
  shows "\<exists>out'. fill ctr dst' s = Some (code, out', s') \<and> (code = 0 \<longrightarrow> out' = out)"
proof (cases s rule: source_inv.cases)
  case (1 e)
  then show ?thesis using assms os_fill_ignores [of dst e _ _ _ dst'] by (fastforce split: prod.splits)
next
  case (2 a e)
  then show ?thesis using assms aes_fill_ignores [of ctr dst a e _ _ _ _ dst'] by (fastforce split: bind_splits)
qed

section \<open>One contiguous keystream\<close>

text \<open>\<open>pending\<close> is the buffered keystream not yet served.\<close>

definition pending :: "aes_source \<Rightarrow> u8 list" where
  "pending s = drop (off s) (buf s)"

lemma generate_within_budget:
  assumes "stream s = Some st" "generated s + n \<le> keyBudget" "0 < n"
  shows "generate ctr (replicate n 0) s e =
    Some (0, ks_bytes ctr st n,
          s\<lparr>stream := Some (st\<lparr>st_pos := st_pos st + n\<rparr>), generated := generated s + n\<rparr>, e)"
  using assms
proof -
  have "min n (keyBudget - generated s) = n" using assms(2) by simp
  with assms show ?thesis
    by (subst generate.simps) (simp add: xorKeyStream_zeros generate.simps [where dst = "[]"])
qed

lemma length_ks_bytes [simp]: "length (ks_bytes ctr st n) = n"
  by (simp add: ks_bytes_def)

lemma aes_serve_contiguous:
  assumes "aes_inv s" "stream s = Some st" "generated s + length dst + bufSize \<le> keyBudget"
  shows "\<exists>out s'. aes_serve ctr dst s e = Some (0, out, s', e) \<and> length out = length dst \<and>
    out @ pending s' = pending s @ ks_bytes ctr st (generated s' - generated s)"
proof -
  define served where "served = take (length dst) (drop (off s) (buf s))"
  define rest where "rest = drop (length served) dst"
  let ?s2 = "s\<lparr>off := off s + length served\<rparr>"
  have len: "length served + length rest = length dst" by (simp add: served_def rest_def)
  have drained: "rest \<noteq> [] \<Longrightarrow> served = pending s \<and> off s + length served = length (buf s)"
    using assms(1) by (auto simp: served_def rest_def pending_def aes_inv_def)
  consider "bufSize \<le> length rest" | "0 < length rest" "length rest < bufSize" | "rest = []"
    by fastforce
  then show ?thesis
  proof cases
    case 1
    then have ne: "rest \<noteq> []" by (auto simp: bufSize_def)
    let ?n = "length rest"
    let ?s3 = "?s2\<lparr>stream := Some (st\<lparr>st_pos := st_pos st + ?n\<rparr>), generated := generated s + ?n\<rparr>"
    have "generate ctr (replicate ?n 0) ?s2 e = Some (0, ks_bytes ctr st ?n, ?s3, e)"
      using generate_within_budget [of ?s2 st ?n ctr e] assms len ne by simp
    then have "aes_serve ctr dst s e = Some (0, served @ ks_bytes ctr st ?n, ?s3, e)"
      using 1 unfolding aes_serve_def Let_def served_def [symmetric] rest_def [symmetric] by simp
    with drained [OF ne] len show ?thesis by (simp add: pending_def)
  next
    case 2
    let ?s3 = "?s2\<lparr>stream := Some (st\<lparr>st_pos := st_pos st + bufSize\<rparr>),
                    generated := generated s + bufSize\<rparr>"
    let ?ks = "ks_bytes ctr st bufSize"
    have "generate ctr (replicate bufSize 0) ?s2 e = Some (0, ?ks, ?s3, e)"
      using generate_within_budget [of ?s2 st bufSize ctr e] assms by (simp add: bufSize_def)
    then have "aes_serve ctr dst s e = Some (0, served @ take (length rest) ?ks,
        ?s3\<lparr>buf := ?ks, off := length rest\<rparr>, e)"
      using 2 unfolding aes_serve_def Let_def served_def [symmetric] rest_def [symmetric] by simp
    with 2 drained len show ?thesis by (simp add: pending_def)
  next
    case 3
    then have "served @ drop (off s + length served) (buf s) = pending s"
      by (simp add: served_def rest_def pending_def)
        (metis add.commute append_take_drop_id drop_drop)
    with 3 len show ?thesis
      unfolding aes_serve_def Let_def served_def [symmetric] rest_def [symmetric]
      by (auto simp: pending_def bufSize_def ks_bytes_def)
  qed
qed


text \<open>
  A refill that crosses the key budget is finished under the new key, and what the buffer
  keeps of it starts with bytes of the old one.
\<close>

lemma generate_across_budget:
  assumes "stream s = Some st" "generated s + k = keyBudget" "0 < k" "0 < n" "n \<le> keyBudget"
    "length (key s) = 32" "readFull (key s) e = (True, key', e1)" "now e1 = (t, e2)"
  shows "generate ctr (replicate (k + n) 0) s e =
    Some (0, ks_bytes ctr st k @ ks_bytes ctr \<lparr>st_key = key', st_iv = iv s, st_pos = 0\<rparr> n,
          s\<lparr>off := bufSize, key := key', keyedAt := t, generated := n,
            stream := Some \<lparr>st_key = key', st_iv = iv s, st_pos = n\<rparr>\<rparr>, e2)"
proof -
  let ?s1 = "s\<lparr>stream := Some (st\<lparr>st_pos := st_pos st + k\<rparr>), generated := keyBudget\<rparr>"
  let ?st = "\<lparr>st_key = key', st_iv = iv s, st_pos = 0\<rparr>"
  let ?s2 = "s\<lparr>off := bufSize, key := key', keyedAt := t, generated := 0, stream := Some ?st\<rparr>"
  have "length key' = 32" using assms(6,7) by (auto dest: readFull_length)
  then have re: "rekey ?s1 e = (True, ?s2, e2)" using assms(7,8) by (simp add: rekey_def)
  have "generate ctr (replicate n 0) ?s1 e = generate ctr (replicate n 0) ?s2 e2"
    using assms(4) re by (simp add: generate.simps [of ctr "replicate n 0"] keyBudget_def)
  also have "\<dots> = Some (0, ks_bytes ctr ?st n,
      ?s2\<lparr>stream := Some (?st\<lparr>st_pos := n\<rparr>), generated := n\<rparr>, e2)"
    using generate_within_budget [of ?s2 ?st n ctr e2] assms(4,5) by simp
  finally have tail: "generate ctr (replicate n 0) ?s1 e =
      Some (0, ks_bytes ctr ?st n, ?s2\<lparr>stream := Some (?st\<lparr>st_pos := n\<rparr>), generated := n\<rparr>, e2)" .
  have "min (k + n) (keyBudget - generated s) = k" "generated s < keyBudget"
    using assms(2,3) by simp_all
  then show ?thesis
    using assms(1-3) tail
    by (subst generate.simps) (simp add: xorKeyStream_zeros)
qed

section \<open>Properties\<close>

text \<open>C38. An AES-stream draw always returns, fills the destination with bytes of its own length,
  answers success or WASI's EIO and nothing else, and keeps the source's invariant: the
  keystream generated under one key never exceeds the budget of 1 MiB.\<close>

theorem aes_fill_keeps_budget:
  assumes "aes_inv s"
  shows "\<exists>code out s' e'. aes_fill ctr dst s e = Some (code, out, s', e') \<and>
    length out = length dst \<and> aes_inv s' \<and> generated s' \<le> 1048576 \<and> (code = 0 \<or> code = 29)"
  using aes_fill_total [OF assms, of ctr dst e]
  by (auto simp: aes_inv_def keyBudget_def wasiEIO_def)

theorem aes_fill_keeps_budget_witness:
  "aes_inv newAESSource \<and>
   (\<exists>code out s' e'. aes_fill (\<lambda>k i p. 0) [1] newAESSource \<lparr>reads = [], clock = []\<rparr> =
      Some (code, out, s', e') \<and> length out = 1 \<and> aes_inv s' \<and> generated s' \<le> 1048576 \<and>
      (code = 0 \<or> code = 29))"
  using aes_fill_keeps_budget
    [OF aes_inv_new, of "\<lambda>k i p. 0" "[1]" "\<lparr>reads = [], clock = []\<rparr>"] aes_inv_new
  by simp

text \<open>C37. While its key serves, the AES source hands out one contiguous keystream: what a draw
  returns, followed by what is left buffered, is what was buffered followed by the next
  keystream bytes, so no byte is skipped and none is served twice.\<close>

theorem aes_fill_contiguous:
  assumes "aes_inv s" "stream s = Some st" "now e = (t, e')" "t - keyedAt s < keyLifetime"
    "generated s + length dst + bufSize \<le> keyBudget"
  shows "\<exists>out s'. aes_fill ctr dst s e = Some (0, out, s', if dst = [] then e else e') \<and>
    length out = length dst \<and>
    out @ pending s' = pending s @ ks_bytes ctr st (generated s' - generated s)"
  using assms aes_serve_contiguous [OF assms(1,2,5), of ctr e']
  by (auto simp: aes_fill_def key_expired_def pending_def ks_bytes_def)

definition sample_source :: aes_source where
  "sample_source = newAESSource\<lparr>stream := Some \<lparr>st_key = replicate 32 1, st_iv = replicate 16 0,
     st_pos = 1048476\<rparr>, generated := 1048476\<rparr>"

lemma sample_source_inv: "aes_inv sample_source"
  by (simp add: sample_source_def newAESSource_def aes_inv_def keyBudget_def bufSize_def)

theorem aes_fill_contiguous_witness:
  "\<exists>out s'. aes_fill (\<lambda>k i p. of_nat p) [0]
      (sample_source\<lparr>stream := Some \<lparr>st_key = replicate 32 1, st_iv = replicate 16 0,
         st_pos = 5\<rparr>, generated := 5\<rparr>) \<lparr>reads = [], clock = [9]\<rparr> =
      Some (0, out, s', \<lparr>reads = [], clock = []\<rparr>) \<and> length out = 1 \<and>
      out @ pending s' = ks_bytes (\<lambda>k i p. of_nat p)
         \<lparr>st_key = replicate 32 1, st_iv = replicate 16 0, st_pos = 5\<rparr> (generated s' - 5)"
  using aes_fill_contiguous [of "sample_source\<lparr>stream := Some \<lparr>st_key = replicate 32 1,
      st_iv = replicate 16 0, st_pos = 5\<rparr>, generated := 5\<rparr>"
      "\<lparr>st_key = replicate 32 1, st_iv = replicate 16 0, st_pos = 5\<rparr>"
      "\<lparr>reads = [], clock = [9]\<rparr>" 9 "\<lparr>reads = [], clock = []\<rparr>" "[0]" "\<lambda>k i p. of_nat p"]
  by (simp add: sample_source_def newAESSource_def aes_inv_def keyBudget_def bufSize_def
      keyLifetime_def now_def pending_def)

text \<open>C39. A refill that crosses the 1 MiB key budget is finished under a fresh key, and the rest of
  the refill that stays buffered begins with keystream of the old key, although the source's
  key time is now that of the new one.\<close>

theorem refill_across_budget:
  assumes "aes_inv s" "stream s = Some st" "pending s = []" "generated s + k = keyBudget"
    "0 < length dst" "length dst < k" "k < bufSize"
    "readFull (key s) e = (True, key', e1)" "now e1 = (t, e2)"
  shows "\<exists>s'. aes_serve ctr dst s e = Some (0, take (length dst) (ks_bytes ctr st k), s', e2) \<and>
    pending s' = drop (length dst) (ks_bytes ctr st k) @
      ks_bytes ctr \<lparr>st_key = key', st_iv = iv s, st_pos = 0\<rparr> (bufSize - k) \<and>
    keyedAt s' = t \<and> generated s' = bufSize - k"
proof -
  have off: "off s = bufSize" "length (buf s) = bufSize"
    using assms(1,3) by (auto simp: pending_def aes_inv_def)
  have "replicate bufSize 0 = replicate (k + (bufSize - k)) (0 :: u8)" using assms(7) by simp
  moreover have "bufSize - k \<le> keyBudget" by (simp add: bufSize_def keyBudget_def)
  ultimately show ?thesis
    using assms off generate_across_budget
      [of "s\<lparr>off := bufSize\<rparr>" st k "bufSize - k" e key' e1 t e2 ctr]
    by (simp add: aes_serve_def aes_inv_def pending_def Let_def)
qed

theorem refill_across_budget_witness:
  "\<exists>s'. aes_serve (\<lambda>k i p. hd k) [0] sample_source
        \<lparr>reads = [ReadOk (replicate 32 2)], clock = [999999999]\<rparr> =
      Some (0, take 1 (ks_bytes (\<lambda>k i p. hd k) \<lparr>st_key = replicate 32 1, st_iv = replicate 16 0,
         st_pos = 1048476\<rparr> 100), s', \<lparr>reads = [], clock = []\<rparr>) \<and>
     pending s' = drop 1 (ks_bytes (\<lambda>k i p. hd k) \<lparr>st_key = replicate 32 1, st_iv = replicate 16 0,
         st_pos = 1048476\<rparr> 100) @ ks_bytes (\<lambda>k i p. hd k) \<lparr>st_key = replicate 32 2,
         st_iv = replicate 16 0, st_pos = 0\<rparr> 412 \<and>
     keyedAt s' = 999999999 \<and> generated s' = 412"
  using refill_across_budget [OF sample_source_inv,
      of "\<lparr>st_key = replicate 32 1, st_iv = replicate 16 0, st_pos = 1048476\<rparr>" 100 "[0]"
        "\<lparr>reads = [ReadOk (replicate 32 2)], clock = [999999999]\<rparr>" "replicate 32 2"
        "\<lparr>reads = [], clock = [999999999]\<rparr>" 999999999 "\<lparr>reads = [], clock = []\<rparr>" "\<lambda>k i p. hd k"]
  by (simp add: sample_source_def newAESSource_def keyBudget_def bufSize_def now_def pending_def
      readFull_def)

end
