(* ===== verification/Host_Random.thy ===== *)
theory Host_Random
  imports Core_Module Random_Source
begin

text \<open>
  The host's side of the core's one import: \<open>Xrandom_get\<close> of \<open>src/go/core.go\<close> fills a range of
  the module's memory from the instance's random source. It meets the contract the core's
  generators rely on.
\<close>

text \<open>
  \<open>in.mem()[ptr : ptr+n]\<close>: a negative bound, an upper bound below the lower one (the sum
  wraps) or one past the memory panics. The source writes into the slice, so whatever it wrote
  before it failed stays there.
\<close>

definition Xrandom_get :: "keystream \<Rightarrow> (source \<times> os_env) wasi" where
  "Xrandom_get ctr ptr n m s =
     (if ptr <s 0 \<or> ptr + n <s ptr \<or> msize m < unat (ptr + n) then None
      else do { (code, out, s') \<leftarrow> fill ctr (bytes_at m (unat ptr) (unat (ptr + n) - unat ptr)) s;
                Some (code, put_bytes (unat ptr) out m, s') })"

text \<open>The draw as a total function: on a well-formed source \<open>fill\<close> returns.\<close>

definition host_draw ::
    "keystream \<Rightarrow> u8 list \<Rightarrow> source \<times> os_env \<Rightarrow> i32 \<times> u8 list \<times> source \<times> os_env"
where
  "host_draw ctr bs s = (case fill ctr bs s of Some r \<Rightarrow> r | None \<Rightarrow> (wasiEIO, bs, s))"

lemma host_draw_fill:
  "source_inv s \<Longrightarrow> host_draw ctr bs s = r \<Longrightarrow> fill ctr bs s = Some r"
  using fill_total [of s ctr bs] by (auto simp: host_draw_def)

lemma host_draw_ignores:
  assumes "source_inv s" "host_draw ctr bs s = (code, out, s')" "length bs' = length bs"
  shows "\<exists>out'. host_draw ctr bs' s = (code, out', s') \<and> (code = 0 \<longrightarrow> out' = out)"
  using fill_ignores [OF host_draw_fill [OF assms(1,2)] assms(3)] by (auto simp: host_draw_def)

lemma sint_small: "unat (p :: i32) < 2147483648 \<Longrightarrow> sint p = int (unat p)"
  by (simp add: sint_uint uint_nat signed_take_bit_int_eq_self del: of_nat_unat)

lemma Xrandom_get_fill:
  assumes "unat p + unat n \<le> msize m" "unat p + unat n < 2147483648"
    "fill ctr (bytes_at m (unat p) (unat n)) s = Some (code, out, s')"
  shows "Xrandom_get ctr p n m s = Some (code, put_bytes (unat p) out m, s')"
proof -
  have sum: "unat (p + n) = unat p + unat n" using assms(2) by (simp add: unat_plus_i32)
  then have "sint (p + n) = int (unat p + unat n)" "sint p = int (unat p)"
    using assms(2) by (simp_all add: sint_small)
  then have "\<not> p <s 0" "\<not> p + n <s p" by (simp_all add: word_sless_alt)
  with assms sum show ?thesis by (simp add: Xrandom_get_def)
qed

interpretation host: wasi_random "Xrandom_get ctr" "host_draw ctr" source_inv for ctr
proof unfold_locales
  fix s bs code out s'
  assume "source_inv s" "host_draw ctr bs s = (code, out, s')"
  then show "length out = length bs" "source_inv s'"
    using fill_total [of s ctr bs] by (auto simp: host_draw_def)
next
  fix s m code out s' and p n :: i32
  assume "source_inv s" "host_draw ctr (bytes_at m (unat p) (unat n)) s = (code, out, s')"
    "unat p + unat n \<le> msize m" "unat p + unat n < 2147483648"
  then show "Xrandom_get ctr p n m s = Some (code, put_bytes (unat p) out m, s')"
    by (blast intro: Xrandom_get_fill host_draw_fill)
qed

end
