(* ===== verification/Core_V4.thy ===== *)
theory Core_V4
  imports Host_Random
begin

text \<open>
  \<open>Xuuid_new_v4\<close> of \<open>src/go/internal/core/core.go\<close>: sixteen random bytes drawn onto the stack,
  stamped with version 4 and the RFC variant and copied to the caller's address.
\<close>

definition Xuuid_new_v4 ::
    "'s wasi \<Rightarrow> core_module \<Rightarrow> 's \<Rightarrow> i32 \<Rightarrow> (i32 \<times> core_module \<times> 's) option"
where
  "Xuuid_new_v4 rg md s v0 =
     (let v1 = g0 md - 32; a = unat v1; b = unat v0; md = md\<lparr>g0 := v1\<rparr> in
      do { m \<leftarrow> store64 (memory md) (a + 24) 0;
           m \<leftarrow> store64 m (a + 16) 0;
           (t1, md, s) \<leftarrow> fn0 rg (md\<lparr>memory := m\<rparr>) s (v1 + 16) 16;
           if t1 \<noteq> 0 then Some (1, md\<lparr>g0 := v1 + 32\<rparr>, s) else
      do { let m = memory md;
           v2 \<leftarrow> load8_u32 m (a + 18);
           m \<leftarrow> store8 m (a + 14) (ucast v2);
           t4 \<leftarrow> load16 m (a + 16);
           let v3 = (ucast t4 :: i32);
           m \<leftarrow> store16 m (a + 12) (ucast v3);
           v4 \<leftarrow> load8_u32 m (a + 22);
           t7 \<leftarrow> load16 m (a + 19);
           let v5 = (ucast t7 :: i32);
           v6 \<leftarrow> load8_u32 m (a + 21);
           v7 \<leftarrow> load8_u32 m (a + 23);
           v8 \<leftarrow> load8_u32 m (a + 24);
           t11 \<leftarrow> load32 m (a + 28);
           m \<leftarrow> store32 m (a + 7) t11;
           t12 \<leftarrow> load32 m (a + 25);
           m \<leftarrow> store32 m (a + 4) t12;
           m \<leftarrow> store8 m (b + 2) (ucast v2);
           m \<leftarrow> store16 m b (ucast v3);
           m \<leftarrow> store8 m (b + 8) (ucast ((v8 AND 63) OR 128));
           m \<leftarrow> store8 m (b + 7) (ucast v7);
           m \<leftarrow> store32 m (b + 3) (push_bit 24 (v4 AND 15) OR (v5 OR push_bit 16 v6) OR 0x40000000);
           t13 \<leftarrow> load32 m (a + 4);
           m \<leftarrow> store32 m (b + 9) t13;
           t14 \<leftarrow> load32 m (a + 7);
           m \<leftarrow> store32 m (b + 12) t14;
           Some (0, md\<lparr>memory := m, g0 := v1 + 32\<rparr>, s) }})"

section \<open>What it writes\<close>

definition stamp :: "nat \<Rightarrow> u8 list \<Rightarrow> u8 list" where
  "stamp v r = r[6 := of_nat (16 * v) OR (r ! 6 AND 0x0f), 8 := 0x80 OR (r ! 8 AND 0x3f)]"

text \<open>
  \<open>core_same m m'\<close>: the stack pointer is back and nothing above the stack differs.
\<close>

definition core_same :: "core_module \<Rightarrow> core_module \<Rightarrow> bool" where
  "core_same m m' \<longleftrightarrow> g0 m' = g0 m \<and> same_above_stack (memory m) (memory m')"

lemma same_above_stack_put_16:
  assumes "length u = 16" "msize m' = msize m"
    "f a = u ! 0" "f (Suc a) = u ! 1" "f (Suc (Suc a)) = u ! 2" "f (a + 3) = u ! 3"
    "f (a + 4) = u ! 4" "f (a + 5) = u ! 5" "f (a + 6) = u ! 6" "f (a + 7) = u ! 7"
    "f (a + 8) = u ! 8" "f (a + 9) = u ! 9" "f (a + 10) = u ! 10" "f (a + 11) = u ! 11"
    "f (a + 12) = u ! 12" "f (a + 13) = u ! 13" "f (a + 14) = u ! 14" "f (a + 15) = u ! 15"
    "\<And>x. 65536 \<le> x \<Longrightarrow> x < a \<or> a + 16 \<le> x \<Longrightarrow> f x = mbytes m x"
  shows "same_above_stack (put_bytes a u m) (m'\<lparr>mbytes := f\<rparr>)"
proof -
  have "f x = u ! (x - a)" if "a \<le> x" "x < a + 16" for x
  proof -
    define i where "i = x - a"
    have "x = a + i" "i < 16" using that by (simp_all add: i_def)
    then show ?thesis using assms(3-18) by (auto simp: eval_nat_numeral less_Suc_eq)
  qed
  then show ?thesis
    using assms(1,2,19) by (auto simp: same_above_stack_def mbytes_put_bytes not_le not_less)
qed

context wasi_random
begin

lemma new_v4_spec:
  assumes "core_ok md" "arg_ok md p 16" "inv s" "draw (replicate 16 0) s = (code, r, s')"
  shows "\<exists>md'. Xuuid_new_v4 rg md s p = Some (if code = 0 then 0 else 1, md', s') \<and> inv s' \<and>
    core_same (if code = 0 then md\<lparr>memory := put_bytes (unat p) (stamp 4 r) (memory md)\<rparr> else md) md'"
proof -
  define m0 where "m0 = put_bytes 65520 (replicate 16 0) (memory md)"
  have ok: "g0 md = 65536" "131072 \<le> unat p" "unat p + 16 \<le> msize (memory md)" "131072 \<le> msize (memory md)"
    using assms(1,2) by (simp_all add: core_ok_def arg_ok_def)
  have r: "length r = 16" "inv s'" using draw_length draw_inv assms(3,4) by fastforce+
  let ?at = "\<lambda>bs. md\<lparr>g0 := 65504, memory := put_bytes 65520 bs (memory md)\<rparr>"
  have zero: "store64 (memory md) 65528 0 = Some (put_bytes 65528 (replicate 8 0) (memory md))"
    "store64 (put_bytes 65528 (replicate 8 0) (memory md)) 65520 0 =
       Some (put_bytes 65520 (replicate 16 0) (memory md))"
    using ok by (simp_all add: store64_put_bytes le_bytes8_0 put_bytes_append flip: replicate_add)
  have fn0: "fn0 rg (?at (replicate 16 0)) s 65520 16 = Some (code, ?at r, s')"
    using fn0_draw(1) [of s 65520 16 "?at (replicate 16 0)" code r s'] assms(3,4) ok r by simp
  show ?thesis
  proof (cases "code = 0")
    case False
    with ok zero fn0 r show ?thesis
      by (simp add: Xuuid_new_v4_def Let_def core_same_def same_above_stack_def mbytes_put_bytes)
  next
    case True
    from r(1) obtain b0 b1 b2 b3 b4 b5 b6 b7 b8 b9 b10 b11 b12 b13 b14 b15
      where u: "r = [b0, b1, b2, b3, b4, b5, b6, b7, b8, b9, b10, b11, b12, b13, b14, b15]"
      by (elim length_16_cases)
    define m where "m = put_bytes 65520 r (memory md)"
    have m: "msize m = msize (memory md)" "\<And>x. 65536 \<le> x \<Longrightarrow> mbytes m x = mbytes (memory md) x"
      "mbytes m 65520 = b0" "mbytes m 65521 = b1" "mbytes m 65522 = b2" "mbytes m 65523 = b3"
      "mbytes m 65524 = b4" "mbytes m 65525 = b5" "mbytes m 65526 = b6" "mbytes m 65527 = b7"
      "mbytes m 65528 = b8" "mbytes m 65529 = b9" "mbytes m 65530 = b10" "mbytes m 65531 = b11"
      "mbytes m 65532 = b12" "mbytes m 65533 = b13" "mbytes m 65534 = b14" "mbytes m 65535 = b15"
      by (simp_all add: m_def u mbytes_put_bytes)
    note fn0' = fn0 [folded m_def]
    show ?thesis
      using True ok m
      apply (simp add: Xuuid_new_v4_def Let_def mem_simps store_upds core_same_def \<open>inv s'\<close> fn0' zero)
      apply (rule same_above_stack_put_16)
      prefer 19
      subgoal by auto
      apply (simp_all add: stamp_def u)
      by (rule eq_bits_u8; simp add: bit_eval bit_le16 bit_le32)+
  qed
qed

end

end
