(* ===== verification/Core_V7.thy ===== *)
theory Core_V7
  imports V7_Stream Core_V4
begin

text \<open>
  \<open>Xuuid_new_v7\<close> of \<open>src/go/internal/core/core.go\<close>: the draw, the reservation of one step of
  the stream in the word at address 65560, and the layout of the value.
\<close>

section \<open>The reservation\<close>

text \<open>
  The stream word is updated by a compare-and-swap loop, shared by \<open>Xuuid_new_v7\<close> and
  \<open>Xuuid_new_v7_batch\<close> up to the decision it takes on the word it read: fail with
  code 6 (\<open>CasFull\<close>), leave the stream alone (\<open>CasOut\<close>), or write a new word (\<open>CasNew\<close> of the
  first step, its timestamp and the word). The loop writes back what it finds when that is not
  the word it decided on, and decides again.
\<close>

datatype cas_step = CasFull | CasOut | CasNew i32 i64 i64
datatype cas_result = Full | Out | Taken mem i32 i64

function cas_loop :: "(i64 \<Rightarrow> cas_step) \<Rightarrow> mem \<Rightarrow> i64 \<Rightarrow> cas_result option" where
  "cas_loop step m v11 =
     (case step v11 of
        CasFull \<Rightarrow> Some Full
      | CasOut \<Rightarrow> Some Out
      | CasNew v8 v9 v10 \<Rightarrow>
          (case load64 m 65560 of None \<Rightarrow> None
           | Some t7 \<Rightarrow>
               (case store64 m 65560 (if t7 = v11 then v10 else t7) of None \<Rightarrow> None
                | Some m' \<Rightarrow> if t7 \<noteq> v11 then cas_loop step m' t7 else Some (Taken m' v8 v9))))"
  by pat_completeness auto

lemma load_store_same:
  "load64 m a = Some w \<Longrightarrow> store64 m a w = Some m' \<Longrightarrow> load64 m' a = Some w"
  by (auto simp: load64_def store64_def split: if_splits)

text \<open>The loop ends: once the word decided on is the one in memory, the swap succeeds.\<close>

termination cas_loop
  by (relation "measure (\<lambda>(step, m, v). if load64 m 65560 = Some v then 0 else 1)")
    (auto dest: load_store_same)

declare cas_loop.simps [simp del]

definition v7_step :: "i64 \<Rightarrow> i32 \<Rightarrow> i64 \<Rightarrow> i64 \<Rightarrow> cas_step" where
  "v7_step v0 v5 v7 v11 =
     (let v4 = drop_bit 20 v11 in
      if v4 = 0 then CasNew v5 v0 v7 else
      let v12 = v4 + (- 1) in
      if v12 < v0 then CasNew v5 v0 v7 else
      if v12 - v0 > 11000 then CasOut else
      let v8 = ucast v11 AND 0xfffff in
      if v8 \<noteq> 0xfffff then
        CasNew (v8 + 1) v12 (((v11 + 1) AND 0xfffff) OR (v11 AND (- 0x100000)))
      else if v4 = 0xfffffffffff then CasFull
      else if v4 - v0 > 1000 then CasFull
      else CasNew 0x100000 v12 ((v11 AND (- 0x100000)) + 0x100000))"

text \<open>From the label \<open>l8\<close>: the value's octets are put together on the stack and copied out.\<close>

definition v7_emit :: "mem \<Rightarrow> i32 \<Rightarrow> i32 \<Rightarrow> i32 \<Rightarrow> i32 \<Rightarrow> i64 \<Rightarrow> mem option" where
  "v7_emit m v2 v1 v6 v8 v9 =
     (let a = unat v2; b = unat v1;
          v5 = (if v8 > 0xfffff then 1 else 0 :: i32);
          v4 = v9 + ucast v5 in
      do { m \<leftarrow> store8 m (a + 21) (ucast v4);
           m \<leftarrow> store8 m (a + 17) (ucast (drop_bit 32 v4));
           m \<leftarrow> store8 m (a + 16) (ucast (drop_bit 40 v4));
           let t14 = v6 AND 63;
           let v8 = push_bit 6 v8;
           let v8 = (if v5 \<noteq> 0 then v8 + (- 0x4000000) else v8);
           m \<leftarrow> store8 m (a + 25) (ucast (t14 OR v8));
           m \<leftarrow> store8 m (a + 23) (ucast (drop_bit 14 v8));
           m \<leftarrow> store8 m (a + 20) (ucast (drop_bit 8 v4));
           m \<leftarrow> store8 m (a + 19) (ucast (drop_bit 16 v4));
           let v4 = drop_bit 24 v4;
           m \<leftarrow> store8 m (a + 18) (ucast v4);
           m \<leftarrow> store8 m (a + 24) (ucast ((drop_bit 8 v8 AND 63) OR 128));
           m \<leftarrow> store8 m (a + 22) (ucast ((drop_bit 22 v8 AND 15) OR 112));
           m \<leftarrow> store8 m (a + 14) (ucast v4);
           t17 \<leftarrow> load16 m (a + 16);
           let v8 = (ucast t17 :: i32);
           m \<leftarrow> store16 m (a + 12) (ucast v8);
           v4 \<leftarrow> load64 m (a + 19);
           v0 \<leftarrow> load32 m (a + 27);
           t21 \<leftarrow> load8 m (unat (v2 + 16 + 15));
           m \<leftarrow> store8 m (unat (v1 + 15)) t21;
           m \<leftarrow> store32 m (b + 11) v0;
           t22 \<leftarrow> load8 m (a + 14);
           m \<leftarrow> store8 m (b + 2) t22;
           m \<leftarrow> store16 m b (ucast v8);
           store64 m (b + 3) v4 })"

definition Xuuid_new_v7 ::
    "'s wasi \<Rightarrow> core_module \<Rightarrow> 's \<Rightarrow> i64 \<Rightarrow> i32 \<Rightarrow> (i32 \<times> core_module \<times> 's) option"
where
  "Xuuid_new_v7 rg md s v0 v1 =
     (let v2 = g0 md - 32; a = unat v2; md = md\<lparr>g0 := v2\<rparr> in
      if v0 > 253402300799999 then Some (2, md\<lparr>g0 := v2 + 32\<rparr>, s) else
      do { m \<leftarrow> store64 (memory md) (a + 24) 0;
           m \<leftarrow> store64 m (a + 16) 0;
           (t1, md, s) \<leftarrow> fn0 rg (md\<lparr>memory := m\<rparr>) s ((v2 + 16) OR 5) 11;
           if t1 \<noteq> 0 then Some (1, md\<lparr>g0 := v2 + 32\<rparr>, s) else
      do { let m = memory md;
           t2 \<leftarrow> load8_u64 m (a + 23);
           t3 \<leftarrow> load8_u64 m (a + 22);
           t4 \<leftarrow> load8_u64 m (a + 24);
           let v4 = drop_bit 32 (push_bit 35 t2 OR push_bit 27 t3 OR push_bit 43 t4);
           let v5 = (ucast v4 :: i32);
           v6 \<leftarrow> load8_u32 m (a + 25);
           res \<leftarrow> (if v0 > 0xffffffffffe then Some Out
                   else do { let v7 = (push_bit 20 v0 OR v4) + 0x100000;
                             t6 \<leftarrow> load64 m 65560;
                             cas_loop (v7_step v0 v5 v7) m t6 });
           case res of
             Full \<Rightarrow> Some (6, md\<lparr>g0 := v2 + 32\<rparr>, s)
           | Out \<Rightarrow> do { m \<leftarrow> v7_emit m v2 v1 v6 v5 v0; Some (0, md\<lparr>memory := m, g0 := v2 + 32\<rparr>, s) }
           | Taken m v8 v9 \<Rightarrow>
               do { m \<leftarrow> v7_emit m v2 v1 v6 v8 v9; Some (0, md\<lparr>memory := m, g0 := v2 + 32\<rparr>, s) } }})"

lemma mask_20: "x AND 0xfffff = take_bit 20 (x :: i64)" "y AND 0xfffff = take_bit 20 (y :: i32)"
  by (simp_all add: take_bit_eq_mask mask_eq_exp_minus_1)

lemma high_44: "(x :: i64) AND (- 0x100000) = push_bit 20 (drop_bit 20 x)"
proof -
  have "(- 0x100000 :: i64) = NOT (mask 20)" by (simp add: mask_eq_exp_minus_1 not_eq_complement)
  show ?thesis unfolding \<open>_ = NOT (mask 20)\<close> by (rule bit_word_eqI) (auto simp: bit_simps)
qed

lemma unat_low_20: "unat (ucast (v :: i64) AND 0xfffff :: i32) = unat v mod 2 ^ 20"
proof -
  have "unat (ucast v :: i32) = unat v mod 2 ^ 32"
    by (simp add: unsigned_ucast_eq take_bit_eq_mod [of _ "unat v"])
  then show ?thesis by (simp add: mask_20 unat_take_bit mod_mod_cancel)
qed

lemma join_20:
  fixes x y :: i64
  assumes "unat y < 2 ^ 44"
  shows "unat (take_bit 20 x OR push_bit 20 y) = unat y * 2 ^ 20 + unat x mod 2 ^ 20"
    "unat (push_bit 20 y OR take_bit 20 x) = unat y * 2 ^ 20 + unat x mod 2 ^ 20"
proof -
  have "2 ^ 20 * (unat y + 1) \<le> 2 ^ 20 * 2 ^ 44" using assms by (intro mult_le_mono2) simp
  then show "unat (take_bit 20 x OR push_bit 20 y) = unat y * 2 ^ 20 + unat x mod 2 ^ 20"
    by (subst unat_or_push_bit) (simp_all add: unat_take_bit)
  then show "unat (push_bit 20 y OR take_bit 20 x) = unat y * 2 ^ 20 + unat x mod 2 ^ 20"
    by (simp add: or.commute)
qed

text \<open>\<open>first_step b v8 v9\<close>: step \<open>b\<close> of the stream in the code's two variables.\<close>

definition first_step :: "nat \<Rightarrow> i32 \<Rightarrow> i64 \<Rightarrow> bool" where
  "first_step b v8 v9 \<longleftrightarrow> unat v8 < 2 ^ 21 \<and> unat v9 < 2 ^ 48 \<and>
     b = (unat v9 + 1) * 2 ^ 20 + unat v8"

fun step_of_plan :: "v7_plan \<Rightarrow> nat \<Rightarrow> cas_step \<Rightarrow> bool" where
  "step_of_plan Refused k d \<longleftrightarrow> d = CasFull"
| "step_of_plan OutOfStream k d \<longleftrightarrow> d = CasOut"
| "step_of_plan (Reserved b) k d \<longleftrightarrow>
     (\<exists>v8 v9. d = CasNew v8 v9 (of_nat (b + k - 1)) \<and> first_step b v8 v9 \<and> unat v8 \<le> 2 ^ 20)"

lemma v7_step_spec:
  assumes v0: "unat v0 \<le> 17592186044414" and seed: "unat v5 < 2 ^ 20"
    and v7: "v7 = of_nat ((unat v0 + 1) * 2 ^ 20 + unat v5)"
  shows "step_of_plan (v7_plan 1 (unat v11) (unat v0) (unat v5)) 1 (v7_step v0 v5 v7 v11)"
proof -
  define hi low n where "hi = unat v11 div 2 ^ 20" and "low = unat v11 mod 2 ^ 20" and "n = unat v0"
  have S: "unat v11 = hi * 2 ^ 20 + low" "low < 2 ^ 20" by (simp_all add: hi_def low_def)
  have hi: "hi < 2 ^ 44" using unat_i64_less [of v11] by (simp add: hi_def less_mult_imp_div_less)
  have v4: "unat (drop_bit 20 v11) = hi" by (simp add: unat_drop_bit hi_def)
  have fresh: "step_of_plan (Reserved ((n + 1) * 2 ^ 20 + unat v5)) 1 (CasNew v5 v0 v7)"
    using assms by (simp add: first_step_def n_def)
  have zero: "drop_bit 20 v11 = 0 \<longleftrightarrow> hi = 0" using v4 by (metis unat_eq_0)
  define v12 where "v12 = drop_bit 20 v11 + (- 1)"
  have v12: "unat v12 = hi - 1" if "hi \<noteq> 0"
    using unat_minus_one [of "drop_bit 20 v11"] that v4 zero by (simp add: v12_def)
  have less: "v12 < v0 \<longleftrightarrow> hi - 1 < n" if "hi \<noteq> 0"
    using v12 that by (simp add: word_less_nat_alt n_def)
  define v8 where "v8 = (ucast v11 AND 0xfffff :: i32)"
  have v8: "unat v8 = low" by (simp only: v8_def unat_low_20 low_def)
  have step: "v7_step v0 v5 v7 v11 =
      (if drop_bit 20 v11 = 0 then CasNew v5 v0 v7 else if v12 < v0 then CasNew v5 v0 v7
       else if v12 - v0 > 11000 then CasOut
       else if v8 \<noteq> 0xfffff then CasNew (v8 + 1) v12 (((v11 + 1) AND 0xfffff) OR (v11 AND (- 0x100000)))
       else if drop_bit 20 v11 = 0xfffffffffff then CasFull
       else if drop_bit 20 v11 - v0 > 1000 then CasFull
       else CasNew 0x100000 v12 ((v11 AND (- 0x100000)) + 0x100000))"
    unfolding v7_step_def Let_def v12_def v8_def ..
  show ?thesis
  proof (cases "hi = 0 \<or> hi - 1 < n")
    case True
    then have "v7_step v0 v5 v7 v11 = CasNew v5 v0 v7"
      using zero less by (auto simp: step)
    moreover have "v7_plan 1 (unat v11) n (unat v5) = Reserved ((n + 1) * 2 ^ 20 + unat v5)"
      using True v0 by (auto simp: v7_plan_def Let_def hi_def n_def)
    ultimately show ?thesis using fresh by (simp only: n_def)
  next
    case False
    then have "v0 \<le> v12" "v0 \<le> drop_bit 20 v11"
      using v12 v4 unfolding word_le_nat_alt n_def by linarith+
    then have sub: "unat (v12 - v0) = hi - 1 - n" "unat (drop_bit 20 v11 - v0) = hi - n"
      using False v12 v4 by (simp_all add: unat_sub n_def)
    have eq: "v7_step v0 v5 v7 v11 = (if 11000 < hi - 1 - n then CasOut
       else if low \<noteq> 0xfffff then CasNew (v8 + 1) v12 (((v11 + 1) AND 0xfffff) OR (v11 AND (- 0x100000)))
       else if hi = 0xfffffffffff \<or> 1000 < hi - n then CasFull
       else CasNew 0x100000 v12 ((v11 AND (- 0x100000)) + 0x100000))"
      using False zero less sub v4 v8
      by (simp add: step word_less_nat_alt word_unat_eq_iff)
    have plan: "v7_plan 1 (unat v11) n (unat v5) = (if 11000 < hi - 1 - n then OutOfStream
       else if low \<noteq> 0xfffff then Reserved (unat v11 + 1)
       else if hi = 0xfffffffffff \<or> 1000 < hi - n then Refused else Reserved (unat v11 + 1))"
    proof -
      have "v7_plan 1 (unat v11) n (unat v5) = (if 17592186044414 < n then OutOfStream
         else if hi = 0 \<or> hi - 1 < n then Reserved ((n + 1) * 2 ^ 20 + unat v5)
         else if 11000 < hi - 1 - n then OutOfStream
         else if 1 + low < 2 ^ 20 then Reserved (unat v11 + 1)
         else if hi = 17592186044415 \<or> 1000 < hi - n then Refused
         else Reserved (unat v11 + 1))"
        unfolding v7_plan_def Let_def hi_def low_def ..
      moreover have "1 + low < 2 ^ 20 \<longleftrightarrow> low \<noteq> 0xfffff" using S(2) by simp linarith
      ultimately show ?thesis using False v0 [folded n_def] by simp
    qed
    have "((v11 + 1) AND 0xfffff) OR (v11 AND (- 0x100000)) = of_nat (unat v11 + 1)" if "low \<noteq> 0xfffff"
    proof -
      have "low + 1 < 2 ^ 20" using that S(2) by simp
      then have "unat v11 + 1 = hi * 2 ^ 20 + (low + 1)" "unat v11 + 1 < 18446744073709551616"
        using S(1) hi by simp_all
      with \<open>low + 1 < 2 ^ 20\<close> have succ: "unat (v11 + 1) = unat v11 + 1" "(unat v11 + 1) mod 2 ^ 20 = low + 1"
        by (simp add: unat_plus_i64, simp only: mod_mult_self3 mod_less)
      have "unat (((v11 + 1) AND 0xfffff) OR (v11 AND (- 0x100000))) = unat v11 + 1"
        unfolding mask_20 high_44 using join_20(1) [of "drop_bit 20 v11" "v11 + 1"] v4 hi succ S(1) by simp
      then show ?thesis by (rule eq_of_natI)
    qed
    moreover have "(v11 AND (- 0x100000)) + 0x100000 = of_nat (unat v11 + 1)" if "low = 0xfffff"
    proof -
      have "v11 AND (- 0x100000) = of_nat (hi * 2 ^ 20)"
        unfolding high_44 using join_20(2) [of "drop_bit 20 v11" 0] hi v4
        by (intro eq_of_natI) simp
      then show ?thesis using S that by (simp add: S(1))
    qed
    moreover have "first_step (unat v11 + 1) (v8 + 1) v12" "unat (v8 + 1) \<le> 2 ^ 20" if "low \<noteq> 0xfffff"
    proof -
      have "low + 1 < 2 ^ 20" using that S(2) by simp
      then show "first_step (unat v11 + 1) (v8 + 1) v12" "unat (v8 + 1) \<le> 2 ^ 20"
        using S(1) False hi v12 v8 by (simp_all add: first_step_def unat_plus_1_i32)
    qed
    moreover have "first_step (unat v11 + 1) 0x100000 v12" if "low = 0xfffff" "hi \<noteq> 0xfffffffffff"
      using S that False hi v12 by (simp add: first_step_def)
    ultimately show ?thesis unfolding n_def [symmetric] plan eq by auto
  qed
qed

lemma cas_loop_spec:
  assumes "load64 m 65560 = Some w"
  shows "cas_loop step m w = Some (case step w of CasFull \<Rightarrow> Full | CasOut \<Rightarrow> Out
    | CasNew v8 v9 v10 \<Rightarrow> Taken (put_bytes 65560 (le_bytes8 v10) m) v8 v9)"
proof -
  have "65560 + 7 < msize m" using assms by (simp add: load64_def split: if_splits)
  with assms show ?thesis
    by (simp add: cas_loop.simps store64_put_bytes split: cas_step.splits)
qed

section \<open>The octets of a value\<close>

lemma stamp_or:
  fixes x :: i32
  shows "(x AND 15) OR 112 = of_nat (112 + unat x mod 16)" "(x AND 63) OR 128 = of_nat (128 + unat x mod 64)"
proof -
  have "x AND 15 = of_nat (unat x mod 16)" "x AND 63 = of_nat (unat x mod 64)"
    using unat_take_bit [of 4 x] unat_take_bit [of 6 x]
    by (intro eq_of_natI; simp add: take_bit_eq_mask mask_eq_exp_minus_1)+
  moreover have "(x AND 15) AND 112 = 0" "(x AND 63) AND 128 = 0" by (simp_all add: and.assoc)
  ultimately show "(x AND 15) OR 112 = of_nat (112 + unat x mod 16)"
    "(x AND 63) OR 128 = of_nat (128 + unat x mod 64)"
    by (simp_all add: or_eq_add)
qed

lemma ucast_of_nat_u8: "ucast (of_nat n :: i32) = (of_nat n :: u8)"
  by (simp only: word_unat_eq_iff unsigned_ucast_eq unsigned_of_nat) simp

lemma v7_bytes_words:
  fixes M :: i64 and K :: i32
  shows "v7_bytes (unat M) (unat K) tail = [ucast (drop_bit 40 M), ucast (drop_bit 32 M),
     ucast (drop_bit 24 M), ucast (drop_bit 16 M), ucast (drop_bit 8 M), ucast M,
     ucast ((drop_bit 22 K AND 15) OR 112), ucast (drop_bit 14 K),
     ucast ((drop_bit 8 K AND 63) OR 128), ucast K] @ tail"
proof -
  have byte: "of_nat (unat x div 2 ^ k) = (ucast (drop_bit k x) :: u8)" for x :: "'a::len word" and k
    by (simp flip: unat_drop_bit)
  have byte0: "of_nat (unat x) = (ucast x :: u8)" for x :: "'a::len word"
    by simp
  have "of_nat (112 + unat K div 2 ^ 22 mod 16) = (ucast ((drop_bit 22 K AND 15) OR 112) :: u8)"
    by (simp only: stamp_or ucast_of_nat_u8 unat_drop_bit)
  moreover have "of_nat (128 + unat K div 2 ^ 8 mod 64) = (ucast ((drop_bit 8 K AND 63) OR 128) :: u8)"
    by (simp only: stamp_or ucast_of_nat_u8 unat_drop_bit)
  ultimately show ?thesis by (simp only: v7_bytes_def byte byte0)
qed

text \<open>The counter word of the code: the step shifted over the six low bits.\<close>

lemma v7_uuid_words:
  fixes M :: i64 and X r :: i32
  assumes "unat M = word_millis b" "unat X = b mod 2 ^ 20"
  shows "v7_uuid b (unat r mod 64) tail = [ucast (drop_bit 40 M), ucast (drop_bit 32 M),
     ucast (drop_bit 24 M), ucast (drop_bit 16 M), ucast (drop_bit 8 M), ucast M,
     ucast ((drop_bit 22 (push_bit 6 X) AND 15) OR 112), ucast (drop_bit 14 (push_bit 6 X)),
     ucast ((drop_bit 8 (push_bit 6 X) AND 63) OR 128), ucast ((r AND 63) OR push_bit 6 X)] @ tail"
proof -
  have r: "r AND 63 = take_bit 6 r" by (simp add: take_bit_eq_mask mask_eq_exp_minus_1)
  define K where "K = (r AND 63) OR push_bit 6 X"
  have "unat X < 2 ^ 20" using assms(2) by simp
  then have "unat K = (b mod 2 ^ 20) * 64 + unat r mod 64"
    unfolding K_def r using assms(2) mod_less_divisor [of 64 "unat r"]
    by (subst unat_or_push_bit) (simp_all add: unat_take_bit del: mod_less_divisor)
  then have "v7_uuid b (unat r mod 64) tail = v7_bytes (unat M) (unat K) tail"
    by (simp add: v7_uuid_def assms(1))
  moreover have "drop_bit 22 K = drop_bit 22 (push_bit 6 X)" "drop_bit 14 K = drop_bit 14 (push_bit 6 X)"
    "drop_bit 8 K = drop_bit 8 (push_bit 6 X)"
    unfolding K_def r by (rule bit_word_eqI; simp add: bit_simps)+
  ultimately show ?thesis by (simp only: v7_bytes_words K_def)
qed

lemma first_step_words:
  assumes "first_step b v8 v9"
  defines "v5 \<equiv> (if v8 > 0xfffff then 1 else 0 :: i32)"
  obtains X where "unat (v9 + ucast v5) = word_millis b" "unat X = b mod 2 ^ 20"
    "(if v5 \<noteq> 0 then push_bit 6 v8 + (- 0x4000000) else push_bit 6 v8) = push_bit 6 X"
proof (cases "2 ^ 20 \<le> unat v8")
  case True
  define x where "x = unat v8 - 2 ^ 20"
  have v8: "unat v8 = 2 ^ 20 + x" "x < 2 ^ 20" using True assms(1) by (auto simp: x_def first_step_def)
  then have v8_eq: "v8 = of_nat (2 ^ 20 + x)" by (intro eq_of_natI)
  have "v8 > 0xfffff" using v8 by (simp add: word_less_nat_alt)
  then have v5: "v5 = 1" by (simp add: v5_def)
  have b: "b = (unat v9 + 2) * 2 ^ 20 + x" "unat v9 < 2 ^ 48"
    using assms(1) v8 by (simp_all add: first_step_def)
  show ?thesis
  proof (rule that [of "of_nat x"])
    show "unat (v9 + ucast v5) = word_millis b"
      using b(2) hi_bounds(1) [OF b(1) v8(2)] by (simp add: v5 unat_plus_i64 word_millis_def)
    show "unat (of_nat x :: i32) = b mod 2 ^ 20"
      using hi_bounds(2) [OF b(1) v8(2)] v8(2) by (simp add: unat_of_nat_i32)
  qed (simp add: v5 v8_eq push_bit_eq_mult algebra_simps)
next
  case False
  then have lt: "unat v8 < 2 ^ 20" and b: "b = (unat v9 + 1) * 2 ^ 20 + unat v8"
    using assms(1) by (simp_all add: first_step_def)
  have "\<not> v8 > 0xfffff" using lt by (simp add: word_less_nat_alt)
  then have v5: "v5 = 0" by (simp add: v5_def)
  show ?thesis
  proof (rule that [of v8])
    show "unat (v9 + ucast v5) = word_millis b" "unat v8 = b mod 2 ^ 20"
      using hi_bounds [OF b lt] by (simp_all add: v5 word_millis_def)
  qed (simp add: v5)
qed

lemma bytes_at_6:
  "bytes_at m p 6 = [mbytes m p, mbytes m (p + 1), mbytes m (p + 2), mbytes m (p + 3),
     mbytes m (p + 4), mbytes m (p + 5)]"
  by (simp add: bytes_at_def eval_nat_numeral upt_conv_Cons)

lemma v7_emit_spec:
  fixes r :: u8
  assumes b: "first_step b v8 v9" and p: "131072 \<le> unat p" "unat p + 16 \<le> msize m" "msize m \<le> 4294967296"
    and tail: "bytes_at m 65530 6 = tail"
  shows "\<exists>m'. v7_emit m 65504 p (ucast r) v8 v9 = Some m' \<and>
    same_above_stack (put_bytes (unat p) (v7_uuid b (unat r mod 64) tail) m) m'"
proof -
  define v5 where "v5 = (if v8 > 0xfffff then 1 else 0 :: i32)"
  define M where "M = v9 + ucast v5"
  obtain X where X: "unat M = word_millis b" "unat X = b mod 2 ^ 20"
    "(if v5 \<noteq> 0 then push_bit 6 v8 + (- 0x4000000) else push_bit 6 v8) = push_bit 6 X"
    using first_step_words [OF b] unfolding M_def v5_def by blast
  have p15: "unat (p + 15) = unat p + 15" using p by (simp add: unat_plus_numeral_i32)
  have t: "tail = [mbytes m 65530, mbytes m 65531, mbytes m 65532, mbytes m 65533, mbytes m 65534, mbytes m 65535]"
    unfolding tail [symmetric] bytes_at_6 by simp
  have comm: "numeral k + unat p = unat p + numeral k" for k by simp
  show ?thesis
    using p
    apply (simp add: v7_emit_def X(3) mem_simps store_upds p15 flip: v5_def M_def)
    apply (simp add: Let_def comm)
    apply (simp only: v7_uuid_words [OF X(1,2), of "ucast r", unfolded unat_ucast_u8])
    apply (rule same_above_stack_put_16)
    prefer 19
    subgoal by auto
    apply (simp_all add: t)
    by (rule eq_bits_u8; simp add: bit_eval bit_le16)+
qed

section \<open>One version 7\<close>

text \<open>The 19-bit seed of a fresh reservation comes from the second to fourth byte drawn.\<close>

definition v7_seed :: "u8 list \<Rightarrow> nat" where
  "v7_seed r = unat (r ! 1) div 2 ^ 5 + 2 ^ 3 * unat (r ! 2) + 2 ^ 11 * unat (r ! 3)"

lemma v7_seed_less: "v7_seed r < 2 ^ 19"
  using unat_u8_less [of "r ! 1"] unat_u8_less [of "r ! 2"] unat_u8_less [of "r ! 3"]
  by (simp add: v7_seed_def)

lemma seed_word:
  fixes r1 r2 r3 :: u8
  shows "unat (drop_bit 32 (push_bit 35 (ucast r2) OR push_bit 27 (ucast r1) OR push_bit 43 (ucast r3)) :: i64) =
    unat r1 div 2 ^ 5 + 2 ^ 3 * unat r2 + 2 ^ 11 * unat r3"
proof -
  have "drop_bit 32 (push_bit 35 (ucast r2) OR push_bit 27 (ucast r1) OR push_bit 43 (ucast r3)) =
      (drop_bit 5 (ucast r1) OR push_bit 3 (ucast r2) OR push_bit 11 (ucast r3) :: i64)"
    by (rule bit_word_eqI) (auto simp: bit_simps not_le bit_u8_high dest: bit_imp_le_length)
  moreover have "unat (drop_bit 5 (ucast r1 :: i64)) = unat r1 div 2 ^ 5" by (simp add: unat_drop_bit)
  then have "unat (drop_bit 5 (ucast r1) OR push_bit 3 (ucast r2) OR push_bit 11 (ucast r3) :: i64) =
      unat r1 div 2 ^ 5 + 2 ^ 3 * unat r2 + 2 ^ 11 * unat r3"
    using unat_u8_less [of r1] unat_u8_less [of r2] unfolding or.assoc [symmetric]
    by (intro unat_or_push_byte) simp_all
  ultimately show ?thesis by simp
qed

lemma fresh_word:
  fixes v0 v4 :: i64
  assumes "unat v0 < 2 ^ 44 - 1" "unat v4 < 2 ^ 20"
  shows "(push_bit 20 v0 OR v4) + 0x100000 = of_nat ((unat v0 + 1) * 2 ^ 20 + unat v4)"
proof -
  have "2 ^ 20 * (unat v0 + 1) \<le> 2 ^ 20 * 2 ^ 44" using assms(1) by (intro mult_le_mono2) simp
  then have "unat (push_bit 20 v0 OR v4) = unat v0 * 2 ^ 20 + unat v4"
    using assms(2) unfolding or.commute [of "push_bit 20 v0"] by (subst unat_or_push_bit) simp_all
  then have "push_bit 20 v0 OR v4 = of_nat (unat v0 * 2 ^ 20 + unat v4)" by (rule eq_of_natI)
  then show ?thesis by simp
qed

text \<open>
  What \<open>Xuuid_new_v7\<close> does to a module, by the plan of the stream: \<open>r\<close> are the eleven bytes
  drawn. The memory above the stack changes only where the value and the stream word go.
\<close>

definition v7_memory :: "mem \<Rightarrow> nat \<Rightarrow> nat \<Rightarrow> u8 list \<Rightarrow> v7_plan \<Rightarrow> mem" where
  "v7_memory m p w0 r plan = (case plan of
      Refused \<Rightarrow> m
    | OutOfStream \<Rightarrow> put_bytes p (v7_uuid w0 (unat (r ! 4) mod 64) (drop 5 r)) m
    | Reserved b \<Rightarrow> put_bytes p (v7_uuid b (unat (r ! 4) mod 64) (drop 5 r))
        (put_bytes 65560 (le_bytes8 (of_nat b)) m))"

lemma same_above_stack_put_bytes:
  "same_above_stack m m' \<Longrightarrow> same_above_stack (put_bytes a bs m) (put_bytes a bs m')"
  by (auto simp: same_above_stack_def mbytes_put_bytes)

lemma bytes_at_zeros:
  "i + n \<le> k \<Longrightarrow> bytes_at (put_bytes a (replicate k 0) m) (a + i) n = replicate n 0"
  by (rule nth_equalityI) (simp_all add: mbytes_put_bytes)

context wasi_random
begin

lemma new_v7_spec:
  fixes v0 :: i64
  assumes "core_ok md" "arg_ok md p 16" "inv s" "draw (replicate 11 0) s = (code, r, s')"
  defines "seed \<equiv> v7_seed r"
  defines "plan \<equiv> v7_plan 1 (unat (stream_word md)) (unat v0) seed"
  shows "\<exists>md'. Xuuid_new_v7 rg md s v0 p = Some
      (if 253402300799999 < unat v0 then 2 else if code \<noteq> 0 then 1 else if plan = Refused then 6 else 0,
       md', if 253402300799999 < unat v0 then s else s') \<and> inv s' \<and>
    core_same (if 253402300799999 < unat v0 \<or> code \<noteq> 0 then md
      else md\<lparr>memory := v7_memory (memory md) (unat p) ((unat v0 + 1) * 2 ^ 20 + seed) r plan\<rparr>) md'"
proof -
  have ok: "g0 md = 65536" "131072 \<le> unat p" "unat p + 16 \<le> msize (memory md)" "131072 \<le> msize (memory md)"
    "msize (memory md) \<le> 4294967296"
    using assms(1,2) by (simp_all add: core_ok_def arg_ok_def)
  have r: "length r = 11" "inv s'" using draw_length draw_inv assms(3,4) by fastforce+
  let ?at = "\<lambda>a bs. md\<lparr>g0 := 65504, memory := put_bytes a bs (memory md)\<rparr>"
  have zero: "store64 (memory md) 65528 0 = Some (put_bytes 65528 (replicate 8 0) (memory md))"
    "store64 (put_bytes 65528 (replicate 8 0) (memory md)) 65520 0 =
       Some (put_bytes 65520 (replicate 16 0) (memory md))"
    using ok by (simp_all add: store64_put_bytes le_bytes8_0 put_bytes_append flip: replicate_add)
  define m where "m = put_bytes 65525 r (put_bytes 65520 (replicate 16 0) (memory md))"
  have fn0: "fn0 rg (?at 65520 (replicate 16 0)) s 65525 11 = Some (code, md\<lparr>g0 := 65504, memory := m\<rparr>, s')"
    using fn0_draw(1) [of s 65525 11 "?at 65520 (replicate 16 0)" code r s'] assms(3,4) ok r
      bytes_at_zeros [of 5 11 16 65520 "memory md"] by (simp add: m_def)
  show ?thesis
  proof (cases "253402300799999 < unat v0 \<or> code \<noteq> 0")
    case True
    with ok zero fn0 r show ?thesis
      by (auto simp: Xuuid_new_v7_def Let_def core_same_def same_above_stack_def mbytes_put_bytes m_def word_less_nat_alt)
  next
    case False
    then have v0: "\<not> 253402300799999 < v0" "unat v0 < 2 ^ 48" and code: "code = 0"
      by (simp_all add: word_less_nat_alt)
    have m: "msize m = msize (memory md)" "\<And>x. 65536 \<le> x \<Longrightarrow> mbytes m x = mbytes (memory md) x"
      "\<And>i. i < 11 \<Longrightarrow> mbytes m (65525 + i) = r ! i"
      using r by (simp_all add: m_def mbytes_put_bytes)
    have bytes: "mbytes m 65526 = r ! 1" "mbytes m 65527 = r ! 2" "mbytes m 65528 = r ! 3" "mbytes m 65529 = r ! 4"
      using m(3) [of 1] m(3) [of 2] m(3) [of 3] m(3) [of 4] by simp_all
    define W where "W = (drop_bit 32 (push_bit 35 (ucast (r ! 2)) OR push_bit 27 (ucast (r ! 1)) OR
      push_bit 43 (ucast (r ! 3))) :: i64)"
    define v5 where "v5 = (ucast W :: i32)"
    have W: "unat W = seed" unfolding W_def seed_def v7_seed_def by (rule seed_word)
    have seed: "seed < 2 ^ 19" unfolding seed_def by (rule v7_seed_less)
    have v5: "unat v5 = seed" using W seed by (simp add: v5_def unsigned_ucast_eq take_bit_nat_eq_self)
    define res where "res = (if v0 > 0xffffffffffe then Some Out
      else do { t6 \<leftarrow> load64 m 65560; cas_loop (v7_step v0 v5 ((push_bit 20 v0 OR W) + 0x100000)) m t6 })"
    have run: "Xuuid_new_v7 rg md s v0 p = res \<bind> (\<lambda>res. case res of
        Full \<Rightarrow> Some (6, md\<lparr>memory := m, g0 := 65536\<rparr>, s')
      | Out \<Rightarrow> do { m \<leftarrow> v7_emit m 65504 p (ucast (r ! 4)) v5 v0; Some (0, md\<lparr>memory := m, g0 := 65536\<rparr>, s') }
      | Taken m v8 v9 \<Rightarrow> do { m \<leftarrow> v7_emit m 65504 p (ucast (r ! 4)) v8 v9; Some (0, md\<lparr>memory := m, g0 := 65536\<rparr>, s') })"
      using ok v0(1) code
      by (simp add: Xuuid_new_v7_def Let_def zero fn0 mem_simps m(1) bytes res_def W_def v5_def)
    have out: "plan = OutOfStream \<Longrightarrow> res = Some Out" "plan = Refused \<Longrightarrow> res = Some Full"
      "plan = Reserved b \<Longrightarrow> \<exists>v8 v9. res = Some (Taken (put_bytes 65560 (le_bytes8 (of_nat b)) m) v8 v9) \<and>
         first_step b v8 v9" for b
    proof -
      have load: "load64 m 65560 = Some (stream_word md)"
        using ok m(1,2) by (simp add: mem_simps stream_word_def)
      have "step_of_plan plan 1 (v7_step v0 v5 ((push_bit 20 v0 OR W) + 0x100000) (stream_word md))"
        if "\<not> v0 > 0xffffffffffe"
      proof -
        have lim: "unat v0 \<le> 17592186044414" using that by (simp add: word_less_nat_alt)
        have "(push_bit 20 v0 OR W) + 0x100000 = of_nat ((unat v0 + 1) * 2 ^ 20 + unat v5)"
          using fresh_word [of v0 W] lim W v5 seed by simp
        then show ?thesis using v7_step_spec [OF lim _ refl, of v5 "stream_word md"] v5 seed
          by (simp only: plan_def) simp
      qed
      moreover have "plan = OutOfStream" if "v0 > 0xffffffffffe"
        using that by (simp add: plan_def v7_plan_def word_less_nat_alt)
      ultimately show "plan = OutOfStream \<Longrightarrow> res = Some Out" "plan = Refused \<Longrightarrow> res = Some Full"
        "plan = Reserved b \<Longrightarrow> \<exists>v8 v9. res = Some (Taken (put_bytes 65560 (le_bytes8 (of_nat b)) m) v8 v9) \<and>
           first_step b v8 v9"
        using load cas_loop_spec [OF load] by (cases "v0 > 0xffffffffffe"; fastforce simp: res_def)+
    qed
    have emit: "\<exists>m''. v7_emit m' 65504 p (ucast (r ! 4)) v8 v9 = Some m'' \<and>
        same_above_stack (put_bytes (unat p) (v7_uuid b (unat (r ! 4) mod 64) (drop 5 r)) m') m''"
      if "first_step b v8 v9" "msize m' = msize m" "\<And>x. x < 65536 \<Longrightarrow> mbytes m' x = mbytes m x" for b v8 v9 m'
    proof (rule v7_emit_spec [OF that(1) ok(2)])
      show "bytes_at m' 65530 6 = drop 5 r"
        using r(1) m(3) that(3) by (intro nth_equalityI) (simp_all add: add.commute add.left_commute flip: m(3))
    qed (use that ok m in simp_all)
    have same: "same_above_stack (memory md) m" using m(1,2) by (simp add: same_above_stack_def)
    show ?thesis
    proof (cases plan)
      case Refused
      with False out(2) same ok r(2) show ?thesis by (simp add: run core_same_def v7_memory_def)
    next
      case OutOfStream
      have "first_step ((unat v0 + 1) * 2 ^ 20 + seed) v5 v0"
        using v5 seed v0(2) by (simp add: first_step_def)
      from emit [OF this refl] obtain m'' where "v7_emit m 65504 p (ucast (r ! 4)) v5 v0 = Some m''"
        "same_above_stack (put_bytes (unat p) (v7_uuid ((unat v0 + 1) * 2 ^ 20 + seed)
           (unat (r ! 4) mod 64) (drop 5 r)) m) m''" by blast
      with OutOfStream False out(1) same ok(1) r(2) show ?thesis
        by (auto simp: run core_same_def v7_memory_def intro: same_above_stack_trans same_above_stack_put_bytes)
    next
      case (Reserved b)
      then obtain v8 v9 where res: "res = Some (Taken (put_bytes 65560 (le_bytes8 (of_nat b)) m) v8 v9)"
        and first: "first_step b v8 v9" using out(3) by blast
      let ?m = "put_bytes 65560 (le_bytes8 (of_nat b)) m"
      from emit [OF first, of ?m] obtain m'' where "v7_emit ?m 65504 p (ucast (r ! 4)) v8 v9 = Some m''"
        "same_above_stack (put_bytes (unat p) (v7_uuid b (unat (r ! 4) mod 64) (drop 5 r)) ?m) m''"
        by (auto simp: mbytes_put_bytes)
      with Reserved False res same ok(1) r(2) show ?thesis
        by (auto simp: run core_same_def v7_memory_def intro: same_above_stack_trans same_above_stack_put_bytes)
    qed
  qed
qed

end

section \<open>The swap loop\<close>

lemma store_loaded:
  assumes "load64 m a = Some w" shows "store64 m a w = Some m"
  using assms by (auto simp: load64_def store64_def fun_eq_iff split: if_splits intro!: mem.equality)

text \<open>
  C29. The compare-and-swap loop decides once. Started on any word, stale or not, that asks for a
  swap, it returns what the decision on the word actually in memory gives, and changes no other
  byte; so with the module's calls serialized it is a single update of the stream word.
\<close>

theorem swap_loop_decides_once:
  assumes "load64 m 65560 = Some w" "v = w \<or> (\<exists>v8 v9 v10. step v = CasNew v8 v9 v10)"
  shows "cas_loop step m v = Some (case step w of CasFull \<Rightarrow> Full | CasOut \<Rightarrow> Out
    | CasNew v8 v9 v10 \<Rightarrow> Taken (put_bytes 65560 (le_bytes8 v10) m) v8 v9)"
proof (cases "v = w")
  case True
  then show ?thesis using cas_loop_spec [OF assms(1)] by simp
next
  case False
  then obtain v8 v9 v10 where "step v = CasNew v8 v9 v10" using assms(2) by blast
  then have "cas_loop step m v = cas_loop step m w"
    using False assms(1) store_loaded [OF assms(1)] by (subst cas_loop.simps) auto
  then show ?thesis using cas_loop_spec [OF assms(1)] by simp
qed

theorem swap_loop_decides_once_witness:
  "cas_loop (v7_step 7 3 (8 * 0x100000 + 3)) (memory (sample_module (replicate 16 0))) (5 * 0x100000) =
     Some (Taken (put_bytes 65560 (le_bytes8 (8 * 0x100000 + 3)) (memory (sample_module (replicate 16 0)))) 3 7)"
proof -
  have "load64 (memory (sample_module (replicate 16 0))) 65560 = Some 0"
    by (simp add: sample_module_def mem_simps mbytes_put_bytes le64_def)
  moreover have "drop_bit 20 (5242880 :: i64) = 5" by simp
  ultimately show ?thesis
    using swap_loop_decides_once [of "memory (sample_module (replicate 16 0))" 0 "5 * 0x100000" "v7_step 7 3 (8 * 0x100000 + 3)"]
    by (simp add: v7_step_def Let_def)
qed

end
