(* ===== verification/Core_V7_Batch.thy ===== *)
theory Core_V7_Batch
  imports Core_V7
begin

text \<open>
  \<open>Xuuid_new_v7_batch\<close> of \<open>src/go/internal/core/core.go\<close>: all random bytes are drawn into the
  caller's buffer, a block of steps is reserved in one swap, and the values are laid out in
  place from the last to the first, each reading its six random bytes before they are
  overwritten.
\<close>

section \<open>The translated function\<close>

text \<open>The draw loop (label \<open>l4\<close>), in chunks of at most 65536 bytes.\<close>

function batch_draw ::
    "'s wasi \<Rightarrow> core_module \<Rightarrow> 's \<Rightarrow> i32 \<Rightarrow> i32 \<Rightarrow> (i32 \<times> core_module \<times> 's) option"
where
  "batch_draw rg md s v2 v4 =
     (if v4 = 0 then Some (0, md, s)
      else let v7 = (if v4 < 65536 then v4 else 65536)
        in case fn0 rg md s v2 v7 of
             None \<Rightarrow> None
           | Some (t5, md, s) \<Rightarrow>
               if t5 = 0 then batch_draw rg md s (v2 + v7) (v4 - v7) else Some (1, md, s))"
  by pat_completeness auto

lemma draw_progress:
  fixes v :: i32
  assumes "v \<noteq> 0"
  shows "unat (v - (if v < 65536 then v else 65536)) < unat v"
  using assms by (auto simp: word_less_nat_alt unat_sub word_le_nat_alt unat_gt_0)

termination batch_draw
  by (relation "measure (\<lambda>(rg, md, s, v2, v4). unat v4)") (simp_all add: draw_progress)

declare batch_draw.simps [simp del]

text \<open>The decision of the swap loop for a block of \<open>v7\<close> steps.\<close>

definition batch_step :: "i64 \<Rightarrow> i32 \<Rightarrow> i32 \<Rightarrow> i64 \<Rightarrow> i64 \<Rightarrow> cas_step" where
  "batch_step v0 v7 v4 v9 v14 =
     (let v10 = drop_bit 20 v14 in
      if v10 = 0 then CasNew v4 v0 v9 else
      let v15 = v10 + (- 1) in
      if v15 < v0 then CasNew v4 v0 v9 else
      if v15 - v0 > 11000 then CasOut else
      let v8 = (ucast v14 :: i32);
          v2 = v8 AND 0xfffff;
          v11 = v2 + 1 in
      if v7 \<le> v2 XOR 0xfffff then
        CasNew v11 v15 ((v14 AND (- 0x100000)) OR ucast ((v7 + v8) AND 0xfffff))
      else if v10 = 0xfffffffffff then CasFull
      else if v10 - v0 > 1000 then CasFull
      else CasNew v11 v15 (((v14 AND (- 0x100000)) OR ucast ((v7 + v8) AND 0xfffff)) + 0x100000))"

text \<open>Where an index is past the end of the buffer the code calls \<open>fn9\<close>, which panics.\<close>

definition fn16 :: "unit option" where
  "fn16 = None"

definition fn9 :: "i32 \<Rightarrow> i32 \<Rightarrow> i32 \<Rightarrow> 'a option" where
  "fn9 v0 v1 v2 = do { _ \<leftarrow> fn16; None }"

lemma fn9_panics [simp]: "fn9 v0 v1 v2 = None"
  by (simp add: fn9_def fn16_def)

text \<open>
  One value of the fill (label \<open>l15\<close>), and the loop. \<open>v7\<close> is the index of the value, \<open>v2\<close> and
  \<open>v4\<close> the offsets of its random bytes and of the end of its slot, \<open>v14\<close> the octets of the
  timestamp \<open>v10\<close>. The two range checks call \<open>fn9\<close>, which panics.
\<close>

definition bswap48 :: "i64 \<Rightarrow> i64" where
  "bswap48 v0 = drop_bit 16
     (push_bit 56 v0 OR push_bit 40 (v0 AND 0xff00) OR
      (push_bit 24 (v0 AND 0xff0000) OR push_bit 8 (v0 AND 0xff000000)) OR
      ((drop_bit 8 v0 AND 0xff000000) OR (drop_bit 24 v0 AND 0xff0000)))"

definition batch_put ::
    "mem \<Rightarrow> i32 \<Rightarrow> i32 \<Rightarrow> i32 \<Rightarrow> i64 \<Rightarrow> i32 \<Rightarrow> i32 \<Rightarrow> i32 \<Rightarrow> i32 \<Rightarrow> i64 \<Rightarrow> i64 \<Rightarrow> (mem \<times> i32 \<times> i64 \<times> i64) option"
where
  "batch_put m v5 v6 v11 v12 v16 v7 v2 v4 v14 v10 =
     (if v2 + 8 > v5 then fn9 v2 (v2 + 8) v5 else
      let v1 = drop_bit 6 v7 + v11;
          v3 = (if v1 > 0xfffff then 1 else 0 :: i32);
          v0 = v12 + ucast v3;
          (v14, v10) = (if v0 = v10 then (v14, v10) else (bswap48 v0, v0));
          v8 = v4 + (- 16) in
      if v4 > v5 then fn9 v8 v4 v5 else if v4 < v8 then fn9 v8 v4 v5 else
      let v17 = v16 + v4 in
      do { t15 \<leftarrow> load64 m (unat (v6 + v2));
           let t17 = push_bit 16 t15;
           let v4 = push_bit 6 v1;
           let v4 = (if v3 \<noteq> 0 then v4 + (- 0x4000000) else v4);
           let v1 = v4 OR (v7 AND 63);
           m \<leftarrow> store64 m (unat (v17 + 8))
                 (t17 OR (ucast (push_bit 8 v1 OR drop_bit 8 ((v1 AND 16128) OR 0x8000)) AND 65471));
           m \<leftarrow> store64 m (unat v17)
                 (v14 OR (push_bit 48 (ucast ((drop_bit 22 v4 AND 15) OR 112)) OR
                          push_bit 56 (ucast (drop_bit 14 v4))));
           Some (m, v8, v14, v10) })"

function batch_fill ::
    "mem \<Rightarrow> i32 \<Rightarrow> i32 \<Rightarrow> i32 \<Rightarrow> i64 \<Rightarrow> i32 \<Rightarrow> i32 \<Rightarrow> i32 \<Rightarrow> i32 \<Rightarrow> i64 \<Rightarrow> i64 \<Rightarrow> mem option"
where
  "batch_fill m v5 v6 v11 v12 v16 v7 v2 v4 v14 v10 =
     (case batch_put m v5 v6 v11 v12 v16 v7 v2 v4 v14 v10 of
        None \<Rightarrow> None
      | Some (m, v8, v14, v10) \<Rightarrow>
          if v7 + (- 1) \<noteq> - 1
          then batch_fill m v5 v6 v11 v12 v16 (v7 + (- 1)) (v2 + (- 6)) v8 v14 v10
          else Some m)"
  by pat_completeness auto

termination batch_fill
  by (relation "measure (\<lambda>(m, v5, v6, v11, v12, v16, v7, v2, v4, v14, v10). unat v7)")
    (auto simp: unat_minus_one unat_gt_0)

declare batch_fill.simps [simp del]

definition Xuuid_new_v7_batch ::
    "'s wasi \<Rightarrow> core_module \<Rightarrow> 's \<Rightarrow> i64 \<Rightarrow> i32 \<Rightarrow> i32 \<Rightarrow> (i32 \<times> core_module \<times> 's) option"
where
  "Xuuid_new_v7_batch rg md s v0 v1 v2 =
     (if \<not> v0 \<le> 253402300799999 then Some (2, md, s) else
      if v1 = 0 then Some (0, md, s) else
      if \<not> v1 \<le> 0x4000000 then Some (4, md, s) else
      let v3 = v1 * 6;
          v4 = v3 + 4;
          v5 = push_bit 4 v1;
          p1 = (if v5 \<noteq> 0 then v2 else 1);
          v6 = (if v1 > 0xfffffff then 1 else p1) in
      do { (code, md, s) \<leftarrow> batch_draw rg md s v6 v4;
           if code \<noteq> 0 then Some (1, md, s) else
      do { let m = memory md;
           w \<leftarrow> load32 m (unat (v6 + v3));
           let t6 = (ucast w :: i64);
           let v7 = drop_bit 6 (v1 + 63);
           let v4 = 0x100000 - v7;
           let p7 = (if v4 > 0x100000 then 0 else v4);
           let p8 = (if p7 < 0x7ffff then p7 else 0x7ffff);
           let v4 = (ucast (drop_bit 32 (t6 * ucast (p8 + 1))) :: i32);
           res \<leftarrow> (if v0 > 0xffffffffffe then Some Out
                   else do { let v9 = (push_bit 20 v0 OR ucast ((v7 + v4 + (- 1)) AND 0xfffff)) + 0x100000;
                             t9 \<leftarrow> load64 m 65560;
                             cas_loop (batch_step v0 v7 v4 v9) m t9 });
           case res of
             Full \<Rightarrow> Some (6, md, s)
           | Out \<Rightarrow> do { m \<leftarrow> batch_fill m v5 v6 v4 v0 (v6 + (- 16)) (v1 + (- 1)) (v1 * 6 + (- 6)) v5 0 (- 1);
                        Some (0, md\<lparr>memory := m\<rparr>, s) }
           | Taken m v11 v12 \<Rightarrow>
               do { m \<leftarrow> batch_fill m v5 v6 v11 v12 (v6 + (- 16)) (v1 + (- 1)) (v1 * 6 + (- 6)) v5 0 (- 1);
                    Some (0, md\<lparr>memory := m\<rparr>, s) } }})"

section \<open>The reservation of a block\<close>

lemma xor_20:
  fixes x :: i32
  assumes "unat x < 2 ^ 20"
  shows "unat (x XOR 0xfffff) = 0xfffff - unat x"
proof -
  have mask: "(0xfffff :: i32) = mask 20" by (simp add: mask_eq_exp_minus_1)
  have x: "take_bit 20 x = x" using assms by (intro word_unat_eq_iff [THEN iffD2]) (simp add: unat_take_bit)
  then have high: "bit x n \<Longrightarrow> n < 20" for n by (metis bit_take_bit_iff)
  have "x AND (x XOR mask 20) = 0" "x OR (x XOR mask 20) = mask 20"
    by (rule bit_word_eqI; auto simp: bit_simps dest: high)+
  then have "x + (x XOR mask 20) = mask 20" by (metis or_eq_add)
  then have "x XOR 0xfffff = 0xfffff - x" unfolding mask by (simp add: algebra_simps)
  then show ?thesis using assms by (simp add: unat_sub word_le_nat_alt)
qed

lemma join_block:
  fixes v14 :: i64 and v7 :: i32
  shows "unat ((v14 AND (- 0x100000)) OR ucast ((v7 + ucast v14) AND 0xfffff)) =
    unat v14 div 2 ^ 20 * 2 ^ 20 + (unat v7 + unat v14) mod 2 ^ 20"
proof -
  let ?y = "v7 + ucast v14 :: i32"
  have y: "unat ?y mod 2 ^ 20 = (unat v7 + unat v14) mod 2 ^ 20"
  proof -
    have "unat (ucast v14 :: i32) = unat v14 mod 2 ^ 32"
      by (simp add: unsigned_ucast_eq take_bit_eq_mod [of _ "unat v14"])
    then have "unat ?y = (unat v7 + unat v14) mod 2 ^ 32"
      by (simp add: unat_word_ariths mod_add_right_eq)
    then show ?thesis by (simp add: mod_mod_cancel)
  qed
  have "ucast (?y AND 0xfffff) = take_bit 20 (ucast ?y :: i64)"
    unfolding mask_20 by (rule bit_word_eqI) (auto simp: bit_simps)
  moreover have "unat (ucast ?y :: i64) = unat ?y"
    using unat_i32_less [of ?y] by (simp add: unsigned_ucast_eq take_bit_nat_eq_self)
  moreover have "unat (drop_bit 20 v14) < 2 ^ 44"
    using unat_i64_less [of v14] by (simp add: unat_drop_bit less_mult_imp_div_less)
  ultimately show ?thesis
    unfolding high_44 using y by (simp add: join_20 unat_drop_bit)
qed

lemma batch_step_spec:
  assumes v0: "unat v0 \<le> 17592186044414" and k: "valid_call (unat v7) (unat v4)"
    and v9: "v9 = of_nat ((unat v0 + 1) * 2 ^ 20 + unat v4 + unat v7 - 1)"
  shows "step_of_plan (v7_plan (unat v7) (unat v14) (unat v0) (unat v4)) (unat v7) (batch_step v0 v7 v4 v9 v14)"
proof -
  define hi low n k where "hi = unat v14 div 2 ^ 20" and "low = unat v14 mod 2 ^ 20" and "n = unat v0"
    and "k = unat v7"
  have S: "unat v14 = hi * 2 ^ 20 + low" "low < 2 ^ 20" by (simp_all add: hi_def low_def)
  have hi: "hi < 2 ^ 44" using unat_i64_less [of v14] by (simp add: hi_def less_mult_imp_div_less)
  have kb: "0 < k" "unat v4 + k \<le> 2 ^ 20" using assms(2) by (simp_all add: valid_call_def k_def)
  have v10: "unat (drop_bit 20 v14) = hi" by (simp add: unat_drop_bit hi_def)
  have fresh: "step_of_plan (Reserved ((n + 1) * 2 ^ 20 + unat v4)) k (CasNew v4 v0 v9)"
    using assms kb by (simp add: first_step_def n_def k_def)
  have zero: "drop_bit 20 v14 = 0 \<longleftrightarrow> hi = 0" using v10 by (metis unat_eq_0)
  define v15 where "v15 = drop_bit 20 v14 + (- 1)"
  have v15: "unat v15 = hi - 1" if "hi \<noteq> 0"
    using unat_minus_one [of "drop_bit 20 v14"] that v10 zero by (simp add: v15_def)
  have less: "v15 < v0 \<longleftrightarrow> hi - 1 < n" if "hi \<noteq> 0"
    using v15 that by (simp add: word_less_nat_alt n_def)
  define v2 where "v2 = (ucast v14 AND 0xfffff :: i32)"
  have v2: "unat v2 = low" by (simp only: v2_def unat_low_20 low_def)
  define new where "new = (v14 AND (- 0x100000)) OR ucast ((v7 + ucast v14) AND 0xfffff)"
  have new: "unat new = hi * 2 ^ 20 + (k + low) mod 2 ^ 20"
    unfolding new_def join_block hi_def k_def low_def by (simp only: mod_add_right_eq)
  have step: "batch_step v0 v7 v4 v9 v14 =
      (if drop_bit 20 v14 = 0 then CasNew v4 v0 v9 else if v15 < v0 then CasNew v4 v0 v9
       else if v15 - v0 > 11000 then CasOut
       else if v7 \<le> v2 XOR 0xfffff then CasNew (v2 + 1) v15 new
       else if drop_bit 20 v14 = 0xfffffffffff then CasFull
       else if drop_bit 20 v14 - v0 > 1000 then CasFull
       else CasNew (v2 + 1) v15 (new + 0x100000))"
    unfolding batch_step_def Let_def v15_def v2_def new_def ..
  have plan0: "v7_plan k (unat v14) n (unat v4) = (if 17592186044414 < n then OutOfStream
         else if hi = 0 \<or> hi - 1 < n then Reserved ((n + 1) * 2 ^ 20 + unat v4)
         else if 11000 < hi - 1 - n then OutOfStream
         else if k + low < 2 ^ 20 then Reserved (unat v14 + 1)
         else if hi = 17592186044415 \<or> 1000 < hi - n then Refused
         else Reserved (unat v14 + 1))"
    unfolding v7_plan_def Let_def hi_def low_def ..
  show ?thesis
  proof (cases "hi = 0 \<or> hi - 1 < n")
    case True
    then have "batch_step v0 v7 v4 v9 v14 = CasNew v4 v0 v9" using zero less by (auto simp: step)
    moreover have "v7_plan k (unat v14) n (unat v4) = Reserved ((n + 1) * 2 ^ 20 + unat v4)"
      using True v0 unfolding plan0 by (simp add: n_def)
    ultimately show ?thesis using fresh by (simp only: n_def k_def)
  next
    case False
    then have "v0 \<le> v15" "v0 \<le> drop_bit 20 v14"
      using v15 v10 unfolding word_le_nat_alt n_def by linarith+
    then have sub: "unat (v15 - v0) = hi - 1 - n" "unat (drop_bit 20 v14 - v0) = hi - n"
      using False v15 v10 by (simp_all add: unat_sub n_def)
    have fits: "v7 \<le> v2 XOR 0xfffff \<longleftrightarrow> k + low < 2 ^ 20"
      using S(2) v2 xor_20 [of v2] by (auto simp: word_le_nat_alt k_def)
    have eq: "batch_step v0 v7 v4 v9 v14 = (if 11000 < hi - 1 - n then CasOut
       else if k + low < 2 ^ 20 then CasNew (v2 + 1) v15 new
       else if hi = 0xfffffffffff \<or> 1000 < hi - n then CasFull
       else CasNew (v2 + 1) v15 (new + 0x100000))"
      using False zero less sub v10 fits
      by (simp add: step word_less_nat_alt word_unat_eq_iff [of "drop_bit 20 v14"])
    have plan: "v7_plan k (unat v14) n (unat v4) = (if 11000 < hi - 1 - n then OutOfStream
       else if k + low < 2 ^ 20 then Reserved (unat v14 + 1)
       else if hi = 0xfffffffffff \<or> 1000 < hi - n then Refused else Reserved (unat v14 + 1))"
      using False v0 [folded n_def] unfolding plan0 by simp
    have "new = of_nat (unat v14 + 1 + k - 1)" if "k + low < 2 ^ 20"
      using new that S(1) by (intro eq_of_natI) simp
    moreover have "new + 0x100000 = of_nat (unat v14 + 1 + k - 1)" if "\<not> k + low < 2 ^ 20"
    proof -
      have "(k + low) mod 2 ^ 20 = k + low - 2 ^ 20"
        using that kb S(2) by (simp add: le_mod_geq)
      then have "unat new = unat v14 + k - 2 ^ 20" using new S(1) that by simp
      then have new_eq: "new = of_nat (unat v14 + k - 2 ^ 20)" by (rule eq_of_natI)
      have split: "unat v14 + 1 + k - 1 = (unat v14 + k - 2 ^ 20) + 2 ^ 20" using that S(1) by simp
      show ?thesis unfolding new_eq split of_nat_add by simp
    qed
    moreover have "first_step (unat v14 + 1) (v2 + 1) v15" "unat (v2 + 1) \<le> 2 ^ 20"
      using S False hi v15 v2 by (simp_all add: first_step_def unat_plus_1_i32)
    ultimately show ?thesis unfolding n_def [symmetric] k_def [symmetric] plan eq by auto
  qed
qed

section \<open>The layout in place\<close>

lemma le_bytes8_low:
  fixes M :: i64 and C :: i32
  shows "le_bytes8 (bswap48 M OR (push_bit 48 (ucast ((drop_bit 22 C AND 15) OR 112)) OR
      push_bit 56 (ucast (drop_bit 14 C)))) =
    [ucast (drop_bit 40 M), ucast (drop_bit 32 M), ucast (drop_bit 24 M), ucast (drop_bit 16 M),
     ucast (drop_bit 8 M), ucast M, ucast ((drop_bit 22 C AND 15) OR 112), ucast (drop_bit 14 C)]"
  unfolding le_bytes8_def bswap48_def list.inject
  by (intro conjI refl; rule eq_bits_u8; simp add: bit_eval)

lemma le_bytes8_high:
  fixes C X :: i32
  assumes "X = push_bit 6 Y OR (r AND 63)" "C = push_bit 6 Y"
  shows "le_bytes8 (push_bit 16 (le64 t0 t1 t2 t3 t4 t5 t6 t7) OR
      (ucast (push_bit 8 X OR drop_bit 8 ((X AND 16128) OR 0x8000)) AND 65471)) =
    [ucast ((drop_bit 8 C AND 63) OR 128), ucast ((r AND 63) OR C), t0, t1, t2, t3, t4, t5]"
  unfolding le_bytes8_def list.inject assms
  by (intro conjI refl; rule eq_bits_u8; simp add: bit_eval bit_le64)

lemma batch_index_words:
  assumes "k < n" "n \<le> 2 ^ 26" "unat (p :: i32) + 16 * n \<le> 4294967296"
  shows "unat (of_nat (6 * k) + 8 :: i32) = 6 * k + 8" "unat (of_nat (16 * n) :: i32) = 16 * n"
    "unat (of_nat (16 * (k + 1)) :: i32) = 16 * (k + 1)"
    "of_nat (16 * (k + 1)) + (- 16) = (of_nat (16 * k) :: i32)"
    "unat (of_nat (16 * k) :: i32) = 16 * k" "unat (of_nat k :: i32) = k"
    "unat (p + of_nat (6 * k)) = unat p + 6 * k"
    "(p + (- 16)) + of_nat (16 * (k + 1)) = p + of_nat (16 * k)"
    "unat (p + of_nat (16 * k)) = unat p + 16 * k"
    "unat (p + of_nat (16 * k) + 8) = unat p + 16 * k + 8"
proof -
  have n: "k < 67108864" "16 * n < 4294967296" "16 * (k + 1) < 4294967296" "6 * k + 8 < 4294967296"
    using assms(1,2) by simp_all
  have p: "unat p + 16 * k + 8 < 4294967296" "unat p + 16 * k < 4294967296" "unat p + 6 * k < 4294967296"
    using assms(1,3) by simp_all
  show six: "unat (of_nat (6 * k) + 8 :: i32) = 6 * k + 8"
    using n(4) unat_of_nat_i32 [of "6 * k + 8"] by simp
  show "unat (of_nat (16 * n) :: i32) = 16 * n" "unat (of_nat (16 * (k + 1)) :: i32) = 16 * (k + 1)"
    "unat (of_nat k :: i32) = k"
    using n by (intro unat_of_nat_i32; simp)+
  show k16: "unat (of_nat (16 * k) :: i32) = 16 * k" using n by (intro unat_of_nat_i32) simp
  have k6: "unat (of_nat (6 * k) :: i32) = 6 * k" using n by (intro unat_of_nat_i32) simp
  show "of_nat (16 * (k + 1)) + (- 16) = (of_nat (16 * k) :: i32)"
    "(p + (- 16)) + of_nat (16 * (k + 1)) = p + of_nat (16 * k)" by (simp_all add: algebra_simps)
  show "unat (p + of_nat (6 * k)) = unat p + 6 * k" using p(3) k6 by (subst unat_plus_i32) simp_all
  show a: "unat (p + of_nat (16 * k)) = unat p + 16 * k" using p(2) k16 by (subst unat_plus_i32) simp_all
  show "unat (p + of_nat (16 * k) + 8) = unat p + 16 * k + 8"
    using p(1) unfolding a [symmetric] by (rule unat_plus_numeral_i32)
qed

lemma batch_put_spec:
  assumes k: "k < n" "n \<le> 2 ^ 26" and p: "unat p + 16 * n \<le> msize m" "msize m \<le> 4294967296"
    and b: "b = (unat v12 + 1) * 2 ^ 20 + unat v11" "unat v11 + k div 64 < 2 ^ 21" "unat v12 < 2 ^ 48"
    and cache: "v10 = - 1 \<or> v14 = bswap48 v10"
  shows "\<exists>v10'. batch_put m (of_nat (16 * n)) p v11 v12 (p + (- 16)) (of_nat k) (of_nat (6 * k))
      (of_nat (16 * (k + 1))) v14 v10 =
    Some (put_bytes (unat p + 16 * k)
      (v7_uuid (b + k div 64) (k mod 64) (bytes_at m (unat p + 6 * k) 6)) m,
      of_nat (16 * k), bswap48 v10', v10')"
proof -
  have p': "unat p + 16 * n \<le> 4294967296" using p by linarith
  note w = batch_index_words [OF k p']
  define v1 where "v1 = drop_bit 6 (of_nat k) + v11"
  have v1: "unat v1 = unat v11 + k div 64"
    using b(2) w(6) unfolding v1_def by (subst unat_plus_i32) (simp_all add: unat_drop_bit)
  have "first_step (b + k div 64) v1 v12" using b v1 by (simp add: first_step_def)
  then obtain X where X: "unat (v12 + ucast (if v1 > 0xfffff then 1 else 0 :: i32)) = word_millis (b + k div 64)"
    "unat X = (b + k div 64) mod 2 ^ 20"
    "(if (if v1 > 0xfffff then 1 else 0 :: i32) \<noteq> 0 then push_bit 6 v1 + (- 0x4000000) else push_bit 6 v1) = push_bit 6 X"
    by (rule first_step_words)
  define v3 M where "v3 = (if v1 > 0xfffff then 1 else 0 :: i32)" and "M = v12 + ucast v3"
  have M: "unat M = word_millis (b + k div 64)" using X(1) by (simp only: M_def v3_def)
  have C: "(if v3 \<noteq> 0 then push_bit 6 v1 + (- 0x4000000) else push_bit 6 v1) = push_bit 6 X"
    using X(3) by (simp only: v3_def)
  have "unat M < 2 ^ 49"
  proof -
    have "b + k div 64 < (unat v12 + 3) * 2 ^ 20" using b by simp
    then have "(b + k div 64) div 2 ^ 20 < unat v12 + 3" by (rule less_mult_imp_div_less)
    then have "unat M \<le> unat v12 + 1" unfolding M word_millis_def by linarith
    with b(3) show ?thesis by simp
  qed
  then have "M \<noteq> - 1" by (auto simp: unsigned_minus_1_eq_mask mask_eq_exp_minus_1)
  then have cached: "(if M = v10 then (v14, v10) else (bswap48 M, M)) = (bswap48 M, M)" using cache by auto
  have checks: "\<not> of_nat (6 * k) + 8 > (of_nat (16 * n) :: i32)" "\<not> of_nat (16 * (k + 1)) > (of_nat (16 * n) :: i32)"
    "\<not> of_nat (16 * (k + 1)) < (of_nat (16 * k) :: i32)"
    using k(1) by (simp_all only: word_less_nat_alt w) simp_all
  let ?b = "\<lambda>i. mbytes m (unat p + 6 * k + i)"
  have load: "load64 m (unat (p + of_nat (6 * k))) =
      Some (le64 (?b 0) (?b 1) (?b 2) (?b 3) (?b 4) (?b 5) (?b 6) (?b 7))"
    unfolding w(7) using k p by (simp add: mem_simps)
  have tail: "bytes_at m (unat p + 6 * k) 6 = [?b 0, ?b 1, ?b 2, ?b 3, ?b 4, ?b 5]" by (simp add: bytes_at_6)
  have store: "store64 m (unat (p + of_nat (16 * k) + 8)) u = Some (put_bytes (unat p + 16 * k + 8) (le_bytes8 u) m)"
    "store64 (put_bytes (unat p + 16 * k + 8) (le_bytes8 u) m) (unat (p + of_nat (16 * k))) v =
      Some (put_bytes (unat p + 16 * k) (le_bytes8 v @ le_bytes8 u) m)" for u v
    unfolding w(9,10) using k p by (simp_all add: store64_put_bytes put_bytes_append length_le_bytes8)
  have mod: "k mod 64 = unat (of_nat k :: i32) mod 64" by (simp only: w(6))
  have "batch_put m (of_nat (16 * n)) p v11 v12 (p + (- 16)) (of_nat k) (of_nat (6 * k))
      (of_nat (16 * (k + 1))) v14 v10 =
    Some (put_bytes (unat p + 16 * k)
      (v7_uuid (b + k div 64) (k mod 64) (bytes_at m (unat p + 6 * k) 6)) m,
      of_nat (16 * k), bswap48 M, M)"
    unfolding batch_put_def v1_def [symmetric] Let_def v3_def [symmetric] M_def [symmetric] cached prod.case
      w(4) w(8) C if_not_P [OF checks(1)] if_not_P [OF checks(2)] if_not_P [OF checks(3)] load bind.bind_lunit
      store le_bytes8_low le_bytes8_high [OF refl refl] mod v7_uuid_words [OF M X(2)] tail
    by simp
  then show ?thesis by blast
qed

lemma length_v7_uuid [simp]: "length (v7_uuid w c tail) = 10 + length tail"
  by (simp add: v7_uuid_def)

definition batch_bytes :: "nat \<Rightarrow> nat \<Rightarrow> (nat \<Rightarrow> u8 list) \<Rightarrow> u8 list" where
  "batch_bytes b n tail = concat (map (\<lambda>i. v7_uuid (b + i div 64) (i mod 64) (tail i)) [0..<n])"

lemma length_batch_bytes:
  "(\<And>i. i < n \<Longrightarrow> length (tail i) = 6) \<Longrightarrow> length (batch_bytes b n tail) = 16 * n"
  by (induction n) (simp_all add: batch_bytes_def v7_uuid_def)

lemma batch_bytes_Suc:
  "batch_bytes b (Suc n) tail = batch_bytes b n tail @ v7_uuid (b + n div 64) (n mod 64) (tail n)"
  by (simp add: batch_bytes_def)

lemma batch_bytes_cong:
  "(\<And>i. i < n \<Longrightarrow> tail i = tail' i) \<Longrightarrow> batch_bytes b n tail = batch_bytes b n tail'"
  unfolding batch_bytes_def by (intro arg_cong [where f = concat]) simp

lemma batch_fill_spec:
  assumes "k < n" "n \<le> 2 ^ 26" "unat p + 16 * n \<le> msize m" "msize m \<le> 4294967296"
    "b = (unat v12 + 1) * 2 ^ 20 + unat v11" "unat v11 + k div 64 < 2 ^ 21" "unat v12 < 2 ^ 48"
    "v10 = - 1 \<or> v14 = bswap48 v10"
  shows "batch_fill m (of_nat (16 * n)) p v11 v12 (p + (- 16)) (of_nat k) (of_nat (6 * k))
      (of_nat (16 * (k + 1))) v14 v10 =
    Some (put_bytes (unat p) (batch_bytes b (k + 1) (\<lambda>i. bytes_at m (unat p + 6 * i) 6)) m)"
  using assms
proof (induction k arbitrary: m v14 v10)
  case 0
  obtain v10' where "batch_put m (of_nat (16 * n)) p v11 v12 (p + (- 16)) (of_nat 0) (of_nat (6 * 0))
      (of_nat (16 * (0 + 1))) v14 v10 =
    Some (put_bytes (unat p + 16 * 0) (v7_uuid (b + 0 div 64) (0 mod 64) (bytes_at m (unat p + 6 * 0) 6)) m,
      of_nat (16 * 0), bswap48 v10', v10')"
    using batch_put_spec [OF 0] by blast
  then show ?case by (subst batch_fill.simps) (simp add: batch_bytes_def)
next
  case (Suc k)
  let ?k = "Suc k"
  define u where "u = v7_uuid (b + ?k div 64) (?k mod 64) (bytes_at m (unat p + 6 * ?k) 6)"
  define m' where "m' = put_bytes (unat p + 16 * ?k) u m"
  obtain v10' where put: "batch_put m (of_nat (16 * n)) p v11 v12 (p + (- 16)) (of_nat ?k) (of_nat (6 * ?k))
      (of_nat (16 * (?k + 1))) v14 v10 = Some (m', of_nat (16 * ?k), bswap48 v10', v10')"
    using batch_put_spec [OF Suc.prems] unfolding m'_def u_def by blast
  have "unat v11 + k div 64 < 2 ^ 21" using Suc.prems(6) div_le_mono [of k ?k 64] by linarith
  then have IH: "batch_fill m' (of_nat (16 * n)) p v11 v12 (p + (- 16)) (of_nat k) (of_nat (6 * k))
      (of_nat (16 * (k + 1))) (bswap48 v10') v10' =
    Some (put_bytes (unat p) (batch_bytes b (k + 1) (\<lambda>i. bytes_at m' (unat p + 6 * i) 6)) m')"
    using Suc.prems by (intro Suc.IH) (simp_all add: m'_def)
  have tails: "batch_bytes b (k + 1) (\<lambda>i. bytes_at m' (unat p + 6 * i) 6) =
      batch_bytes b (k + 1) (\<lambda>i. bytes_at m (unat p + 6 * i) 6)"
    by (rule batch_bytes_cong) (auto simp: m'_def intro!: bytes_at_put_bytes_other)
  have "(of_nat ?k :: i32) \<noteq> 0" using Suc.prems(1,2) by (simp add: word_unat_eq_iff unat_of_nat_i32 del: of_nat_Suc)
  then have more: "(of_nat ?k :: i32) + (- 1) = of_nat k" "of_nat k \<noteq> (- 1 :: i32)"
    "of_nat (6 * ?k) + (- 6) = (of_nat (6 * k) :: i32)" "(of_nat (16 * ?k) :: i32) = of_nat (16 * (k + 1))"
    by (auto simp: algebra_simps)
  have "put_bytes (unat p) (batch_bytes b (k + 1) (\<lambda>i. bytes_at m (unat p + 6 * i) 6)) m' =
      put_bytes (unat p) (batch_bytes b (?k + 1) (\<lambda>i. bytes_at m (unat p + 6 * i) 6)) m"
    unfolding m'_def by (subst put_bytes_append) (simp_all add: length_batch_bytes batch_bytes_Suc u_def)
  then show ?case
    by (subst batch_fill.simps) (simp only: put option.case prod.case more IH tails if_True not_False_eq_True simp_thms)
qed

section \<open>The draw in chunks\<close>

function draw_chunks ::
    "(u8 list \<Rightarrow> 's \<Rightarrow> i32 \<times> u8 list \<times> 's) \<Rightarrow> u8 list \<Rightarrow> 's \<Rightarrow> i32 \<times> u8 list \<times> 's"
where
  "draw_chunks draw bs s =
     (if bs = [] then (0, [], s)
      else let (code, out, s') = draw (take 65536 bs) s
        in if code \<noteq> 0 then (1, out @ drop 65536 bs, s')
           else let (c, out', s'') = draw_chunks draw (drop 65536 bs) s' in (c, out @ out', s''))"
  by pat_completeness auto

termination draw_chunks
  by (relation "measure (\<lambda>(draw, bs, s). length bs)") auto

declare draw_chunks.simps [simp del]

lemma put_bytes_extend:
  "b = a + length xs \<Longrightarrow> put_bytes b ys (put_bytes a xs m) = put_bytes a (xs @ ys) m"
  by (rule mem.equality) (auto simp: fun_eq_iff put_bytes_def nth_append)

lemma put_bytes_Nil [simp]: "put_bytes a [] m = m"
  by (rule mem.equality) (auto simp: put_bytes_def fun_eq_iff)

lemma take_drop_bytes_at:
  "take k (bytes_at m a n) = bytes_at m a (min n k)"
  "drop k (bytes_at m a n) = bytes_at m (a + min n k) (n - min n k)"
  by (auto intro!: nth_equalityI simp: min_def add.assoc)

context wasi_random
begin

lemma draw_chunks_props:
  "inv s \<Longrightarrow> draw_chunks draw bs s = (c, out, s') \<Longrightarrow> length out = length bs \<and> inv s' \<and> c \<in> {0, 1}"
proof (induction "length bs" arbitrary: bs s c out s' rule: less_induct)
  case less
  show ?case
  proof (cases "bs = []")
    case True
    with less.prems show ?thesis by (simp add: draw_chunks.simps)
  next
    case False
    obtain code o1 s1 where d: "draw (take 65536 bs) s = (code, o1, s1)" by (metis prod_cases3)
    have o1: "length o1 = min (length bs) 65536" "inv s1"
      using draw_length draw_inv less.prems(1) d by fastforce+
    obtain c2 o2 s2 where r: "draw_chunks draw (drop 65536 bs) s1 = (c2, o2, s2)" by (metis prod_cases3)
    have "length o2 = length bs - 65536 \<and> inv s2 \<and> c2 \<in> {0, 1}"
      using less.hyps [OF _ o1(2) r] False by simp
    then show ?thesis
      using less.prems(2) False d r o1 by (auto simp: draw_chunks.simps [of draw bs] split: if_splits)
  qed
qed

lemma batch_draw_spec:
  assumes "inv s" "unat p + unat n \<le> msize (memory md)" "unat p + unat n < 2147483648"
    "draw_chunks draw (bytes_at (memory md) (unat p) (unat n)) s = (c, out, s')"
  shows "batch_draw rg md s p n = Some (c, md\<lparr>memory := put_bytes (unat p) out (memory md)\<rparr>, s')"
  using assms
proof (induction "unat n" arbitrary: n p md s c out s' rule: less_induct)
  case less
  show ?case
  proof (cases "n = 0")
    case True
    with less.prems show ?thesis
      by (simp add: batch_draw.simps draw_chunks.simps bytes_at_def)
  next
    case False
    define v7 where "v7 = (if n < 65536 then n else 65536)"
    define k where "k = unat v7"
    have k: "k = min (unat n) 65536" by (auto simp: k_def v7_def word_less_nat_alt)
    have n: "0 < unat n" using False by (simp add: unat_gt_0)
    let ?m = "memory md"
    have first: "take 65536 (bytes_at ?m (unat p) (unat n)) = bytes_at ?m (unat p) k"
      "drop 65536 (bytes_at ?m (unat p) (unat n)) = bytes_at ?m (unat p + k) (unat n - k)"
      by (simp_all only: take_drop_bytes_at k)
    obtain code o1 s1 where d: "draw (bytes_at ?m (unat p) k) s = (code, o1, s1)" by (metis prod_cases3)
    have fn0: "fn0 rg md s p v7 = Some (code, md\<lparr>memory := put_bytes (unat p) o1 ?m\<rparr>, s1)"
      "length o1 = k" "inv s1"
      using fn0_draw [of s p v7 md code o1 s1] less.prems d k by (simp_all add: k_def)
    have "unat v7 \<le> unat n" using k by (simp add: k_def)
    then have next_words: "unat (p + v7) = unat p + k" "unat (n - v7) = unat n - k"
      using less.prems(3) unat_plus_i32 [of p v7] by (simp_all add: k_def unat_sub word_le_nat_alt)
    have nonempty: "bytes_at ?m (unat p) (unat n) \<noteq> []" using n by (auto simp flip: length_greater_0_conv)
    show ?thesis
    proof (cases "code = 0")
      case True
      obtain c2 o2 s2 where r: "draw_chunks draw (bytes_at ?m (unat p + k) (unat n - k)) s1 = (c2, o2, s2)"
        by (metis prod_cases3)
      let ?md = "md\<lparr>memory := put_bytes (unat p) o1 ?m\<rparr>"
      have "batch_draw rg ?md s1 (p + v7) (n - v7) =
          Some (c2, ?md\<lparr>memory := put_bytes (unat (p + v7)) o2 (memory ?md)\<rparr>, s2)"
        using less.prems fn0(2,3) k n r
        by (intro less.hyps) (simp_all add: next_words bytes_at_put_bytes_other)
      then have "batch_draw rg ?md s1 (p + v7) (n - v7) =
          Some (c2, md\<lparr>memory := put_bytes (unat p) (o1 @ o2) ?m\<rparr>, s2)"
        using fn0(2) by (simp add: next_words put_bytes_extend)
      moreover have "(c, out, s') = (c2, o1 @ o2, s2)"
        using less.prems(4) nonempty d r True by (simp add: draw_chunks.simps [of draw "bytes_at _ _ _" s] first)
      ultimately show ?thesis
        using False fn0(1) True by (simp add: batch_draw.simps [of rg md s p n] Let_def flip: v7_def)
    next
      case code: False
      then have "(c, out, s') = (1, o1 @ bytes_at ?m (unat p + k) (unat n - k), s1)"
        using less.prems(4) nonempty d by (simp add: draw_chunks.simps [of draw "bytes_at _ _ _" s] first)
      moreover have "put_bytes (unat p) (o1 @ bytes_at ?m (unat p + k) (unat n - k)) ?m = put_bytes (unat p) o1 ?m"
        using put_bytes_append [of "unat p + k" "unat p" o1 "bytes_at ?m (unat p + k) (unat n - k)" ?m] fn0(2) by simp
      ultimately show ?thesis
        using False fn0(1) code by (simp add: batch_draw.simps [of rg md s p n] Let_def flip: v7_def)
    qed
  qed
qed

end

section \<open>A whole batch\<close>

text \<open>
  A batch of \<open>n\<close> reserves \<open>batch_steps n\<close> steps. Of the \<open>6 n + 4\<close> bytes drawn, the last four
  give the seed of a fresh reservation, scaled so that the whole block fits its millisecond,
  and bytes \<open>6 i\<close> to \<open>6 i + 5\<close> are the random part of value \<open>i\<close>.
\<close>

definition batch_steps :: "nat \<Rightarrow> nat" where
  "batch_steps n = (n + 63) div 64"

definition batch_seed :: "nat \<Rightarrow> u8 list \<Rightarrow> nat" where
  "batch_seed n r = (unat (le32 (r ! (6 * n)) (r ! (6 * n + 1)) (r ! (6 * n + 2)) (r ! (6 * n + 3))) *
     (min (2 ^ 20 - batch_steps n) 0x7ffff + 1)) div 2 ^ 32"

definition batch_tail :: "u8 list \<Rightarrow> nat \<Rightarrow> u8 list" where
  "batch_tail r i = take 6 (drop (6 * i) r)"

definition batch_memory :: "mem \<Rightarrow> nat \<Rightarrow> nat \<Rightarrow> nat \<Rightarrow> u8 list \<Rightarrow> v7_plan \<Rightarrow> mem" where
  "batch_memory m p n w0 r plan = (case plan of
      Refused \<Rightarrow> put_bytes p r m
    | OutOfStream \<Rightarrow> put_bytes p (batch_bytes w0 n (batch_tail r)) (put_bytes p r m)
    | Reserved b \<Rightarrow> put_bytes p (batch_bytes b n (batch_tail r))
        (put_bytes 65560 (le_bytes8 (of_nat (b + batch_steps n - 1))) (put_bytes p r m)))"

lemma batch_steps_bounds:
  assumes "0 < n" "n \<le> 2 ^ 26"
  shows "0 < batch_steps n" "batch_steps n \<le> 2 ^ 20" "(n - 1) div 64 < batch_steps n"
proof -
  show "0 < batch_steps n" "batch_steps n \<le> 2 ^ 20"
    using assms div_le_mono [of "n + 63" "2 ^ 26 + 63" 64] div_le_mono [of 64 "n + 63" 64]
    by (simp_all add: batch_steps_def)
  have "n + 63 = (n - 1) + 64" using assms(1) by simp
  then have "(n + 63) div 64 = (n - 1) div 64 + 1" by (simp only: div_add_self2)
  then show "(n - 1) div 64 < batch_steps n" by (simp add: batch_steps_def)
qed

lemma scaled_less: "x < M \<Longrightarrow> 0 < c \<Longrightarrow> x * c div M < (c :: nat)"
  by (rule less_mult_imp_div_less) (simp add: mult.commute)

lemma batch_valid:
  assumes "0 < n" "n \<le> 2 ^ 26"
  shows "valid_call (batch_steps n) (batch_seed n r)"
proof -
  define c where "c = min (2 ^ 20 - batch_steps n) 0x7ffff + 1"
  have "batch_seed n r < c"
    unfolding batch_seed_def c_def [symmetric] using unat_i32_less
    by (intro scaled_less) (simp_all add: c_def)
  then show ?thesis
    using batch_steps_bounds [OF assms] by (auto simp: valid_call_def c_def)
qed

lemma batch_counts:
  fixes v1 :: i32
  assumes "0 < unat v1" "unat v1 \<le> 2 ^ 26"
  shows "unat (drop_bit 6 (v1 + 63)) = batch_steps (unat v1)"
    "unat (0x100000 - drop_bit 6 (v1 + 63)) = 2 ^ 20 - batch_steps (unat v1)"
    "v1 * 6 = of_nat (6 * unat v1)" "unat (v1 * 6 + 4) = 6 * unat v1 + 4" "unat (v1 * 6) = 6 * unat v1"
    "push_bit 4 v1 = of_nat (16 * unat v1)" "v1 + (- 1) = of_nat (unat v1 - 1)"
    "v1 * 6 + (- 6) = of_nat (6 * (unat v1 - 1))"
    "of_nat (16 * unat v1) = (of_nat (16 * (unat v1 - 1 + 1)) :: i32)"
proof -
  show steps: "unat (drop_bit 6 (v1 + 63)) = batch_steps (unat v1)"
    using assms(2) by (simp add: unat_drop_bit unat_plus_numeral_i32 batch_steps_def)
  show "unat (0x100000 - drop_bit 6 (v1 + 63)) = 2 ^ 20 - batch_steps (unat v1)"
    using steps batch_steps_bounds(2) [OF assms] by (simp add: unat_sub word_le_nat_alt)
  show v6: "v1 * 6 = of_nat (6 * unat v1)" by simp
  show u6: "unat (v1 * 6) = 6 * unat v1" using assms(2) unfolding v6 by (intro unat_of_nat_i32) simp
  show "unat (v1 * 6 + 4) = 6 * unat v1 + 4" using assms(2) u6 by (simp add: unat_plus_numeral_i32)
  show "push_bit 4 v1 = of_nat (16 * unat v1)" by (simp add: push_bit_eq_mult)
  show "v1 + (- 1) = of_nat (unat v1 - 1)" "v1 * 6 + (- 6) = of_nat (6 * (unat v1 - 1))"
    "of_nat (16 * unat v1) = (of_nat (16 * (unat v1 - 1 + 1)) :: i32)"
    using assms(1) by (simp_all add: of_nat_diff algebra_simps)
qed

lemma unat_ucast_down: "unat x < 2 ^ 32 \<Longrightarrow> unat (ucast (x :: i64) :: i32) = unat x"
  by (simp add: unsigned_ucast_eq take_bit_nat_eq_self)

lemma batch_seed_word:
  fixes w v4 :: i32
  assumes "unat v4 < 2 ^ 20"
  defines "c \<equiv> min (unat v4) 0x7ffff + 1"
  shows "unat (ucast (drop_bit 32 (ucast w * ucast ((if v4 < 0x7ffff then v4 else 0x7ffff) + 1) :: i64)) :: i32) =
    unat w * c div 2 ^ 32"
proof -
  have c: "c \<le> 2 ^ 19" by (simp add: c_def)
  have "unat ((if v4 < 0x7ffff then v4 else 0x7ffff) + 1) = c"
    using assms(1) by (auto simp: c_def word_less_nat_alt unat_plus_1_i32)
  then have u: "unat (ucast ((if v4 < 0x7ffff then v4 else 0x7ffff) + 1) :: i64) = c" "unat (ucast w :: i64) = unat w"
    using c unat_i32_less [of w] by (simp_all add: unsigned_ucast_eq take_bit_nat_eq_self)
  have "unat w * c \<le> 2 ^ 32 * 2 ^ 19" using c unat_i32_less [of w] by (intro mult_le_mono) simp_all
  then have prod: "unat (ucast w * ucast ((if v4 < 0x7ffff then v4 else 0x7ffff) + 1) :: i64) = unat w * c"
    using u by (simp add: unat_word_ariths)
  define q where "q = unat w * c div 2 ^ 32"
  have "q < c" unfolding q_def using unat_i32_less [of w] by (intro scaled_less) (simp_all add: c_def)
  then have q: "q < 2 ^ 32" using c by simp
  define P where "P = (ucast w * ucast ((if v4 < 0x7ffff then v4 else 0x7ffff) + 1) :: i64)"
  have P: "unat (drop_bit 32 P) = q" unfolding unat_drop_bit P_def prod q_def ..
  show ?thesis
    unfolding P_def [symmetric] q_def [symmetric]
    by (rule trans [OF unat_ucast_down P]) (unfold P, rule q)
qed

lemma batch_memory_steps:
  assumes "0 < n" "n \<le> 2 ^ 26" "first_step b v8 v9" "unat v8 \<le> 2 ^ 20"
  shows "unat v8 + (n - 1) div 64 < 2 ^ 21"
  using assms batch_steps_bounds [OF assms(1,2)] by simp

lemma batch_tail_bytes:
  assumes "length r = 6 * n + 4" "i < n" "bytes_at m p (6 * n + 4) = r"
  shows "bytes_at m (p + 6 * i) 6 = batch_tail r i"
proof (rule nth_equalityI)
  fix j assume "j < length (bytes_at m (p + 6 * i) 6)"
  then have "6 * i + j < 6 * n + 4" "j < 6" using assms(2) by simp_all
  moreover have "r ! (6 * i + j) = mbytes m (p + (6 * i + j))"
    unfolding assms(3) [symmetric] using calculation(1) by simp
  ultimately show "bytes_at m (p + 6 * i) 6 ! j = batch_tail r i ! j"
    using assms(1) by (simp add: batch_tail_def add.assoc)
qed (use assms in \<open>simp add: batch_tail_def\<close>)

context wasi_random
begin

lemma new_v7_batch_refused:
  "253402300799999 < unat v0 \<Longrightarrow> Xuuid_new_v7_batch rg md s v0 v1 p = Some (2, md, s)"
  "unat v0 \<le> 253402300799999 \<Longrightarrow> v1 = 0 \<Longrightarrow> Xuuid_new_v7_batch rg md s v0 v1 p = Some (0, md, s)"
  "unat v0 \<le> 253402300799999 \<Longrightarrow> 2 ^ 26 < unat v1 \<Longrightarrow> Xuuid_new_v7_batch rg md s v0 v1 p = Some (4, md, s)"
  by (auto simp: Xuuid_new_v7_batch_def word_le_nat_alt)

lemma new_v7_batch_spec:
  fixes v0 :: i64 and v1 :: i32
  defines "n \<equiv> unat v1"
  assumes "core_ok md" "131072 \<le> unat p" "unat p + 16 * n \<le> msize (memory md)" "unat p + 16 * n < 2147483648"
    "inv s" "draw_chunks draw (bytes_at (memory md) (unat p) (6 * n + 4)) s = (code, r, s')"
    and v0: "unat v0 \<le> 253402300799999" and n: "0 < n" "n \<le> 2 ^ 26"
  defines "seed \<equiv> batch_seed n r"
  defines "plan \<equiv> v7_plan (batch_steps n) (unat (stream_word md)) (unat v0) seed"
  shows "Xuuid_new_v7_batch rg md s v0 v1 p = Some
      (if code \<noteq> 0 then 1 else if plan = Refused then 6 else 0,
       md\<lparr>memory := if code \<noteq> 0 then put_bytes (unat p) r (memory md)
         else batch_memory (memory md) (unat p) n ((unat v0 + 1) * 2 ^ 20 + seed) r plan\<rparr>, s')"
proof -
  have p: "131072 \<le> unat p" "unat p + 16 * n \<le> msize (memory md)" "msize (memory md) \<le> 4294967296"
    "65568 \<le> msize (memory md)"
    using assms(2-4) by (simp_all add: core_ok_def)
  note cnt = batch_counts [of v1, folded n_def, OF n]
  have r: "length r = 6 * n + 4" "inv s'" using draw_chunks_props [OF assms(6,7)] by simp_all
  have six: "6 * n + 4 \<le> 16 * n" using n by simp
  let ?m = "put_bytes (unat p) r (memory md)"
  have draw: "batch_draw rg md s p (v1 * 6 + 4) = Some (code, md\<lparr>memory := ?m\<rparr>, s')"
    using assms(4-7) six by (intro batch_draw_spec) (simp_all add: cnt(4))
  define w where "w = le32 (r ! (6 * n)) (r ! (6 * n + 1)) (r ! (6 * n + 2)) (r ! (6 * n + 3))"
  have "unat (p + v1 * 6) = unat p + 6 * n" using assms(5) cnt(5) by (simp add: unat_plus_i32)
  then have load: "load32 ?m (unat (p + v1 * 6)) = Some w"
    using p(2) six r(1) by (simp add: mem_simps w_def mbytes_put_bytes)
  define v7 where "v7 = drop_bit 6 (v1 + 63)"
  define v4 where "v4 = 0x100000 - v7"
  have k: "unat v7 = batch_steps n" "unat v4 = 2 ^ 20 - batch_steps n"
    using cnt(1,2) by (simp_all add: v7_def v4_def)
  have v4_small: "\<not> v4 > 0x100000" "unat v4 < 2 ^ 20"
    using k(2) batch_steps_bounds [OF n] by (simp_all add: word_less_nat_alt)
  define s4 where "s4 = (ucast (drop_bit 32 (ucast w * ucast ((if v4 < 0x7ffff then v4 else 0x7ffff) + 1) :: i64)) :: i32)"
  have s4: "unat s4 = seed"
    unfolding s4_def batch_seed_word [OF v4_small(2)] seed_def batch_seed_def w_def k(2) ..
  define v9 where "v9 = (push_bit 20 v0 OR ucast ((v7 + s4 + (- 1)) AND 0xfffff)) + 0x100000"
  define res where "res = (if v0 > 0xffffffffffe then Some Out
      else do { t9 \<leftarrow> load64 ?m 65560; cas_loop (batch_step v0 v7 s4 v9) ?m t9 })"
  define fill where "fill m v11 v12 = batch_fill m (push_bit 4 v1) p v11 v12 (p + (- 16)) (v1 + (- 1))
      (v1 * 6 + (- 6)) (push_bit 4 v1) 0 (- 1)" for m v11 v12
  have run: "Xuuid_new_v7_batch rg md s v0 v1 p = (if code \<noteq> 0 then Some (1, md\<lparr>memory := ?m\<rparr>, s')
     else res \<bind> (\<lambda>res. case res of
        Full \<Rightarrow> Some (6, md\<lparr>memory := ?m\<rparr>, s')
      | Out \<Rightarrow> do { m \<leftarrow> fill ?m s4 v0; Some (0, md\<lparr>memory := m\<rparr>, s') }
      | Taken m v11 v12 \<Rightarrow> do { m \<leftarrow> fill m v11 v12; Some (0, md\<lparr>memory := m\<rparr>, s') }))"
  proof -
    have "v0 \<le> 253402300799999" "v1 \<noteq> 0" "v1 \<le> 0x4000000" "\<not> v1 > 0xfffffff"
      using v0 n by (auto simp: word_le_nat_alt word_less_nat_alt n_def)
    moreover have "push_bit 4 v1 \<noteq> 0"
      using n unfolding cnt(6) by (simp add: word_unat_eq_iff unat_of_nat_i32 del: of_nat_mult)
    ultimately show ?thesis
      by (simp only: Xuuid_new_v7_batch_def Let_def if_True if_False not_True_eq_False not_False_eq_True
          draw bind.bind_lunit prod.case core_module.simps load if_not_P [OF v4_small(1)]
          v7_def [symmetric] v4_def [symmetric])
        (simp add: res_def fill_def s4_def v9_def load)
  qed
  have load65560: "load64 ?m 65560 = Some (stream_word md)"
    using p by (simp add: mem_simps stream_word_def mbytes_put_bytes)
  have out: "plan = OutOfStream \<Longrightarrow> res = Some Out" "plan = Refused \<Longrightarrow> res = Some Full"
      "plan = Reserved b \<Longrightarrow> \<exists>v8 v9. res = Some (Taken (put_bytes 65560
         (le_bytes8 (of_nat (b + batch_steps n - 1))) ?m) v8 v9) \<and> first_step b v8 v9 \<and> unat v8 \<le> 2 ^ 20" for b
  proof -
    have "step_of_plan plan (batch_steps n) (batch_step v0 v7 s4 v9 (stream_word md))"
      if "\<not> v0 > 0xffffffffffe"
    proof -
      have lim: "unat v0 \<le> 17592186044414" using that by (simp add: word_less_nat_alt)
      have val: "0 < unat v7" "unat s4 + unat v7 \<le> 2 ^ 20"
        using batch_valid [OF n, of r] by (simp_all add: valid_call_def k s4 seed_def)
      then have "unat (v7 + s4) = unat v7 + unat s4" by (intro unat_plus_i32) simp
      moreover from this have "v7 + s4 \<noteq> 0" using val(1) by (metis add_is_0 less_numeral_extra(3) unat_0)
      ultimately have "unat (v7 + s4 + (- 1)) = unat v7 + unat s4 - 1"
        using unat_minus_one [of "v7 + s4"] by simp
      then have "unat (ucast ((v7 + s4 + (- 1)) AND 0xfffff) :: i64) = unat v7 + unat s4 - 1"
        unfolding mask_20 using val by (simp add: unsigned_ucast_eq unat_take_bit take_bit_nat_eq_self)
      then have "v9 = of_nat ((unat v0 + 1) * 2 ^ 20 + unat s4 + unat v7 - 1)"
        using val lim fresh_word [of v0 "ucast ((v7 + s4 + (- 1)) AND 0xfffff)"] unfolding v9_def
        by (simp add: algebra_simps)
      from batch_step_spec [OF lim _ this, of "stream_word md"] batch_valid [OF n, of r]
      show ?thesis by (simp add: plan_def k s4 seed_def)
    qed
    moreover have "plan = OutOfStream" if "v0 > 0xffffffffffe"
      using that by (simp add: plan_def v7_plan_def word_less_nat_alt)
    ultimately show "plan = OutOfStream \<Longrightarrow> res = Some Out" "plan = Refused \<Longrightarrow> res = Some Full"
      "plan = Reserved b \<Longrightarrow> \<exists>v8 v9. res = Some (Taken (put_bytes 65560
         (le_bytes8 (of_nat (b + batch_steps n - 1))) ?m) v8 v9) \<and> first_step b v8 v9 \<and> unat v8 \<le> 2 ^ 20"
      using load65560 cas_loop_spec [OF load65560] by (cases "v0 > 0xffffffffffe"; fastforce simp: res_def)+
  qed
  have filled: "fill m v11 v12 = Some (put_bytes (unat p) (batch_bytes b n (batch_tail r)) m)"
    if "first_step b v11 v12" "unat v11 \<le> 2 ^ 20" "msize m = msize (memory md)"
      "bytes_at m (unat p) (6 * n + 4) = r" for m b v11 v12
  proof -
    have "fill m v11 v12 = Some (put_bytes (unat p)
        (batch_bytes b (n - 1 + 1) (\<lambda>i. bytes_at m (unat p + 6 * i) 6)) m)"
      unfolding fill_def cnt(6-8)
      using that p n batch_memory_steps [OF n that(1,2)]
        batch_fill_spec [of "n - 1" n p m b v12 v11 "- 1" 0]
      by (simp add: first_step_def)
    also have "batch_bytes b (n - 1 + 1) (\<lambda>i. bytes_at m (unat p + 6 * i) 6) = batch_bytes b n (batch_tail r)"
      using n(1) by (simp, intro batch_bytes_cong batch_tail_bytes [OF r(1) _ that(4)]) simp
    finally show ?thesis .
  qed
  show ?thesis
  proof (cases "code \<noteq> 0")
    case True
    then show ?thesis by (simp add: run)
  next
    case code: False
    show ?thesis
    proof (cases plan)
      case Refused
      with code out(2) show ?thesis by (simp add: run batch_memory_def)
    next
      case OutOfStream
      have "first_step ((unat v0 + 1) * 2 ^ 20 + seed) s4 v0" "unat s4 \<le> 2 ^ 20"
        using s4 batch_valid [OF n, of r] v0 by (simp_all add: first_step_def valid_call_def seed_def)
      from filled [OF this, of ?m] OutOfStream code out(1) r(1) show ?thesis
        by (simp add: run batch_memory_def)
    next
      case (Reserved b)
      let ?mm = "put_bytes 65560 (le_bytes8 (of_nat (b + batch_steps n - 1))) ?m"
      obtain v8 v9 where res: "res = Some (Taken ?mm v8 v9)" "first_step b v8 v9" "unat v8 \<le> 2 ^ 20"
        using out(3) [OF Reserved] by blast
      have "bytes_at ?mm (unat p) (6 * n + 4) = r"
        using p(1) r(1) by (simp add: bytes_at_put_bytes_other length_le_bytes8)
      from filled [OF res(2,3) _ this] Reserved code res(1) show ?thesis
        by (simp add: run batch_memory_def)
    qed
  qed
qed

end

section \<open>Order within and between calls\<close>

text \<open>The values of a batch, one by one.\<close>

definition batch_uuids :: "nat \<Rightarrow> nat \<Rightarrow> (nat \<Rightarrow> u8 list) \<Rightarrow> u8 list list" where
  "batch_uuids b n tail = map (\<lambda>i. v7_uuid (b + i div 64) (i mod 64) (tail i)) [0..<n]"

lemma batch_bytes_uuids: "batch_bytes b n tail = concat (batch_uuids b n tail)"
  by (simp add: batch_bytes_def batch_uuids_def)

lemma batch_uuids_values:
  assumes "0 < n" "n \<le> 2 ^ 26" "2 ^ 20 \<le> b" "b + batch_steps n - 1 < 2 ^ 68"
    "\<And>i. i < n \<Longrightarrow> length (tail i) = 6"
  shows "stream_values b (b + batch_steps n - 1) (batch_uuids b n tail)"
    "increasing (batch_uuids b n tail)"
proof -
  have step: "b + i div 64 \<le> b + batch_steps n - 1" if "i < n" for i
    using batch_steps_bounds [OF assms(1,2)] that div_le_mono [of i "n - 1" 64] by linarith
  then show "stream_values b (b + batch_steps n - 1) (batch_uuids b n tail)"
    unfolding stream_values_def batch_uuids_def
  proof (intro conjI ballI)
    fix u assume "u \<in> set (map (\<lambda>i. v7_uuid (b + i div 64) (i mod 64) (tail i)) [0..<n])"
    then obtain i where "i < n" "u = v7_uuid (b + i div 64) (i mod 64) (tail i)" by auto
    with step assms(5) show "\<exists>w c t. b \<le> w \<and> w \<le> b + batch_steps n - 1 \<and> c < 64 \<and> length t = 6 \<and> u = v7_uuid w c t"
      by (intro exI [of _ "b + i div 64"] exI [of _ "i mod 64"] exI [of _ "tail i"]) simp
  qed (use assms in simp_all)
  show "increasing (batch_uuids b n tail)"
    unfolding increasing_def sorted_wrt_iff_nth_less
  proof (intro allI impI)
    fix i j assume ij: "i < j" "j < length (batch_uuids b n tail)"
    then have n: "i < n" "j < n" by (simp_all add: batch_uuids_def)
    have "(b + i div 64) * 64 + i mod 64 = b * 64 + i" for i by (simp add: algebra_simps)
    then have "be_nat (v7_uuid (b + i div 64) (i mod 64) (tail i)) < be_nat (v7_uuid (b + j div 64) (j mod 64) (tail j))"
      using ij(1) assms(3,4) step [OF n(1)] step [OF n(2)] assms(5) [OF n(1)] assms(5) [OF n(2)]
      by (intro v7_uuid_less) simp_all
    then show "be_nat (batch_uuids b n tail ! i) < be_nat (batch_uuids b n tail ! j)"
      using n by (simp add: batch_uuids_def)
  qed
qed

end
