(* ===== verification/Host_Instance.thy ===== *)
theory Host_Instance
  imports Core_SqlOrder Core_V7_Batch
begin

text \<open>
  Instances of \<open>src/go/core.go\<close>: a translated module, its random source and a scratch region in
  the module's memory, and every call the package makes on one: arguments are copied into the
  scratch, the core runs on scratch addresses, results are copied out. The largest host \<open>int\<close>
  is a parameter \<open>maxint\<close> (2147483647 or 9223372036854775807).
\<close>

section \<open>Creation and growth\<close>

type_synonym uuid = "u8 list"

definition pageSize :: nat where "pageSize = 65536"
definition basePages :: nat where "basePages = 1"

definition hostMaxPages :: "nat \<Rightarrow> nat" where
  "hostMaxPages maxint = min 65536 (maxint div 65536)"

record inst =
  im :: core_module
  src :: source
  scratch :: i32
  pages :: nat

text \<open>\<open>None\<close> of the outer option is a panic, of the inner one the code's \<open>false\<close>.\<close>

definition newInstanceWith :: "nat \<Rightarrow> nat \<Rightarrow> source \<Rightarrow> inst option option" where
  "newInstanceWith maxint pgs sr =
     do { md \<leftarrow> core_New;
          let (old, md) = module_Grow maxint md (of_nat pgs) (of_nat (hostMaxPages maxint));
          if old <s 0 then Some None
          else Some (Some \<lparr>im = md, src = sr, scratch = ucast old * of_nat pageSize, pages = pgs\<rparr>) }"

definition newInstance :: "nat \<Rightarrow> bool \<Rightarrow> bool \<Rightarrow> nat \<Rightarrow> inst option option" where
  "newInstance maxint accelerated fips pgs = newInstanceWith maxint pgs (newSource accelerated fips)"

definition scratchPagesFor :: "nat \<Rightarrow> nat \<Rightarrow> nat option" where
  "scratchPagesFor maxint bytes =
     (let need = bytes div pageSize;
          need = (if bytes mod pageSize \<noteq> 0 then need + 1 else need)
      in if need + 2 > hostMaxPages maxint then None else Some need)"

definition ensureScratch :: "nat \<Rightarrow> inst \<Rightarrow> nat \<Rightarrow> bool \<times> inst" where
  "ensureScratch maxint i bytes =
     (case scratchPagesFor maxint bytes of
        None \<Rightarrow> (False, i)
      | Some need \<Rightarrow>
          if need \<le> pages i then (True, i)
          else let (old, md) = module_Grow maxint (im i) (of_nat (need - pages i)) (of_nat (hostMaxPages maxint))
            in if old <s 0 then (False, i\<lparr>im := md\<rparr>) else (True, i\<lparr>im := md, pages := need\<rparr>))"

section \<open>Calls on an instance\<close>

text \<open>\<open>copy(out[:], mem[a:])\<close> into a zeroed UUID.\<close>

definition copy_uuid :: "mem \<Rightarrow> nat \<Rightarrow> uuid option" where
  "copy_uuid m a = do { bs \<leftarrow> copy_out m a 16; Some (bs @ replicate (16 - length bs) 0) }"

definition load :: "inst \<Rightarrow> uuid \<Rightarrow> (i32 \<times> inst) option" where
  "load i uid =
     do { m \<leftarrow> copy_in (memory (im i)) (unat (scratch i)) uid;
          Some (scratch i, i\<lparr>im := (im i)\<lparr>memory := m\<rparr>\<rparr>) }"

definition result :: "inst \<Rightarrow> uuid option" where
  "result i = copy_uuid (memory (im i)) (unat (scratch i))"

definition i_newV4 :: "keystream \<Rightarrow> inst \<Rightarrow> os_env \<Rightarrow> ((uuid \<times> i32) \<times> inst \<times> os_env) option" where
  "i_newV4 ctr i e =
     do { (rc, md, sr, e) \<leftarrow> Xuuid_new_v4 (Xrandom_get ctr) (im i) (src i, e) (scratch i);
          out \<leftarrow> copy_uuid (memory md) (unat (scratch i));
          Some ((out, rc), i\<lparr>im := md, src := sr\<rparr>, e) }"

definition i_newV7 ::
    "keystream \<Rightarrow> i64 \<Rightarrow> inst \<Rightarrow> os_env \<Rightarrow> ((uuid \<times> i32) \<times> inst \<times> os_env) option"
where
  "i_newV7 ctr unixMillis i e =
     do { (rc, md, sr, e) \<leftarrow> Xuuid_new_v7 (Xrandom_get ctr) (im i) (src i, e) unixMillis (scratch i);
          out \<leftarrow> copy_uuid (memory md) (unat (scratch i));
          Some ((out, rc), i\<lparr>im := md, src := sr\<rparr>, e) }"

text \<open>The batch's bytes go to the caller only on success: otherwise \<open>out\<close> keeps what it had.\<close>

definition i_newV7Batch ::
    "nat \<Rightarrow> keystream \<Rightarrow> i64 \<Rightarrow> i32 \<Rightarrow> u8 list \<Rightarrow> inst \<Rightarrow> os_env \<Rightarrow> ((u8 list \<times> i32) \<times> inst \<times> os_env) option"
where
  "i_newV7Batch maxint ctr unixMillis count out i e =
     (let n = unat count * 16;
          (fits, i) = ensureScratch maxint i n
      in if \<not> fits then Some ((out, 3), i, e)
         else do { (rc, md, sr, e) \<leftarrow>
                     Xuuid_new_v7_batch (Xrandom_get ctr) (im i) (src i, e) unixMillis count (scratch i);
                   out \<leftarrow> (if rc = 0 then do { bs \<leftarrow> copy_out (memory md) (unat (scratch i)) n;
                                               Some (bs @ drop (length bs) out) }
                           else Some out);
                   Some ((out, rc), i\<lparr>im := md, src := sr\<rparr>, e) })"

definition i_convert :: "(core_module \<Rightarrow> i32 \<Rightarrow> (core_module \<times> i32) option) \<Rightarrow> uuid \<Rightarrow> inst \<Rightarrow> ((uuid \<times> i32) \<times> inst) option" where
  "i_convert call uid i =
     do { (s, i) \<leftarrow> load i uid;
          (md, rc) \<leftarrow> call (im i) s;
          let i = i\<lparr>im := md\<rparr>;
          out \<leftarrow> result i;
          Some ((out, rc), i) }"

definition i_v7ToSqlOrder :: "uuid \<Rightarrow> inst \<Rightarrow> ((uuid \<times> i32) \<times> inst) option" where
  "i_v7ToSqlOrder = i_convert Xuuid_v7_to_sql_order"

definition i_v7ToRfcOrder :: "uuid \<Rightarrow> inst \<Rightarrow> ((uuid \<times> i32) \<times> inst) option" where
  "i_v7ToRfcOrder = i_convert Xuuid_v7_to_rfc_order"

definition i_v7UnixMillis :: "uuid \<Rightarrow> inst \<Rightarrow> (i64 \<times> inst) option" where
  "i_v7UnixMillis uid i =
     do { (s, i) \<leftarrow> load i uid; r \<leftarrow> Xuuid_v7_unix_millis (im i) s; Some (r, i) }"

definition i_v7UnixMillisIn :: "uuid \<Rightarrow> i32 \<Rightarrow> inst \<Rightarrow> (i64 \<times> inst) option" where
  "i_v7UnixMillisIn uid layout i =
     do { (s, i) \<leftarrow> load i uid; r \<leftarrow> Xuuid_v7_unix_millis_in (im i) s layout; Some (r, i) }"

definition i_version :: "uuid \<Rightarrow> i32 \<Rightarrow> inst \<Rightarrow> (i32 \<times> inst) option" where
  "i_version uid layout i =
     do { (s, i) \<leftarrow> load i uid; r \<leftarrow> Xuuid_version (im i) s layout; Some (r, i) }"

definition i_variant :: "uuid \<Rightarrow> inst \<Rightarrow> (i32 \<times> inst) option" where
  "i_variant uid i = do { (s, i) \<leftarrow> load i uid; r \<leftarrow> Xuuid_variant (im i) s; Some (r, i) }"

definition i_isRfc :: "uuid \<Rightarrow> i32 \<Rightarrow> i32 \<Rightarrow> inst \<Rightarrow> (bool \<times> inst) option" where
  "i_isRfc uid ver layout i =
     do { (s, i) \<leftarrow> load i uid; r \<leftarrow> Xuuid_is_rfc (im i) s ver layout; Some (r \<noteq> 0, i) }"

definition i_getTimestamp :: "uuid \<Rightarrow> i32 \<Rightarrow> inst \<Rightarrow> ((i32 \<times> i64) \<times> inst) option" where
  "i_getTimestamp uid layout i =
     do { (s, i) \<leftarrow> load i uid;
          (md, ver) \<leftarrow> Xuuid_get_timestamp (im i) s layout (s + 16);
          let i = i\<lparr>im := md\<rparr>;
          ms \<leftarrow> load64 (memory (im i)) (unat (scratch i) + 16);
          Some ((ver, ms), i) }"

section \<open>Well-formed instances\<close>

definition host_ok :: "nat \<Rightarrow> bool" where
  "host_ok maxint \<longleftrightarrow> 2147483647 \<le> maxint"

definition src_ok :: "source \<Rightarrow> bool" where
  "src_ok sr \<longleftrightarrow> (\<forall>a. sr = AesSource a \<longrightarrow> aes_inv a)"

definition inst_ok :: "nat \<Rightarrow> inst \<Rightarrow> bool" where
  "inst_ok maxint i \<longleftrightarrow> core_ok (im i) \<and> src_ok (src i) \<and> scratch i = 131072 \<and> 1 \<le> pages i \<and>
     pages i + 2 \<le> hostMaxPages maxint \<and> msize (memory (im i)) = (pages i + 2) * 65536"

lemma source_inv_src_ok [simp]: "source_inv (sr, e) \<longleftrightarrow> src_ok sr"
  by (cases sr) (simp_all add: src_ok_def)

lemma src_ok_newSource: "src_ok (newSource accelerated fips)"
  using source_inv_new by simp

lemma hostMaxPages_bounds:
  "hostMaxPages maxint \<le> 65536" "hostMaxPages maxint \<le> maxint div 65536"
  "host_ok maxint \<Longrightarrow> 32767 \<le> hostMaxPages maxint"
  using div_le_mono [of 2147483647 maxint 65536] by (auto simp: hostMaxPages_def host_ok_def)

lemma memory_grow_spec:
  assumes "msize m = k * 65536" "k \<le> 65536" "0 < d" "d \<le> 4294967295"
  shows "memory_grow maxint m (of_nat d) (of_nat (hostMaxPages maxint)) =
    (if k + d \<le> hostMaxPages maxint
     then (of_nat k, \<lparr>msize = (k + d) * 65536, mbytes = (\<lambda>a. if a < msize m then mbytes m a else 0)\<rparr>)
     else (- 1, m))"
proof -
  have u: "unat (of_nat d :: i64) = d" "unat (of_nat (hostMaxPages maxint) :: i64) = hostMaxPages maxint"
    using assms(4) hostMaxPages_bounds(1) [of maxint] by (simp_all add: unat_of_nat_i64)
  have "(of_nat d :: i64) \<noteq> 0" using assms(3) u(1) by (metis less_numeral_extra(3) unat_0)
  moreover have "min (hostMaxPages maxint) (maxint div 65536) = hostMaxPages maxint"
    using hostMaxPages_bounds(2) [of maxint] by simp
  moreover have "\<not> 2 ^ 64 \<le> k + d" using assms(2,4) by simp
  ultimately show ?thesis
    using assms(1) by (simp add: memory_grow_def Let_def u not_le)
qed

lemma old_pages_sign: "k \<le> 65536 \<Longrightarrow> \<not> (of_nat k :: i64) <s 0" "(- 1 :: i64) <s 0"
proof -
  assume "k \<le> 65536"
  then have "sint (of_nat k :: i64) = int k"
    by (simp add: sint_uint uint_nat unat_of_nat_i64 signed_take_bit_int_eq_self del: of_nat_unat)
  then show "\<not> (of_nat k :: i64) <s 0" by (simp add: word_sless_alt)
qed (simp add: word_sless_alt)

text \<open>Growing keeps every byte, so it keeps the core's invariant and the stream.\<close>

lemma core_grow_ok:
  assumes "core_ok md" "msize (memory md) \<le> n" "n \<le> 4294967296"
    "\<And>a. a < msize (memory md) \<Longrightarrow> f a = mbytes (memory md) a"
  shows "core_ok (md\<lparr>memory := \<lparr>msize = n, mbytes = f\<rparr>\<rparr>)"
    "stream_word (md\<lparr>memory := \<lparr>msize = n, mbytes = f\<rparr>\<rparr>) = stream_word md"
proof -
  have ok: "g0 md = 65536" "131072 \<le> msize (memory md)" "bytes_at (memory md) 65536 23 = data0"
    using assms(1) by (simp_all add: core_ok_def)
  have "bytes_at \<lparr>msize = n, mbytes = f\<rparr> 65536 23 = bytes_at (memory md) 65536 23"
    using assms(4) ok(2) by (intro bytes_at_cong) simp
  then show "core_ok (md\<lparr>memory := \<lparr>msize = n, mbytes = f\<rparr>\<rparr>)"
    using ok assms(2,3) by (simp add: core_ok_def)
  show "stream_word (md\<lparr>memory := \<lparr>msize = n, mbytes = f\<rparr>\<rparr>) = stream_word md"
    using assms(4) ok(2) by (intro stream_word_frame) simp
qed

lemma newInstanceWith_spec:
  assumes "1 \<le> pgs" "pgs \<le> 4294967295" "src_ok sr"
  shows "if pgs + 2 \<le> hostMaxPages maxint
     then \<exists>i. newInstanceWith maxint pgs sr = Some (Some i) \<and> inst_ok maxint i \<and> pages i = pgs \<and>
       src i = sr \<and> stream_word (im i) = 0
     else newInstanceWith maxint pgs sr = Some None"
proof -
  obtain md where md: "core_New = Some md" "core_ok md" "stream_word md = 0" "msize (memory md) = 2 * 65536"
    using core_New_ok by (auto simp: core_New_eq)
  note grow = memory_grow_spec [OF md(4) _ _ assms(2), of maxint]
  show ?thesis
  proof (cases "pgs + 2 \<le> hostMaxPages maxint")
    case True
    have "newInstanceWith maxint pgs sr = Some (Some \<lparr>im = md\<lparr>memory := \<lparr>msize = (2 + pgs) * 65536,
        mbytes = (\<lambda>a. if a < msize (memory md) then mbytes (memory md) a else 0)\<rparr>\<rparr>,
        src = sr, scratch = 131072, pages = pgs\<rparr>)"
      using True assms(1) grow old_pages_sign(1) [of 2]
      by (simp add: newInstanceWith_def md(1) module_Grow_def add.commute pageSize_def)
    then show ?thesis
      using True assms(1,3) core_grow_ok [OF md(2), of "(2 + pgs) * 65536"] md hostMaxPages_bounds(1) [of maxint]
      by (simp add: inst_ok_def)
  next
    case False
    then show ?thesis
      using assms(1) grow old_pages_sign(2) by (simp add: newInstanceWith_def md(1) module_Grow_def add.commute)
  qed
qed

lemma scratchPagesFor_spec:
  "scratchPagesFor maxint bytes = (let need = (bytes + 65535) div 65536
     in if need + 2 \<le> hostMaxPages maxint then Some need else None)"
proof -
  define q r where "q = bytes div 65536" and "r = bytes mod 65536"
  have b: "bytes = q * 65536 + r" "r < 65536" by (simp_all add: q_def r_def)
  have "(bytes + 65535) div 65536 = (if r \<noteq> 0 then q + 1 else q)"
    using b by (intro div_nat_eqI) auto
  then show ?thesis unfolding scratchPagesFor_def pageSize_def Let_def q_def r_def
    by (simp only: if_distrib) (simp add: not_less)
qed

lemma ensureScratch_spec:
  fixes bytes :: nat
  assumes "inst_ok maxint i"
  defines "need \<equiv> (bytes + 65535) div 65536"
  shows "if need + 2 \<le> hostMaxPages maxint
     then \<exists>i'. ensureScratch maxint i bytes = (True, i') \<and> inst_ok maxint i' \<and> pages i' = max (pages i) need \<and>
       src i' = src i \<and> stream_word (im i') = stream_word (im i) \<and> bytes \<le> pages i' * 65536
     else ensureScratch maxint i bytes = (False, i)"
proof -
  have i: "core_ok (im i)" "1 \<le> pages i" "pages i + 2 \<le> hostMaxPages maxint" "msize (memory (im i)) = (pages i + 2) * 65536"
    using assms(1) by (simp_all add: inst_ok_def)
  have fits: "bytes \<le> need * 65536" unfolding need_def
    using div_mult_mod_eq [of "bytes + 65535" 65536] mod_less_divisor [of 65536 "bytes + 65535"] by linarith
  show ?thesis
  proof (cases "need + 2 \<le> hostMaxPages maxint")
    case False
    then show ?thesis by (simp add: ensureScratch_def scratchPagesFor_spec Let_def flip: need_def)
  next
    case True
    show ?thesis
    proof (cases "need \<le> pages i")
      case le: True
      then have "bytes \<le> pages i * 65536" using fits mult_le_mono1 [OF le, of 65536] by linarith
      with True le assms(1) show ?thesis
        by (simp add: ensureScratch_def scratchPagesFor_spec Let_def flip: need_def)
    next
      case more: False
      have "pages i + 2 \<le> 65536" "0 < need - pages i" "need - pages i \<le> 4294967295"
        "pages i + 2 + (need - pages i) = need + 2"
        using i more True hostMaxPages_bounds(1) [of maxint] by simp_all
      note grow = memory_grow_spec [OF i(4) this(1-3), of maxint, unfolded this(4)]
      have "ensureScratch maxint i bytes = (True, i\<lparr>im := (im i)\<lparr>memory := \<lparr>msize = (need + 2) * 65536,
          mbytes = (\<lambda>a. if a < msize (memory (im i)) then mbytes (memory (im i)) a else 0)\<rparr>\<rparr>, pages := need\<rparr>)"
        using True more grow old_pages_sign(1) [of "pages i + 2"] \<open>pages i + 2 \<le> 65536\<close>
        by (simp add: ensureScratch_def scratchPagesFor_spec Let_def module_Grow_def flip: need_def)
      then show ?thesis
        using True more fits assms(1) i core_grow_ok [OF i(1), of "(need + 2) * 65536"] hostMaxPages_bounds(1) [of maxint]
        by (simp add: inst_ok_def max_def)
    qed
  qed
qed

section \<open>What the calls return\<close>

text \<open>\<open>quiet\<close>: a call that leaves the stream, the source and the size of the scratch alone.\<close>

definition quiet :: "nat \<Rightarrow> inst \<Rightarrow> inst \<Rightarrow> bool" where
  "quiet maxint i i' \<longleftrightarrow> inst_ok maxint i' \<and> src i' = src i \<and> pages i' = pages i \<and>
     stream_word (im i') = stream_word (im i)"

lemma inst_ok_frame:
  assumes "inst_ok maxint i" "core_ok md" "msize (memory md) = msize (memory (im i))" "src_ok sr"
  shows "inst_ok maxint (i\<lparr>im := md, src := sr\<rparr>)" "inst_ok maxint (i\<lparr>im := md\<rparr>)"
  using assms by (simp_all add: inst_ok_def)

lemma scratch_arg:
  assumes "inst_ok maxint i" "n \<le> 65536" "im' = im i \<or> msize (memory im') = msize (memory (im i))"
  shows "arg_ok im' 131072 n" "unat (scratch i) = 131072"
proof -
  have "131072 + n \<le> (pages i + 2) * 65536" using assms(1,2) by (simp add: inst_ok_def)
  then show "arg_ok im' 131072 n" "unat (scratch i) = 131072"
    using assms by (auto simp: inst_ok_def arg_ok_def)
qed

lemma stream_word_put_bytes:
  "65568 \<le> a \<Longrightarrow> stream_word (md\<lparr>memory := put_bytes a bs (memory md)\<rparr>) = stream_word md"
  by (rule stream_word_frame) (simp add: mbytes_put_bytes)

lemma put_scratch:
  assumes "inst_ok maxint i" "length bs \<le> 65536" "131072 \<le> a" "a + length bs \<le> 196608"
  defines "i' \<equiv> i\<lparr>im := (im i)\<lparr>memory := put_bytes a bs (memory (im i))\<rparr>\<rparr>"
  shows "quiet maxint i i'"
proof -
  have "core_ok ((im i)\<lparr>memory := put_bytes a bs (memory (im i))\<rparr>)"
  proof (rule core_ok_frame)
    show ok: "core_ok (im i)" using assms(1) by (simp add: inst_ok_def)
    show "g0 ((im i)\<lparr>memory := put_bytes a bs (memory (im i))\<rparr>) = 65536" using ok by (simp add: core_ok_def)
  qed (use assms(3) in \<open>simp_all add: mbytes_put_bytes\<close>)
  then show ?thesis
    using assms inst_ok_frame(2) [OF assms(1)] stream_word_put_bytes [where md = "im i" and a = a and bs = bs]
    by (simp add: quiet_def i'_def inst_ok_def)
qed

lemma quiet_trans: "quiet maxint i j \<Longrightarrow> quiet maxint j k \<Longrightarrow> quiet maxint i k"
  by (simp add: quiet_def)

lemma copy_uuid_scratch:
  "131072 + 16 \<le> msize m \<Longrightarrow> copy_uuid m 131072 = Some (bytes_at m 131072 16)"
  by (simp add: copy_uuid_def mem_simps)

lemma load_spec:
  assumes "inst_ok maxint i" "length uid = 16"
  obtains i1 where "load i uid = Some (131072, i1)" "quiet maxint i i1" "inst_ok maxint i1"
    "arg_ok (im i1) 131072 16" "core_ok (im i1)" "bytes_at (memory (im i1)) 131072 16 = uid"
    "scratch i1 = 131072"
proof -
  let ?i = "i\<lparr>im := (im i)\<lparr>memory := put_bytes 131072 uid (memory (im i))\<rparr>\<rparr>"
  have s: "scratch i = 131072" "131072 + 16 \<le> msize (memory (im i))" using assms(1) by (simp_all add: inst_ok_def)
  have q: "quiet maxint i ?i" using assms by (intro put_scratch) simp_all
  then have ok: "inst_ok maxint ?i" by (simp add: quiet_def)
  show thesis
  proof (rule that [of ?i])
    show "load i uid = Some (131072, ?i)" using s assms(2) by (simp add: load_def mem_simps)
    show "core_ok (im ?i)" "scratch ?i = 131072" using ok unfolding inst_ok_def by blast+
  qed (use q ok assms scratch_arg(1) [OF ok, of 16] in simp_all)
qed

lemma i_version_spec:
  assumes "inst_ok maxint i" "length uid = 16"
  shows "\<exists>i'. i_version uid layout i = Some (of_nat
    (if layout = 1 then rfc_version uid else if layout = 2 \<and> is_sql_v7 uid then 7 else 0), i') \<and> quiet maxint i i'"
  by (rule load_spec [OF assms]) (auto simp: i_version_def version_spec)

lemma i_variant_spec:
  assumes "inst_ok maxint i" "length uid = 16"
  shows "\<exists>i'. i_variant uid i = Some (of_nat (variant_code uid), i') \<and> quiet maxint i i'"
  by (rule load_spec [OF assms]) (auto simp: i_variant_def variant_spec)

lemma i_isRfc_spec:
  assumes "inst_ok maxint i" "length uid = 16"
  shows "\<exists>i'. i_isRfc uid v layout i = Some
    ((layout = 1 \<and> is_variant_rfc uid \<and> unat v = rfc_version uid) \<or> (layout = 2 \<and> v = 7 \<and> is_sql_v7 uid), i') \<and>
    quiet maxint i i'"
  by (rule load_spec [OF assms]) (auto simp: i_isRfc_def is_rfc_spec)

lemma i_v7UnixMillis_spec:
  assumes "inst_ok maxint i" "length uid = 16"
  shows "\<exists>i'. i_v7UnixMillis uid i = Some (of_nat (rfc_millis uid), i') \<and> quiet maxint i i'"
  by (rule load_spec [OF assms]) (auto simp: i_v7UnixMillis_def v7_unix_millis_spec)

lemma i_v7UnixMillisIn_spec:
  assumes "inst_ok maxint i" "length uid = 16"
  shows "\<exists>i'. i_v7UnixMillisIn uid layout i = Some (of_nat
    (if layout = 1 then rfc_millis uid else if layout = 2 then sql_millis uid else 0), i') \<and> quiet maxint i i'"
  by (rule load_spec [OF assms]) (auto simp: i_v7UnixMillisIn_def v7_unix_millis_in_spec)

lemma load64_le_bytes8:
  assumes "a + 7 < msize m" shows "load64 (put_bytes a (le_bytes8 w) m) a = Some w"
  using assms by (simp add: mem_simps mbytes_put_bytes le_bytes8_def)

lemma i_getTimestamp_spec:
  assumes "inst_ok maxint i" "length uid = 16"
  shows "\<exists>i' ms. i_getTimestamp uid layout i = Some (case timestamp_code uid layout of
      None \<Rightarrow> (0, ms) | Some t \<Rightarrow> (7, of_nat t), i') \<and> quiet maxint i i'"
proof (rule load_spec [OF assms])
  fix i1 assume l: "load i uid = Some (131072, i1)" "quiet maxint i i1" "inst_ok maxint i1"
    "arg_ok (im i1) 131072 16" "core_ok (im i1)" "bytes_at (memory (im i1)) 131072 16 = uid" "scratch i1 = 131072"
  have a: "arg_ok (im i1) (131072 + 16) 8"
    using scratch_arg(1) [OF l(3), of 24 "im i1"] by (simp add: arg_ok_def)
  have size: "131072 + 24 \<le> msize (memory (im i1))" using a by (simp add: arg_ok_def)
  have q: "(131072 + 16 :: i32) = 131088" "unat (131088 :: i32) = 131088" by simp_all
  have "Xuuid_get_timestamp (im i1) 131072 layout (131072 + 16) = Some (case timestamp_code uid layout of
      None \<Rightarrow> (im i1, 0)
    | Some ms \<Rightarrow> ((im i1)\<lparr>memory := put_bytes (unat (131072 + 16 :: i32)) (le_bytes8 (of_nat ms)) (memory (im i1))\<rparr>, 7))"
    using l(6) by (intro get_timestamp_spec [OF l(5,4) a]) simp
  then have spec: "Xuuid_get_timestamp (im i1) 131072 layout 131088 = Some (case timestamp_code uid layout of
      None \<Rightarrow> (im i1, 0)
    | Some ms \<Rightarrow> ((im i1)\<lparr>memory := put_bytes 131088 (le_bytes8 (of_nat ms)) (memory (im i1))\<rparr>, 7))"
    unfolding q .
  show ?thesis
  proof (cases "timestamp_code uid layout")
    case None
    with l(1,2,7) spec size show ?thesis by (simp add: i_getTimestamp_def mem_simps)
  next
    case (Some t)
    have "quiet maxint i1 (i1\<lparr>im := (im i1)\<lparr>memory := put_bytes 131088 (le_bytes8 (of_nat t)) (memory (im i1))\<rparr>\<rparr>)"
      using l(3) by (intro put_scratch) (simp_all add: length_le_bytes8)
    with Some l(1,2,7) spec size show ?thesis
      by (simp add: i_getTimestamp_def load64_le_bytes8) (blast intro: quiet_trans)
  qed
qed

lemma i_convert_spec:
  assumes "inst_ok maxint i" "length uid = 16"
    and call: "\<And>md. core_ok md \<Longrightarrow> arg_ok md 131072 16 \<Longrightarrow> bytes_at (memory md) 131072 16 = uid \<Longrightarrow>
      call md 131072 = Some (if ok then (md\<lparr>memory := put_bytes 131072 out (memory md)\<rparr>, 0) else (md, 5))"
    and "length out = 16"
  shows "\<exists>i'. i_convert call uid i = Some (if ok then (out, 0) else (uid, 5), i') \<and> quiet maxint i i'"
proof (rule load_spec [OF assms(1,2)])
  fix i1 assume l: "load i uid = Some (131072, i1)" "quiet maxint i i1" "inst_ok maxint i1"
    "arg_ok (im i1) 131072 16" "core_ok (im i1)" "bytes_at (memory (im i1)) 131072 16 = uid" "scratch i1 = 131072"
  note c = call [OF l(5,4,6)]
  have size: "131072 + 16 \<le> msize (memory (im i1))" using l(4) by (simp add: arg_ok_def)
  show ?thesis
  proof (cases ok)
    case True
    have "quiet maxint i1 (i1\<lparr>im := (im i1)\<lparr>memory := put_bytes 131072 out (memory (im i1))\<rparr>\<rparr>)"
      using l(3) assms(4) by (intro put_scratch) simp_all
    with True l c size assms(4) show ?thesis
      by (auto simp: i_convert_def result_def copy_uuid_scratch intro: quiet_trans)
  next
    case False
    with l c size show ?thesis by (simp add: i_convert_def result_def copy_uuid_scratch)
  qed
qed

lemma i_v7ToSqlOrder_spec:
  assumes "inst_ok maxint i" "length uid = 16"
  shows "\<exists>i'. i_v7ToSqlOrder uid i = Some (if is_rfc_v7 uid then (sql_bytes uid, 0) else (uid, 5), i') \<and> quiet maxint i i'"
  unfolding i_v7ToSqlOrder_def using to_sql_order_spec
  by (intro i_convert_spec [OF assms]) simp_all

lemma i_v7ToRfcOrder_spec:
  assumes "inst_ok maxint i" "length uid = 16"
  shows "\<exists>i'. i_v7ToRfcOrder uid i = Some (if is_sql_v7 uid then (rfc_bytes uid, 0) else (uid, 5), i') \<and> quiet maxint i i'"
  unfolding i_v7ToRfcOrder_def using to_rfc_order_spec
  by (intro i_convert_spec [OF assms]) simp_all

text \<open>The instance witnesses run on: a fresh module and the operating system's source.\<close>

definition sample_inst :: inst where
  "sample_inst = \<lparr>im = sample_module (replicate 16 0), src = OsSource, scratch = 131072, pages = 1\<rparr>"

lemma sample_inst_ok: "inst_ok 9223372036854775807 sample_inst"
  using sample_module_ok(1) [of "replicate 16 0"]
  by (simp add: sample_inst_def inst_ok_def src_ok_def hostMaxPages_def) (simp add: sample_module_def)

end
