(* ===== verification/Host_Generate.thy ===== *)
theory Host_Generate
  imports Host_Instance
begin

text \<open>
  The generators on one instance of \<open>src/go/core.go\<close>: \<open>newV4\<close>, \<open>newV7\<close> and \<open>newV7Batch\<close> return on
  every well-formed instance, keep it well-formed, and the version 7 calls follow the
  specification \<open>v7_call\<close> of the stream.
\<close>

section \<open>Modules that differ below the stack pointer only\<close>

lemma core_same_ok:
  assumes "core_same md md'" "core_ok md"
  shows "core_ok md'" "stream_word md' = stream_word md" "msize (memory md') = msize (memory md)"
    "65536 \<le> a \<Longrightarrow> bytes_at (memory md') a n = bytes_at (memory md) a n"
proof -
  have same: "msize (memory md') = msize (memory md)" "g0 md' = 65536"
    "\<And>x. 65536 \<le> x \<Longrightarrow> mbytes (memory md') x = mbytes (memory md) x"
    using assms by (simp_all add: core_same_def same_above_stack_def core_ok_def)
  show "core_ok md'" by (rule core_ok_frame [OF assms(2) same(2,1)]) (simp add: same(3))
  show "stream_word md' = stream_word md" by (rule stream_word_frame) (simp add: same(3))
  show "msize (memory md') = msize (memory md)" by (rule same(1))
  show "65536 \<le> a \<Longrightarrow> bytes_at (memory md') a n = bytes_at (memory md) a n"
    by (rule bytes_at_cong) (simp add: same(3))
qed

lemma stream_word_put:
  "stream_word (md\<lparr>memory := put_bytes 65560 (le_bytes8 w) m\<rparr>) = w"
  by (simp add: stream_word_def mbytes_put_bytes le_bytes8_def)

lemma core_ok_put_stream:
  "core_ok md \<Longrightarrow> core_ok (md\<lparr>memory := put_bytes 65560 (le_bytes8 w) (memory md)\<rparr>)"
  by (rule core_ok_frame) (simp_all add: core_ok_def mbytes_put_bytes)

lemma core_ok_put_above:
  "core_ok md \<Longrightarrow> 131072 \<le> a \<Longrightarrow> core_ok (md\<lparr>memory := put_bytes a bs (memory md)\<rparr>)"
  by (rule core_ok_frame) (simp_all add: core_ok_def mbytes_put_bytes)

text \<open>
  The module a generator leaves: values written at the scratch and perhaps a new stream word.
\<close>

lemma generated:
  assumes "core_ok md" "131072 \<le> p"
  shows "core_ok (md\<lparr>memory := put_bytes p bs (memory md)\<rparr>)"
    "stream_word (md\<lparr>memory := put_bytes p bs (memory md)\<rparr>) = stream_word md"
    "core_ok (md\<lparr>memory := put_bytes p bs (put_bytes 65560 (le_bytes8 w) (memory md))\<rparr>)"
    "stream_word (md\<lparr>memory := put_bytes p bs (put_bytes 65560 (le_bytes8 w) (memory md))\<rparr>) = w"
proof -
  have a: "65568 \<le> p" using assms(2) by simp
  show "core_ok (md\<lparr>memory := put_bytes p bs (memory md)\<rparr>)" by (rule core_ok_put_above [OF assms])
  show "stream_word (md\<lparr>memory := put_bytes p bs (memory md)\<rparr>) = stream_word md"
    by (rule stream_word_put_bytes [OF a])
  show "core_ok (md\<lparr>memory := put_bytes p bs (put_bytes 65560 (le_bytes8 w) (memory md))\<rparr>)"
    using core_ok_put_above [OF core_ok_put_stream [OF assms(1), of w] assms(2), of bs] by simp
  show "stream_word (md\<lparr>memory := put_bytes p bs (put_bytes 65560 (le_bytes8 w) (memory md))\<rparr>) = w"
    using stream_word_put_bytes [OF a, where md = "md\<lparr>memory := put_bytes 65560 (le_bytes8 w) (memory md)\<rparr>" and bs = bs]
      stream_word_put [where w = w and md = md and m = "memory md"] by simp
qed

section \<open>Version 4\<close>

lemma i_newV4_spec:
  assumes "inst_ok maxint i"
  obtains code r sr e' i' out where "host_draw ctr (replicate 16 0) (src i, e) = (code, r, sr, e')"
    "i_newV4 ctr i e = Some ((out, if code = 0 then 0 else 1), i', e')" "inst_ok maxint i'"
    "pages i' = pages i" "stream_word (im i') = stream_word (im i)" "src i' = sr"
    "length r = 16" "code = 0 \<Longrightarrow> out = stamp 4 r"
proof -
  obtain code r sr e' where d: "host_draw ctr (replicate 16 0) (src i, e) = (code, r, sr, e')"
    by (metis prod_cases4)
  have i: "core_ok (im i)" "scratch i = 131072" "src_ok (src i)" using assms by (simp_all add: inst_ok_def)
  note arg = scratch_arg(1) [OF assms, of 16 "im i"]
  have len: "length r = 16" using host.draw_length [of "(src i, e)"] i(3) d by fastforce
  let ?md = "if code = 0 then im i\<lparr>memory := put_bytes 131072 (stamp 4 r) (memory (im i))\<rparr> else im i"
  obtain md where md: "Xuuid_new_v4 (Xrandom_get ctr) (im i) (src i, e) 131072 = Some (if code = 0 then 0 else 1, md, sr, e')"
    "src_ok sr" "core_same ?md md"
    using host.new_v4_spec [OF i(1) arg _ d] i(3) by (auto split: if_splits)
  have ok: "core_ok ?md" "stream_word ?md = stream_word (im i)" "msize (memory ?md) = msize (memory (im i))"
    using generated(1,2) [OF i(1), of 131072] i(1) by simp_all
  note same = core_same_ok [OF md(3) ok(1)]
  have size: "131072 + 16 \<le> msize (memory md)" using arg same(3) ok(3) by (simp add: arg_ok_def)
  show thesis
  proof (rule that [OF d])
    show "i_newV4 ctr i e = Some ((bytes_at (memory md) 131072 16, if code = 0 then 0 else 1),
        i\<lparr>im := md, src := sr\<rparr>, e')"
      using size by (simp add: i_newV4_def i(2) md(1) copy_uuid_scratch)
    show "inst_ok maxint (i\<lparr>im := md, src := sr\<rparr>)"
      using inst_ok_frame(1) [OF assms same(1) _ md(2)] same(3) ok(3) by simp
    show "bytes_at (memory md) 131072 16 = stamp 4 r" if "code = 0"
      using that same(4) [of 131072 16] len by (simp add: stamp_def)
  qed (use same ok len in \<open>simp_all\<close>)
qed

section \<open>Draws do not depend on the scratch\<close>

lemma draw_chunks_ignores:
  "source_inv s \<Longrightarrow> draw_chunks (host_draw ctr) bs s = (c, out, s') \<Longrightarrow> length bs' = length bs \<Longrightarrow>
     \<exists>out'. draw_chunks (host_draw ctr) bs' s = (c, out', s') \<and> (c = 0 \<longrightarrow> out' = out)"
proof (induction "length bs" arbitrary: bs bs' s c out s' rule: less_induct)
  case less
  show ?case
  proof (cases "bs = []")
    case True
    with less.prems show ?thesis by (simp add: draw_chunks.simps)
  next
    case False
    then have ne: "bs' \<noteq> []" using less.prems(3) by auto
    obtain code o1 s1 where d: "host_draw ctr (take 65536 bs) s = (code, o1, s1)" by (metis prod_cases3)
    obtain o1' where d': "host_draw ctr (take 65536 bs') s = (code, o1', s1)" "code = 0 \<longrightarrow> o1' = o1"
      using host_draw_ignores [OF less.prems(1) d, of "take 65536 bs'"] less.prems(3) by auto
    obtain c2 o2 s2 where r: "draw_chunks (host_draw ctr) (drop 65536 bs) s1 = (c2, o2, s2)" by (metis prod_cases3)
    have "source_inv s1" using host.draw_inv [OF less.prems(1) d] .
    then obtain o2' where r': "draw_chunks (host_draw ctr) (drop 65536 bs') s1 = (c2, o2', s2)" "c2 = 0 \<longrightarrow> o2' = o2"
      using less.hyps [OF _ _ r, of "drop 65536 bs'"] less.prems(3) False by auto
    show ?thesis using less.prems(2) False ne d d' r r'
      by (auto simp: draw_chunks.simps [of _ bs] draw_chunks.simps [of _ bs'] split: if_splits)
  qed
qed

section \<open>Version 7\<close>

text \<open>
  What one call on a well-formed instance returns and leaves, in terms of the stream, the
  caller's timestamp and the draw; and that it follows the specification \<open>v7_call\<close> where the
  stream is in its invariant.
\<close>

lemma i_newV7_result:
  fixes v0 :: i64
  assumes "inst_ok maxint i" "host_draw ctr (replicate 11 0) (src i, e) = (code, r, sr, e')"
  defines "S \<equiv> unat (stream_word (im i))"
  defines "late \<equiv> 253402300799999 < unat v0"
  defines "plan \<equiv> v7_plan 1 S (unat v0) (v7_seed r)"
  defines "rc \<equiv> if late then 2 else if code \<noteq> 0 then 1 else if plan = Refused then 6 else 0 :: i32"
  shows "\<exists>out i'. i_newV7 ctr v0 i e = Some ((out, rc), i', if late then e else e') \<and> inst_ok maxint i' \<and>
    pages i' = pages i \<and> src i' = (if late then src i else sr) \<and> length r = 11 \<and>
    stream_word (im i') = of_nat (if late \<or> code \<noteq> 0 then S else v7_after 1 S (unat v0) (v7_seed r)) \<and>
    (rc = 0 \<longrightarrow> out = v7_uuid (v7_first 1 S (unat v0) (v7_seed r)) (unat (r ! 4) mod 64) (drop 5 r))"
proof -
  have i: "core_ok (im i)" "scratch i = 131072" "src_ok (src i)" using assms(1) by (simp_all add: inst_ok_def)
  note d = assms(2)
  note arg = scratch_arg(1) [OF assms(1), of 16 "im i"]
  have len: "length r = 11" using host.draw_length [of "(src i, e)"] i(3) d by fastforce
  have sr: "src_ok sr" using host.draw_inv [of "(src i, e)"] i(3) d by fastforce
  define w0 where "w0 = (unat v0 + 1) * 2 ^ 20 + v7_seed r"
  define bad where "bad \<longleftrightarrow> late \<or> code \<noteq> 0"
  define md0 where "md0 = (if bad then im i else im i\<lparr>memory := v7_memory (memory (im i)) 131072 w0 r plan\<rparr>)"
  obtain md where md: "Xuuid_new_v7 (Xrandom_get ctr) (im i) (src i, e) v0 131072 =
      Some (rc, md, if late then (src i, e) else (sr, e'))" "core_same md0 md"
    using host.new_v7_spec [OF i(1) arg _ d, of v0] i(3)
    unfolding bad_def rc_def plan_def S_def w0_def md0_def late_def by (auto split: if_splits)
  have after: "v7_after 1 S (unat v0) (v7_seed r) = (case plan of Reserved b \<Rightarrow> b | _ \<Rightarrow> S)"
    and first: "v7_first 1 S (unat v0) (v7_seed r) = (case plan of Reserved b \<Rightarrow> b | _ \<Rightarrow> w0)"
    unfolding v7_after_def v7_first_def plan_def w0_def by (simp_all cong: v7_plan.case_cong)
  define S' where "S' = (if bad then S else v7_after 1 S (unat v0) (v7_seed r))"
  have ok: "core_ok md0 \<and> stream_word md0 = of_nat S' \<and> msize (memory md0) = msize (memory (im i))"
  proof (cases bad)
    case True
    then show ?thesis using i(1) by (simp add: md0_def S'_def S_def)
  next
    case False
    then show ?thesis using generated [OF i(1), of 131072] i(1)
      by (cases plan) (simp_all only: md0_def S'_def v7_memory_def after if_False v7_plan.case, simp_all add: S_def)
  qed
  note same = core_same_ok [OF md(2) conjunct1 [OF ok]]
  have size: "131072 + 16 \<le> msize (memory md)" using arg same(3) ok by (simp add: arg_ok_def)
  define out where "out = bytes_at (memory md) 131072 16"
  have out: "out = v7_uuid (v7_first 1 S (unat v0) (v7_seed r)) (unat (r ! 4) mod 64) (drop 5 r)" if "rc = 0"
  proof -
    have "\<not> bad" "plan \<noteq> Refused" using that by (auto simp: rc_def bad_def split: if_splits)
    then show ?thesis using same(4) [of 131072 16] len
      unfolding first by (cases plan) (simp_all add: out_def md0_def v7_memory_def)
  qed
  let ?s = "if late then (src i, e) else (sr, e')"
  have "i_newV7 ctr v0 i e = Some ((out, rc), i\<lparr>im := md, src := fst ?s\<rparr>, snd ?s)"
    using size by (cases late) (simp_all add: i_newV7_def i(2) md(1) copy_uuid_scratch out_def)
  moreover have "inst_ok maxint (i\<lparr>im := md, src := fst ?s\<rparr>)"
    using inst_ok_frame(1) [OF assms(1) same(1), of "fst ?s"] same(3) ok sr i(3) by (cases late) simp_all
  moreover have "stream_word md = of_nat S'" using same(2) ok by simp
  ultimately show ?thesis using out len
    by (intro exI [of _ out] exI [of _ "i\<lparr>im := md, src := fst ?s\<rparr>"]) (auto simp: S'_def bad_def)
qed

lemma i_newV7_spec:
  assumes "inst_ok maxint i" "stream_inv (unat (stream_word (im i))) N"
  shows "\<exists>out rc i' e'. i_newV7 ctr v0 i e = Some ((out, rc), i', e') \<and> inst_ok maxint i' \<and>
    pages i' = pages i \<and>
    v7_call 1 (unat (stream_word (im i))) (unat v0) rc (if rc = 0 then [out] else []) (unat (stream_word (im i')))"
proof -
  obtain code r sr e' where d: "host_draw ctr (replicate 11 0) (src i, e) = (code, r, sr, e')"
    by (metis prod_cases4)
  define S where "S = unat (stream_word (im i))"
  define late where "late \<longleftrightarrow> 253402300799999 < unat v0"
  define plan where "plan = v7_plan 1 S (unat v0) (v7_seed r)"
  define rc where "rc = (if late then 2 else if code \<noteq> 0 then 1 else if plan = Refused then 6 else 0 :: i32)"
  define S' where "S' = (if late \<or> code \<noteq> 0 then S else v7_after 1 S (unat v0) (v7_seed r))"
  let ?b = "v7_first 1 S (unat v0) (v7_seed r)" and ?c = "unat (r ! 4) mod 64"
  obtain out i' where i': "i_newV7 ctr v0 i e = Some ((out, rc), i', if late then e else e')" "inst_ok maxint i'"
    "pages i' = pages i" "length r = 11" "stream_word (im i') = of_nat S'" "rc = 0 \<longrightarrow> out = v7_uuid ?b ?c (drop 5 r)"
    using i_newV7_result [OF assms(1) d, of v0] unfolding S_def late_def plan_def rc_def S'_def by blast
  have valid: "valid_call 1 (v7_seed r)" using v7_seed_less [of r] by (simp add: valid_call_def)
  have "S' < 2 ^ 64" using v7_after_less [OF assms(2) valid] unat_i64_less [of "stream_word (im i)"]
    by (simp add: S'_def S_def)
  then have word: "unat (stream_word (im i')) = S'" using i'(5) by (simp add: unat_of_nat_i64 del: of_nat_unat)
  have "v7_call 1 S (unat v0) rc (if rc = 0 then [out] else []) S'"
  proof (cases "late \<or> code \<noteq> 0")
    case True
    then show ?thesis by (auto simp: rc_def late_def S'_def intro: v7_call.no_random v7_call.out_of_range)
  next
    case False
    then have v0: "unat v0 \<le> 253402300799999" by (simp add: late_def)
    have b: "2 ^ 20 \<le> ?b" "?b + 1 - 1 < 2 ^ 68"
      using v7_first_bounds [OF assms(2) valid v0] unfolding S_def by blast+
    have "stream_values ?b (?b + 1 - 1) [v7_uuid ?b ?c (drop 5 r)]"
      unfolding stream_values_def using b i'(4) mod_less_divisor [of 64 "unat (r ! 4)"]
      by (intro conjI ballI exI [of _ ?b] exI [of _ ?c] exI [of _ "drop 5 r"]) simp_all
    moreover have "increasing [v7_uuid ?b ?c (drop 5 r)]" by (simp add: increasing_def)
    ultimately show ?thesis
      using v7_call_plan [OF valid v0, of S "[v7_uuid ?b ?c (drop 5 r)]"] False i'(6)
      unfolding plan_def [symmetric] by (cases "plan = Refused") (simp_all add: rc_def S'_def)
  qed
  with i'(1-3) word show ?thesis by (auto simp: S_def)
qed

lemma batch_fits:
  assumes "host_ok maxint" "n \<le> 2 ^ 26"
  shows "(n * 16 + 65535) div 65536 + 2 \<le> hostMaxPages maxint"
proof -
  have "n * 16 + 65535 \<le> 16384 * 65536 + 65535" using assms(2) by simp
  then have "(n * 16 + 65535) div 65536 \<le> (16384 * 65536 + 65535) div 65536" by (rule div_le_mono)
  then show ?thesis using hostMaxPages_bounds(3) [OF assms(1)] by simp
qed

lemma concat_batch_uuids_length:
  assumes "\<And>i. i < n \<Longrightarrow> length (tail i) = 6"
  shows "length (batch_bytes b n tail) = 16 * n" "length (batch_uuids b n tail) = n"
    "\<forall>u\<in>set (batch_uuids b n tail). length u = 16"
  using assms length_batch_bytes [of n tail b] by (auto simp: batch_uuids_def)

text \<open>
  A batch of 1 to \<open>2 ^ 26\<close> values into a caller's buffer of that many: it returns, follows the
  specification for \<open>\<lceil>n / 64\<rceil>\<close> steps, and writes the values one after the other on success
  and nothing otherwise.
\<close>

lemma i_newV7Batch_result:
  fixes v0 :: i64 and v1 :: i32
  assumes "inst_ok maxint i" "host_ok maxint" "0 < unat v1" "unat v1 \<le> 2 ^ 26" "length dst = 16 * unat v1"
    "draw_chunks (host_draw ctr) (replicate (6 * unat v1 + 4) 0) (src i, e) = (code, r, sr, e')"
  defines "n \<equiv> unat v1"
  defines "S \<equiv> unat (stream_word (im i))"
  defines "late \<equiv> 253402300799999 < unat v0"
  defines "seed \<equiv> batch_seed n r"
  defines "plan \<equiv> v7_plan (batch_steps n) S (unat v0) seed"
  defines "rc \<equiv> if late then 2 else if code \<noteq> 0 then 1 else if plan = Refused then 6 else 0 :: i32"
  shows "\<exists>i'. i_newV7Batch maxint ctr v0 v1 dst i e = Some
      ((if rc = 0 then concat (batch_uuids (v7_first (batch_steps n) S (unat v0) seed) n (batch_tail r)) else dst, rc),
       i', if late then e else e') \<and> inst_ok maxint i' \<and> pages i' = max (pages i) ((n * 16 + 65535) div 65536) \<and>
    src i' = (if late then src i else sr) \<and> length r = 6 * n + 4 \<and>
    stream_word (im i') = of_nat (if late \<or> code \<noteq> 0 then S else v7_after (batch_steps n) S (unat v0) seed)"
proof -
  note n = assms(3,4) [folded n_def]
  define k where "k = batch_steps n"
  obtain i1 where i1: "ensureScratch maxint i (n * 16) = (True, i1)" "inst_ok maxint i1"
    "pages i1 = max (pages i) ((n * 16 + 65535) div 65536)" "src i1 = src i"
    "stream_word (im i1) = stream_word (im i)" "n * 16 \<le> pages i1 * 65536"
    using ensureScratch_spec [OF assms(1), of "n * 16"] batch_fits [OF assms(2) n(2)] by auto
  have i: "core_ok (im i1)" "scratch i1 = 131072" "source_inv (src i, e)" "131072 + 16 * n \<le> msize (memory (im i1))"
    using i1(2,4,6) by (simp_all add: inst_ok_def)
  have len: "length r = 6 * n + 4" "src_ok sr" using host.draw_chunks_props [OF i(3) assms(6)] by (simp_all add: n_def)
  have result: ?thesis if x: "Xuuid_new_v7_batch (Xrandom_get ctr) (im i1) (src i, e) v0 v1 131072 = Some (rc, md, s')"
    and s': "s' = (if late then (src i, e) else (sr, e'))"
    and md: "core_ok md" "msize (memory md) = msize (memory (im i1))"
      "stream_word md = of_nat (if late \<or> code \<noteq> 0 then S else v7_after k S (unat v0) seed)"
    and out: "rc = 0 \<longrightarrow> bytes_at (memory md) 131072 (16 * n) =
      concat (batch_uuids (v7_first k S (unat v0) seed) n (batch_tail r))" for md s'
  proof -
    have ok': "inst_ok maxint (i1\<lparr>im := md, src := fst s'\<rparr>)"
      using inst_ok_frame(1) [OF i1(2) md(1,2), of "fst s'"] len(2) i(3) by (simp add: s')
    have "n * 16 + 131072 \<le> msize (memory md)" "length dst = n * 16"
      using i(4) md(2) assms(5) by (simp_all add: n_def)
    moreover have "rc = 0 \<longrightarrow> length (concat (batch_uuids (v7_first k S (unat v0) seed) n (batch_tail r))) = 16 * n"
      using out by (metis length_bytes_at)
    ultimately have "i_newV7Batch maxint ctr v0 v1 dst i e = Some ((if rc = 0
        then concat (batch_uuids (v7_first k S (unat v0) seed) n (batch_tail r)) else dst, rc),
        i1\<lparr>im := md, src := fst s'\<rparr>, snd s')"
      using i1(1,4) i(2) x out
      by (cases s') (auto simp: i_newV7Batch_def mem_simps mult.commute simp flip: n_def)
    with ok' show ?thesis using i1(3) md(3) len(1)
      by (intro exI [of _ "i1\<lparr>im := md, src := fst s'\<rparr>"]) (simp add: s' k_def)
  qed
  show ?thesis
  proof (cases late)
    case True
    then have "Xuuid_new_v7_batch (Xrandom_get ctr) (im i1) (src i, e) v0 v1 131072 = Some (2, im i1, src i, e)"
      by (intro host.new_v7_batch_refused(1)) (simp add: late_def)
    then show ?thesis using True i(1) i1(5) by (intro result [of "im i1" "(src i, e)"]) (simp_all add: rc_def S_def)
  next
    case False
    then have v0: "unat v0 \<le> 253402300799999" by (simp add: late_def)
    obtain r1 where d: "draw_chunks (host_draw ctr) (bytes_at (memory (im i1)) 131072 (6 * n + 4)) (src i, e) = (code, r1, sr, e')"
      and r1: "code = 0 \<longrightarrow> r1 = r"
      using draw_chunks_ignores [OF i(3) assms(6), of "bytes_at (memory (im i1)) 131072 (6 * n + 4)"] by (auto simp: n_def)
    define w0 where "w0 = (unat v0 + 1) * 2 ^ 20 + seed"
    define md where "md = im i1\<lparr>memory := if code \<noteq> 0 then put_bytes 131072 r1 (memory (im i1))
      else batch_memory (memory (im i1)) 131072 n w0 r plan\<rparr>"
    have run: "Xuuid_new_v7_batch (Xrandom_get ctr) (im i1) (src i, e) v0 v1 131072 = Some (rc, md, sr, e')"
      using host.new_v7_batch_spec [OF i(1) _ _ _ i(3) _ v0 assms(3,4), of 131072 ctr code r1 "(sr, e')"] i d r1 n(2) False
      unfolding md_def rc_def plan_def S_def w0_def seed_def n_def i1(5) by (cases "code = 0") simp_all
    have after: "v7_after k S (unat v0) seed = (case plan of Reserved b \<Rightarrow> b + k - 1 | _ \<Rightarrow> S)"
      and first: "v7_first k S (unat v0) seed = (case plan of Reserved b \<Rightarrow> b | _ \<Rightarrow> w0)"
      unfolding v7_after_def v7_first_def plan_def w0_def k_def by (rule refl)+
    have ok: "core_ok md \<and> msize (memory md) = msize (memory (im i1)) \<and>
      stream_word md = of_nat (if late \<or> code \<noteq> 0 then S else v7_after k S (unat v0) seed)"
    proof -
      let ?md = "\<lambda>x. im i1\<lparr>memory := put_bytes 131072 x (memory (im i1))\<rparr>"
      have md1: "core_ok (?md x)" "stream_word (?md x) = of_nat S" for x
        using generated(1,2) [OF i(1), of 131072 x] i1(5) by (simp_all add: S_def)
      show ?thesis
      proof (cases "code \<noteq> 0")
        case True
        then show ?thesis using md1 by (simp add: md_def)
      next
        case zero: False
        then show ?thesis using generated [OF md1(1) [of r], of 131072] md1 [of r] False
          by (cases plan) (simp_all only: md_def batch_memory_def after if_False v7_plan.case k_def [symmetric] simp_thms, simp_all)
      qed
    qed
    have tail: "length (batch_tail r j) = 6" if "j < n" for j using that len(1) by (simp add: batch_tail_def)
    have "bytes_at (memory md) 131072 (16 * n) = concat (batch_uuids (v7_first k S (unat v0) seed) n (batch_tail r))" if "rc = 0"
    proof -
      have c: "code = 0" "plan \<noteq> Refused" using that False by (auto simp: rc_def split: if_splits)
      show ?thesis
        using concat_batch_uuids_length(1) [OF tail, of n] c unfolding first
        by (cases plan) (simp_all add: md_def batch_memory_def bytes_at_put_bytes_same flip: batch_bytes_uuids)
    qed
    with run ok False show ?thesis by (intro result [of md "(sr, e')"]) simp_all
  qed
qed

lemma i_newV7Batch_spec:
  assumes "inst_ok maxint i" "host_ok maxint" "stream_inv (unat (stream_word (im i))) N"
    and n: "0 < unat v1" "unat v1 \<le> 2 ^ 26" and "length dst = 16 * unat v1"
  shows "\<exists>us rc i' e'. i_newV7Batch maxint ctr v0 v1 dst i e = Some ((if rc = 0 then concat us else dst, rc), i', e') \<and>
    inst_ok maxint i' \<and> pages i \<le> pages i' \<and>
    v7_call (batch_steps (unat v1)) (unat (stream_word (im i))) (unat v0) rc us (unat (stream_word (im i'))) \<and>
    (rc = 0 \<longrightarrow> length us = unat v1 \<and> (\<forall>u\<in>set us. length u = 16))"
proof -
  define n where "n = unat v1"
  note n' = n [folded n_def]
  define k where "k = batch_steps n"
  define S where "S = unat (stream_word (im i))"
  define late where "late \<longleftrightarrow> 253402300799999 < unat v0"
  obtain code r sr e' where d: "draw_chunks (host_draw ctr) (replicate (6 * unat v1 + 4) 0) (src i, e) = (code, r, sr, e')"
    by (metis prod_cases4)
  define seed where "seed = batch_seed n r"
  define plan where "plan = v7_plan k S (unat v0) seed"
  define rc where "rc = (if late then 2 else if code \<noteq> 0 then 1 else if plan = Refused then 6 else 0 :: i32)"
  define S' where "S' = (if late \<or> code \<noteq> 0 then S else v7_after k S (unat v0) seed)"
  define vs where "vs = batch_uuids (v7_first k S (unat v0) seed) n (batch_tail r)"
  define us where "us = (if rc = 0 then vs else [])"
  obtain i' where i': "i_newV7Batch maxint ctr v0 v1 dst i e = Some ((if rc = 0 then concat us else dst, rc), i', if late then e else e')"
    "inst_ok maxint i'" "pages i \<le> pages i'" "length r = 6 * n + 4" "stream_word (im i') = of_nat S'"
    using i_newV7Batch_result [OF assms(1,2) n assms(6) d, of v0]
    unfolding S'_def late_def us_def vs_def rc_def plan_def S_def seed_def k_def n_def by (auto split: if_splits)
  have tail: "length (batch_tail r j) = 6" if "j < n" for j using that i'(4) by (simp add: batch_tail_def)
  have valid: "valid_call k seed" using batch_valid [OF n', of r] by (simp add: k_def seed_def)
  have "S' < 2 ^ 64" using v7_after_less [OF assms(3) valid, of "unat v0"] unat_i64_less [of "stream_word (im i)"]
    by (simp add: S'_def S_def)
  then have word: "unat (stream_word (im i')) = S'" using i'(5) by (simp add: unat_of_nat_i64 del: of_nat_unat)
  have call: "v7_call k S (unat v0) rc us S'"
  proof (cases "late \<or> code \<noteq> 0")
    case True
    then show ?thesis by (auto simp: rc_def late_def S'_def us_def intro: v7_call.no_random v7_call.out_of_range)
  next
    case False
    then have v0: "unat v0 \<le> 253402300799999" by (simp add: late_def)
    let ?b = "v7_first k S (unat v0) seed"
    have "2 ^ 20 \<le> ?b" "?b + batch_steps n - 1 < 2 ^ 68"
      using v7_first_bounds [OF assms(3) valid v0] unfolding S_def k_def by blast+
    note vals = batch_uuids_values [OF n' this, of "batch_tail r", OF tail, folded k_def]
    show ?thesis
      using v7_call_plan [OF valid v0 vals] False
      unfolding plan_def [symmetric] by (cases "plan = Refused") (simp_all add: rc_def S'_def us_def vs_def)
  qed
  have "length us = n \<and> (\<forall>u\<in>set us. length u = 16)" if "rc = 0"
    using concat_batch_uuids_length [OF tail, of n] that by (simp add: us_def vs_def)
  with i'(1-3) call word show ?thesis
    by (intro exI [of _ us] exI [of _ rc] exI [of _ i']) (simp add: S_def k_def n_def)
qed

section \<open>The core generators against the plan\<close>

text \<open>
  C3. \<open>Xuuid_new_v7\<close> refines the stream's plan. On a well-formed module with the host's
  \<open>random_get\<close> it returns; its code is 2 past the cap (without drawing), 1 when the draw fails, 6
  when the plan for one step refuses and 0 otherwise; and above the stack the memory is exactly
  the old one with the planned value at the caller's address and, if a step was reserved, the
  step in the stream word.
\<close>

theorem new_v7_follows_plan:
  assumes "core_ok md" "arg_ok md p 16" "source_inv s" "host_draw ctr (replicate 11 0) s = (code, r, s')"
  shows "let late = 253402300799999 < unat v0;
      plan = v7_plan 1 (unat (stream_word md)) (unat v0) (v7_seed r) in
    \<exists>md'. Xuuid_new_v7 (Xrandom_get ctr) md s v0 p = Some
      (if late then 2 else if code \<noteq> 0 then 1 else if plan = Refused then 6 else 0, md', if late then s else s') \<and>
      core_same (if late \<or> code \<noteq> 0 then md
        else md\<lparr>memory := v7_memory (memory md) (unat p) ((unat v0 + 1) * 2 ^ 20 + v7_seed r) r plan\<rparr>) md'"
  using host.new_v7_spec [OF assms, of v0] unfolding Let_def by blast

theorem new_v7_follows_plan_witness:
  "\<exists>md'. Xuuid_new_v7 (Xrandom_get (\<lambda>k iv n. 0)) (sample_module (replicate 16 0))
      (OsSource, \<lparr>reads = [ReadOk (replicate 11 200)], clock = []\<rparr>) 1000 131072 =
    Some (0, md', OsSource, \<lparr>reads = [], clock = []\<rparr>)"
proof -
  let ?s = "(OsSource, \<lparr>reads = [ReadOk (replicate 11 200)], clock = []\<rparr>)"
  have "host_draw (\<lambda>k iv n. 0) (replicate 11 0) ?s = (0, replicate 11 200, OsSource, \<lparr>reads = [], clock = []\<rparr>)"
    by (simp add: host_draw_def os_fill_def readFull_def)
  from new_v7_follows_plan [OF sample_module_ok(1,2) _ this, of "replicate 16 0" 1000]
  show ?thesis by (auto simp: Let_def v7_plan_def stream_word_def sample_module_def mbytes_put_bytes le64_def src_ok_def)
qed

text \<open>
  C4. \<open>Xuuid_new_v7_batch\<close> refines the plan for \<open>\<lceil>n / 64\<rceil>\<close> steps. The \<open>6 n + 4\<close> random bytes are
  drawn into the caller's buffer in chunks of 65536; when a draw fails or the plan refuses, the
  bytes drawn stay there and nothing else moves; otherwise the buffer holds the planned values in
  order and the stream word the last step.
\<close>

theorem new_v7_batch_follows_plan:
  assumes "core_ok md" "131072 \<le> unat p" "unat p + 16 * unat v1 \<le> msize (memory md)"
    "unat p + 16 * unat v1 < 2147483648" "source_inv s"
    "draw_chunks (host_draw ctr) (bytes_at (memory md) (unat p) (6 * unat v1 + 4)) s = (code, r, s')"
    "unat v0 \<le> 253402300799999" "0 < unat v1" "unat v1 \<le> 2 ^ 26"
  shows "let n = unat v1; seed = batch_seed n r;
      plan = v7_plan (batch_steps n) (unat (stream_word md)) (unat v0) seed in
    Xuuid_new_v7_batch (Xrandom_get ctr) md s v0 v1 p = Some
      (if code \<noteq> 0 then 1 else if plan = Refused then 6 else 0,
       md\<lparr>memory := if code \<noteq> 0 then put_bytes (unat p) r (memory md)
         else batch_memory (memory md) (unat p) n ((unat v0 + 1) * 2 ^ 20 + seed) r plan\<rparr>, s')"
  using host.new_v7_batch_spec [OF assms] unfolding Let_def .

theorem new_v7_batch_follows_plan_witness:
  "\<exists>md'. Xuuid_new_v7_batch (Xrandom_get (\<lambda>k iv n. 0)) (sample_module (replicate 16 0))
      (OsSource, \<lparr>reads = [ReadOk (replicate 16 200)], clock = []\<rparr>) 1000 2 131072 =
    Some (0, md', OsSource, \<lparr>reads = [], clock = []\<rparr>)"
proof -
  let ?s = "(OsSource, \<lparr>reads = [ReadOk (replicate 16 200)], clock = []\<rparr>)"
  let ?md = "sample_module (replicate 16 0)"
  have u: "unat (2 :: i32) = 2" "unat (131072 :: i32) = 131072" "unat (1000 :: i64) = 1000" by simp_all
  have "draw_chunks (host_draw (\<lambda>k iv n. 0)) (bytes_at (memory ?md) (unat (131072 :: i32)) (6 * unat (2 :: i32) + 4)) ?s =
      (0, replicate 16 200, OsSource, \<lparr>reads = [], clock = []\<rparr>)"
    by (simp add: draw_chunks.simps host_draw_def os_fill_def readFull_def length_0_conv [symmetric] del: length_0_conv)
  from new_v7_batch_follows_plan [OF sample_module_ok(1) _ _ _ _ this, of 1000]
  show ?thesis
    by (auto simp: Let_def v7_plan_def stream_word_def sample_module_def mbytes_put_bytes le64_def src_ok_def)
qed

end
