(* ===== verification/Host_Package.thy ===== *)
theory Host_Package
  imports Host_Generate
begin

text \<open>
  The package's state and its calls (\<open>src/go/core.go\<close>, \<open>src/go/core_pool.go\<close>,
  \<open>src/go/core_tinygo.go\<close>): the primary instance, created on first use, which alone runs version
  7 calls; the pool of further instances; and \<open>acquire\<close> and \<open>release\<close> around every stateless
  call, in their pooled and their TinyGo form.
\<close>

section \<open>State\<close>

text \<open>
  A configuration fixes what a build and a host decide: the largest \<open>int\<close>, whether the processor
  accelerates AES, FIPS mode, the TinyGo build, and the keystream of \<open>crypto/cipher\<close>. The state
  holds the primary, the instances in the \<open>sync.Pool\<close>, the count of instances ever made and the
  operating system. An instance in use is held by its caller.
\<close>

record config =
  c_maxint :: nat
  c_accelerated :: bool
  c_fips :: bool
  c_tinygo :: bool
  c_ctr :: keystream

record package =
  prim :: "inst option"
  pool :: "inst list"
  instancesCreated :: nat
  env :: os_env

text \<open>
  What the scheduler decides for one stateless call: whether the primary's lock is free, and
  otherwise which pooled instance \<open>sync.Pool.Get\<close> hands out, if any; a pool may hand out any of
  its instances or none.
\<close>

datatype sched = Free | Busy "nat option"

section \<open>Instances for calls\<close>

text \<open>\<open>newInstance\<close> with the panic of its two callers, \<open>primary\<close> and the pool's \<open>New\<close>.\<close>

definition makeInstance :: "config \<Rightarrow> package \<Rightarrow> (inst \<times> package) option" where
  "makeInstance cfg p =
     (case newInstance (c_maxint cfg) (c_accelerated cfg) (c_fips cfg) basePages of
        Some (Some i) \<Rightarrow> Some (i, p\<lparr>instancesCreated := instancesCreated p + 1\<rparr>)
      | _ \<Rightarrow> None)"

definition primary :: "config \<Rightarrow> package \<Rightarrow> (inst \<times> package) option" where
  "primary cfg p =
     (case prim p of
        Some i \<Rightarrow> Some (i, p)
      | None \<Rightarrow> do { (i, p) \<leftarrow> makeInstance cfg p; Some (i, p\<lparr>prim := Some i\<rparr>) })"

definition resetPool :: "package \<Rightarrow> package" where
  "resetPool p = p\<lparr>pool := []\<rparr>"

definition pool_get :: "config \<Rightarrow> nat option \<Rightarrow> package \<Rightarrow> (inst \<times> package) option" where
  "pool_get cfg g p =
     (case g of
        Some k \<Rightarrow> if k < length (pool p)
          then Some (pool p ! k, p\<lparr>pool := take k (pool p) @ drop (k + 1) (pool p)\<rparr>)
          else makeInstance cfg p
      | None \<Rightarrow> makeInstance cfg p)"

definition acquire_pool :: "config \<Rightarrow> sched \<Rightarrow> package \<Rightarrow> (inst \<times> bool \<times> package) option" where
  "acquire_pool cfg sc p =
     do { (i, p) \<leftarrow> primary cfg p;
          case sc of
            Free \<Rightarrow> Some (i, False, p)
          | Busy g \<Rightarrow> do { (j, p) \<leftarrow> pool_get cfg g p; Some (j, True, p) } }"

text \<open>
  Giving an instance back: the primary's new state is visible again, or the instance goes into
  the pool while it is still base-sized and is dropped otherwise.
\<close>

definition release_pool :: "inst \<Rightarrow> bool \<Rightarrow> package \<Rightarrow> package" where
  "release_pool i pooled p =
     (if \<not> pooled then p\<lparr>prim := Some i\<rparr>
      else if pages i = basePages then p\<lparr>pool := i # pool p\<rparr> else p)"

definition acquire_tinygo :: "config \<Rightarrow> sched \<Rightarrow> package \<Rightarrow> (inst \<times> bool \<times> package) option" where
  "acquire_tinygo cfg sc p = do { (i, p) \<leftarrow> primary cfg p; Some (i, False, p) }"

definition release_tinygo :: "inst \<Rightarrow> bool \<Rightarrow> package \<Rightarrow> package" where
  "release_tinygo i pooled p = p\<lparr>prim := Some i\<rparr>"

definition acquire :: "config \<Rightarrow> sched \<Rightarrow> package \<Rightarrow> (inst \<times> bool \<times> package) option" where
  "acquire cfg = (if c_tinygo cfg then acquire_tinygo cfg else acquire_pool cfg)"

definition release :: "config \<Rightarrow> inst \<Rightarrow> bool \<Rightarrow> package \<Rightarrow> package" where
  "release cfg = (if c_tinygo cfg then release_tinygo else release_pool)"

section \<open>Calls\<close>

text \<open>
  A stateless call \<open>f\<close> between \<open>acquire\<close> and the deferred \<open>release\<close>; \<open>pure_call\<close> is one that does
  not touch the operating system.
\<close>

definition stateless ::
    "(package \<Rightarrow> (inst \<times> bool \<times> package) option) \<Rightarrow> (inst \<Rightarrow> bool \<Rightarrow> package \<Rightarrow> package) \<Rightarrow>
     (inst \<Rightarrow> os_env \<Rightarrow> ('a \<times> inst \<times> os_env) option) \<Rightarrow> package \<Rightarrow> ('a \<times> package) option"
where
  "stateless acq rel f p =
     do { (i, pooled, p) \<leftarrow> acq p;
          (r, i, e) \<leftarrow> f i (env p);
          Some (r, rel i pooled (p\<lparr>env := e\<rparr>)) }"

definition pure_call :: "(inst \<Rightarrow> ('a \<times> inst) option) \<Rightarrow> inst \<Rightarrow> os_env \<Rightarrow> ('a \<times> inst \<times> os_env) option" where
  "pure_call f i e = do { (r, i) \<leftarrow> f i; Some (r, i, e) }"

abbreviation with_instance ::
    "config \<Rightarrow> sched \<Rightarrow> (inst \<Rightarrow> os_env \<Rightarrow> ('a \<times> inst \<times> os_env) option) \<Rightarrow> package \<Rightarrow> ('a \<times> package) option"
where
  "with_instance cfg sc \<equiv> stateless (acquire cfg sc) (release cfg)"

definition packedVersion :: "config \<Rightarrow> sched \<Rightarrow> package \<Rightarrow> (i32 \<times> package) option" where
  "packedVersion cfg sc = with_instance cfg sc (pure_call (\<lambda>i. Some (Xhyperuuid_version (im i), i)))"

definition p_newV4 :: "config \<Rightarrow> sched \<Rightarrow> package \<Rightarrow> ((uuid \<times> i32) \<times> package) option" where
  "p_newV4 cfg sc = with_instance cfg sc (i_newV4 (c_ctr cfg))"

definition p_v7UnixMillis :: "config \<Rightarrow> sched \<Rightarrow> uuid \<Rightarrow> package \<Rightarrow> (i64 \<times> package) option" where
  "p_v7UnixMillis cfg sc uid = with_instance cfg sc (pure_call (i_v7UnixMillis uid))"

definition p_v7ToSqlOrder :: "config \<Rightarrow> sched \<Rightarrow> uuid \<Rightarrow> package \<Rightarrow> ((uuid \<times> i32) \<times> package) option" where
  "p_v7ToSqlOrder cfg sc uid = with_instance cfg sc (pure_call (i_v7ToSqlOrder uid))"

definition p_v7ToRfcOrder :: "config \<Rightarrow> sched \<Rightarrow> uuid \<Rightarrow> package \<Rightarrow> ((uuid \<times> i32) \<times> package) option" where
  "p_v7ToRfcOrder cfg sc uid = with_instance cfg sc (pure_call (i_v7ToRfcOrder uid))"

definition p_version :: "config \<Rightarrow> sched \<Rightarrow> uuid \<Rightarrow> i32 \<Rightarrow> package \<Rightarrow> (i32 \<times> package) option" where
  "p_version cfg sc uid layout = with_instance cfg sc (pure_call (i_version uid layout))"

definition p_variant :: "config \<Rightarrow> sched \<Rightarrow> uuid \<Rightarrow> package \<Rightarrow> (i32 \<times> package) option" where
  "p_variant cfg sc uid = with_instance cfg sc (pure_call (i_variant uid))"

definition p_isRfc :: "config \<Rightarrow> sched \<Rightarrow> uuid \<Rightarrow> i32 \<Rightarrow> i32 \<Rightarrow> package \<Rightarrow> (bool \<times> package) option" where
  "p_isRfc cfg sc uid ver layout = with_instance cfg sc (pure_call (i_isRfc uid ver layout))"

definition p_v7UnixMillisIn :: "config \<Rightarrow> sched \<Rightarrow> uuid \<Rightarrow> i32 \<Rightarrow> package \<Rightarrow> (i64 \<times> package) option" where
  "p_v7UnixMillisIn cfg sc uid layout = with_instance cfg sc (pure_call (i_v7UnixMillisIn uid layout))"

definition p_getTimestamp :: "config \<Rightarrow> sched \<Rightarrow> uuid \<Rightarrow> i32 \<Rightarrow> package \<Rightarrow> ((i32 \<times> i64) \<times> package) option" where
  "p_getTimestamp cfg sc uid layout = with_instance cfg sc (pure_call (i_getTimestamp uid layout))"

text \<open>\<open>bytesInPlace\<close>: a caller's 16 bytes, rewritten only on success.\<close>

definition bytesInPlace :: "u8 list \<Rightarrow> (uuid \<Rightarrow> package \<Rightarrow> ((uuid \<times> i32) \<times> package) option) \<Rightarrow>
    package \<Rightarrow> ((u8 list \<times> i32) \<times> package) option" where
  "bytesInPlace b convert p =
     do { ((out, rc), p) \<leftarrow> convert b p; Some ((if rc = 0 then out else b, rc), p) }"

definition v7ToSqlOrderBytes :: "config \<Rightarrow> sched \<Rightarrow> u8 list \<Rightarrow> package \<Rightarrow> ((u8 list \<times> i32) \<times> package) option" where
  "v7ToSqlOrderBytes cfg sc b = bytesInPlace b (p_v7ToSqlOrder cfg sc)"

definition v7ToRfcOrderBytes :: "config \<Rightarrow> sched \<Rightarrow> u8 list \<Rightarrow> package \<Rightarrow> ((u8 list \<times> i32) \<times> package) option" where
  "v7ToRfcOrderBytes cfg sc b = bytesInPlace b (p_v7ToRfcOrder cfg sc)"

text \<open>The version 7 calls run on the primary, under its lock.\<close>

definition p_newV7 :: "config \<Rightarrow> i64 \<Rightarrow> package \<Rightarrow> ((uuid \<times> i32) \<times> package) option" where
  "p_newV7 cfg unixMillis p =
     do { (i, p) \<leftarrow> primary cfg p;
          (r, i, e) \<leftarrow> i_newV7 (c_ctr cfg) unixMillis i (env p);
          Some (r, p\<lparr>prim := Some i, env := e\<rparr>) }"

definition p_newV7Batch :: "config \<Rightarrow> i64 \<Rightarrow> i32 \<Rightarrow> u8 list \<Rightarrow> package \<Rightarrow> ((u8 list \<times> i32) \<times> package) option" where
  "p_newV7Batch cfg unixMillis count out p =
     do { (i, p) \<leftarrow> primary cfg p;
          (r, i, e) \<leftarrow> i_newV7Batch (c_maxint cfg) (c_ctr cfg) unixMillis count out i (env p);
          Some (r, p\<lparr>prim := Some i, env := e\<rparr>) }"

section \<open>The package invariant\<close>

text \<open>
  Every instance is well-formed; pooled ones are base-sized and their streams unused. The
  package's stream is the primary's.
\<close>

definition base_inst :: "config \<Rightarrow> inst \<Rightarrow> bool" where
  "base_inst cfg i \<longleftrightarrow> inst_ok (c_maxint cfg) i \<and> pages i = basePages \<and> stream_word (im i) = 0"

definition package_ok :: "config \<Rightarrow> package \<Rightarrow> bool" where
  "package_ok cfg p \<longleftrightarrow> host_ok (c_maxint cfg) \<and> (\<forall>i. prim p = Some i \<longrightarrow> inst_ok (c_maxint cfg) i) \<and>
     (\<forall>i\<in>set (pool p). base_inst cfg i)"

definition stream_of :: "package \<Rightarrow> nat" where
  "stream_of p = (case prim p of None \<Rightarrow> 0 | Some i \<Rightarrow> unat (stream_word (im i)))"

definition init_package :: "os_env \<Rightarrow> package" where
  "init_package e = \<lparr>prim = None, pool = [], instancesCreated = 0, env = e\<rparr>"

lemma init_package_ok: "host_ok (c_maxint cfg) \<Longrightarrow> package_ok cfg (init_package e)"
  "stream_of (init_package e) = 0"
  by (simp_all add: package_ok_def init_package_def stream_of_def)

definition sample_config :: config where
  "sample_config = \<lparr>c_maxint = 9223372036854775807, c_accelerated = True, c_fips = False, c_tinygo = False,
     c_ctr = (\<lambda>k iv n. of_nat n)\<rparr>"

lemma sample_config_ok [simp]: "host_ok (c_maxint sample_config)"
  by (simp add: sample_config_def host_ok_def)

lemma makeInstance_ok:
  assumes "host_ok (c_maxint cfg)"
  obtains i where "makeInstance cfg p = Some (i, p\<lparr>instancesCreated := instancesCreated p + 1\<rparr>)"
    "base_inst cfg i"
proof -
  have "basePages + 2 \<le> hostMaxPages (c_maxint cfg)"
    using hostMaxPages_bounds(3) [OF assms] by (simp add: basePages_def)
  then obtain i where "newInstance (c_maxint cfg) (c_accelerated cfg) (c_fips cfg) basePages = Some (Some i)"
    "inst_ok (c_maxint cfg) i" "pages i = basePages" "stream_word (im i) = 0"
    using newInstanceWith_spec [of basePages "newSource (c_accelerated cfg) (c_fips cfg)" "c_maxint cfg"] src_ok_newSource
    by (auto simp: newInstance_def basePages_def)
  then show thesis by (intro that [of i]) (simp_all add: makeInstance_def base_inst_def)
qed

lemma primary_ok:
  assumes "package_ok cfg p"
  obtains i p' where "primary cfg p = Some (i, p')" "inst_ok (c_maxint cfg) i" "package_ok cfg p'"
    "prim p' = Some i" "stream_of p' = stream_of p" "stream_of p = unat (stream_word (im i))"
    "pool p' = pool p" "env p' = env p"
proof (cases "prim p")
  case None
  obtain i where i: "makeInstance cfg p = Some (i, p\<lparr>instancesCreated := instancesCreated p + 1\<rparr>)" "base_inst cfg i"
    using makeInstance_ok assms by (auto simp: package_ok_def)
  show thesis
  proof (rule that)
    show "primary cfg p = Some (i, p\<lparr>instancesCreated := instancesCreated p + 1, prim := Some i\<rparr>)"
      by (simp add: primary_def None i(1))
  qed (use i(2) assms None in \<open>auto simp: package_ok_def base_inst_def stream_of_def\<close>)
next
  case (Some i)
  show thesis
  proof (rule that)
    show "primary cfg p = Some (i, p)" by (simp add: primary_def Some)
  qed (use assms Some in \<open>simp_all add: package_ok_def stream_of_def\<close>)
qed

section \<open>The contract of acquire and release\<close>

text \<open>
  Both builds promise the same: an instance can always be had, it is well-formed and \<open>held\<close>, and
  giving it back after a call that left its stream and its scratch alone keeps the package
  well-formed and its stream unchanged. The stateless calls rest on this alone.
\<close>

definition settled :: "nat \<Rightarrow> inst \<Rightarrow> inst \<Rightarrow> bool" where
  "settled maxint i i' \<longleftrightarrow> inst_ok maxint i' \<and> pages i' = pages i \<and> stream_word (im i') = stream_word (im i)"

lemma quiet_settled: "quiet maxint i i' \<Longrightarrow> settled maxint i i'"
  by (simp add: quiet_def settled_def)

locale instance_provider =
  fixes acq :: "'c \<Rightarrow> package \<Rightarrow> (inst \<times> bool \<times> package) option"
    and rel :: "inst \<Rightarrow> bool \<Rightarrow> package \<Rightarrow> package"
    and ok :: "package \<Rightarrow> bool"
    and held :: "inst \<Rightarrow> bool \<Rightarrow> package \<Rightarrow> bool"
    and maxint :: nat
  assumes acquired: "ok p \<Longrightarrow> \<exists>i pooled q. acq c p = Some (i, pooled, q) \<and> held i pooled q \<and>
      env q = env p \<and> stream_of q = stream_of p"
    and held_inst: "held i pooled q \<Longrightarrow> inst_ok maxint i"
    and held_env: "held i pooled q \<Longrightarrow> held i pooled (q\<lparr>env := e\<rparr>)"
    and released: "held i pooled q \<Longrightarrow> settled maxint i i' \<Longrightarrow>
      ok (rel i' pooled q) \<and> stream_of (rel i' pooled q) = stream_of q \<and> env (rel i' pooled q) = env q"
begin

lemma stateless_returns:
  assumes "ok p" and "\<And>i. inst_ok maxint i \<Longrightarrow>
      \<exists>r i' e'. f i (env p) = Some (r, i', e') \<and> settled maxint i i' \<and> Q r (env p) e'"
  shows "\<exists>r q. stateless (acq c) rel f p = Some (r, q) \<and> ok q \<and> stream_of q = stream_of p \<and> Q r (env p) (env q)"
proof -
  obtain i pooled q where a: "acq c p = Some (i, pooled, q)" "held i pooled q" "env q = env p"
    "stream_of q = stream_of p" using acquired [OF assms(1)] by blast
  obtain r i' e' where f: "f i (env p) = Some (r, i', e')" "settled maxint i i'" "Q r (env p) e'"
    using assms(2) held_inst [OF a(2)] by blast
  have "stream_of (q\<lparr>env := e'\<rparr>) = stream_of q" by (simp add: stream_of_def)
  with released [OF held_env [OF a(2)] f(2), of e'] a f show ?thesis by (simp add: stateless_def)
qed

end

definition held_pool :: "config \<Rightarrow> inst \<Rightarrow> bool \<Rightarrow> package \<Rightarrow> bool" where
  "held_pool cfg i pooled p \<longleftrightarrow> package_ok cfg p \<and> (if pooled then base_inst cfg i else prim p = Some i)"

lemma pool_get_ok:
  assumes "package_ok cfg p"
  obtains i p' where "pool_get cfg g p = Some (i, p')" "base_inst cfg i" "package_ok cfg p'"
    "prim p' = prim p" "env p' = env p"
proof (cases "\<exists>k. g = Some k \<and> k < length (pool p)")
  case True
  then obtain k where "g = Some k" "k < length (pool p)" by blast
  with assms show thesis
    by (intro that [of "pool p ! k" "p\<lparr>pool := take k (pool p) @ drop (k + 1) (pool p)\<rparr>"])
      (auto simp: pool_get_def package_ok_def dest: in_set_takeD in_set_dropD)
next
  case False
  obtain i where "makeInstance cfg p = Some (i, p\<lparr>instancesCreated := instancesCreated p + 1\<rparr>)" "base_inst cfg i"
    using makeInstance_ok assms by (auto simp: package_ok_def)
  with False assms show thesis
    by (intro that [of i "p\<lparr>instancesCreated := instancesCreated p + 1\<rparr>"])
      (auto simp: pool_get_def package_ok_def split: option.splits)
qed

interpretation pooled: instance_provider "acquire_pool cfg" release_pool "package_ok cfg" "held_pool cfg" "c_maxint cfg" for cfg
proof unfold_locales
  fix p c assume ok: "package_ok cfg p"
  obtain i q where q: "primary cfg p = Some (i, q)" "package_ok cfg q" "prim q = Some i" "stream_of q = stream_of p"
    "env q = env p" using primary_ok [OF ok] by metis
  show "\<exists>i pooled q. acquire_pool cfg c p = Some (i, pooled, q) \<and> held_pool cfg i pooled q \<and> env q = env p \<and>
      stream_of q = stream_of p"
  proof (cases c)
    case Free
    then show ?thesis using q by (auto simp: acquire_pool_def held_pool_def)
  next
    case (Busy g)
    obtain j q' where "pool_get cfg g q = Some (j, q')" "base_inst cfg j" "package_ok cfg q'" "prim q' = prim q"
      "env q' = env q" using pool_get_ok [OF q(2)] by metis
    then show ?thesis using Busy q by (auto simp: acquire_pool_def held_pool_def stream_of_def)
  qed
next
  fix i pooled q i' assume h: "held_pool cfg i pooled q" and s: "settled (c_maxint cfg) i i'"
  then show "package_ok cfg (release_pool i' pooled q) \<and> stream_of (release_pool i' pooled q) = stream_of q \<and>
      env (release_pool i' pooled q) = env q"
    by (auto simp: held_pool_def settled_def release_pool_def package_ok_def base_inst_def stream_of_def)
qed (auto simp: held_pool_def package_ok_def base_inst_def split: if_splits)

interpretation tinygo: instance_provider "acquire_tinygo cfg" release_tinygo "package_ok cfg"
  "\<lambda>i _ p. package_ok cfg p \<and> prim p = Some i" "c_maxint cfg" for cfg
proof unfold_locales
  fix p and c :: sched assume ok: "package_ok cfg p"
  show "\<exists>i pooled q. acquire_tinygo cfg c p = Some (i, pooled, q) \<and> (package_ok cfg q \<and> prim q = Some i) \<and>
      env q = env p \<and> stream_of q = stream_of p"
    by (rule primary_ok [OF ok]) (auto simp: acquire_tinygo_def)
qed (auto simp: settled_def release_tinygo_def package_ok_def stream_of_def)

lemma with_instance_returns:
  assumes "package_ok cfg p" and "\<And>i. inst_ok (c_maxint cfg) i \<Longrightarrow>
      \<exists>r i' e'. f i (env p) = Some (r, i', e') \<and> settled (c_maxint cfg) i i' \<and> Q r (env p) e'"
  shows "\<exists>r q. with_instance cfg sc f p = Some (r, q) \<and> package_ok cfg q \<and> stream_of q = stream_of p \<and> Q r (env p) (env q)"
  using pooled.stateless_returns [of cfg p f Q sc, OF assms] tinygo.stateless_returns [of cfg p f Q sc, OF assms]
  by (simp add: acquire_def release_def)

text \<open>\<open>answers cfg p res r\<close>: a call that returned \<open>r\<close> and left the package's stream alone.\<close>

definition answers :: "config \<Rightarrow> package \<Rightarrow> ('a \<times> package) option \<Rightarrow> 'a \<Rightarrow> bool" where
  "answers cfg p res r \<longleftrightarrow> (\<exists>q. res = Some (r, q) \<and> package_ok cfg q \<and> stream_of q = stream_of p \<and> env q = env p)"

lemma pure_call_answers_some:
  assumes "package_ok cfg p"
    "\<And>i. inst_ok (c_maxint cfg) i \<Longrightarrow> \<exists>r i'. f i = Some (r, i') \<and> quiet (c_maxint cfg) i i' \<and> Q r"
  shows "\<exists>r. answers cfg p (with_instance cfg sc (pure_call f) p) r \<and> Q r"
proof -
  have "\<exists>r q. with_instance cfg sc (pure_call f) p = Some (r, q) \<and> package_ok cfg q \<and> stream_of q = stream_of p \<and>
      (Q r \<and> env q = env p)"
  proof (rule with_instance_returns [OF assms(1), where Q = "\<lambda>r e e'. Q r \<and> e' = e"])
    fix i assume "inst_ok (c_maxint cfg) i"
    from assms(2) [OF this] show "\<exists>r i' e'. pure_call f i (env p) = Some (r, i', e') \<and>
        settled (c_maxint cfg) i i' \<and> Q r \<and> e' = env p"
      by (auto simp: pure_call_def quiet_settled)
  qed
  then show ?thesis by (auto simp: answers_def)
qed

lemma pure_call_answers:
  assumes "package_ok cfg p" "\<And>i. inst_ok (c_maxint cfg) i \<Longrightarrow> \<exists>i'. f i = Some (r, i') \<and> quiet (c_maxint cfg) i i'"
  shows "answers cfg p (with_instance cfg sc (pure_call f) p) r"
  using pure_call_answers_some [OF assms(1), of f "\<lambda>r'. r' = r" sc] assms(2) by auto

section \<open>What the calls answer\<close>

lemma inst_ok_quiet: "inst_ok maxint i \<Longrightarrow> quiet maxint i i"
  by (simp add: quiet_def)

lemma read_answers:
  assumes "package_ok cfg p" "length uid = 16"
  shows "answers cfg p (p_version cfg sc uid layout p) (of_nat
      (if layout = 1 then rfc_version uid else if layout = 2 \<and> is_sql_v7 uid then 7 else 0))"
    "answers cfg p (p_variant cfg sc uid p) (of_nat (variant_code uid))"
    "answers cfg p (p_isRfc cfg sc uid v layout p)
      ((layout = 1 \<and> is_variant_rfc uid \<and> unat v = rfc_version uid) \<or> (layout = 2 \<and> v = 7 \<and> is_sql_v7 uid))"
    "answers cfg p (p_v7UnixMillis cfg sc uid p) (of_nat (rfc_millis uid))"
    "answers cfg p (p_v7UnixMillisIn cfg sc uid layout p)
      (of_nat (if layout = 1 then rfc_millis uid else if layout = 2 then sql_millis uid else 0))"
  unfolding p_version_def p_variant_def p_isRfc_def p_v7UnixMillis_def p_v7UnixMillisIn_def
  using assms i_version_spec i_variant_spec i_isRfc_spec i_v7UnixMillis_spec i_v7UnixMillisIn_spec
  by (intro pure_call_answers; simp)+

lemma packedVersion_answers:
  "package_ok cfg p \<Longrightarrow> answers cfg p (packedVersion cfg sc p) 65792"
  unfolding packedVersion_def by (rule pure_call_answers) (auto simp: Xhyperuuid_version_def inst_ok_quiet)

lemma getTimestamp_answers:
  assumes "package_ok cfg p" "length uid = 16"
  shows "\<exists>ms. answers cfg p (p_getTimestamp cfg sc uid layout p)
    (case timestamp_code uid layout of None \<Rightarrow> (0, ms) | Some t \<Rightarrow> (7, of_nat t))"
  unfolding p_getTimestamp_def
  using pure_call_answers_some [OF assms(1), of "i_getTimestamp uid layout" "\<lambda>r. \<exists>ms. r =
    (case timestamp_code uid layout of None \<Rightarrow> (0, ms) | Some t \<Rightarrow> (7, of_nat t))" sc]
    i_getTimestamp_spec [OF _ assms(2)] by blast

lemma convert_answers:
  assumes "package_ok cfg p" "length uid = 16"
  shows "answers cfg p (p_v7ToSqlOrder cfg sc uid p) (if is_rfc_v7 uid then (sql_bytes uid, 0) else (uid, 5))"
    "answers cfg p (p_v7ToRfcOrder cfg sc uid p) (if is_sql_v7 uid then (rfc_bytes uid, 0) else (uid, 5))"
  unfolding p_v7ToSqlOrder_def p_v7ToRfcOrder_def
  using assms i_v7ToSqlOrder_spec i_v7ToRfcOrder_spec by (intro pure_call_answers; simp)+

lemma bytesInPlace_answers:
  "answers cfg p (convert b p) (if c then (out, 0) else (b, 5)) \<Longrightarrow>
     answers cfg p (bytesInPlace b convert p) (if c then (out, 0) else (b, 5))"
  by (auto simp: answers_def bytesInPlace_def split: if_splits)

lemma convert_bytes_answers:
  assumes "package_ok cfg p" "length b = 16"
  shows "answers cfg p (v7ToSqlOrderBytes cfg sc b p) (if is_rfc_v7 b then (sql_bytes b, 0) else (b, 5))"
    "answers cfg p (v7ToRfcOrderBytes cfg sc b p) (if is_sql_v7 b then (rfc_bytes b, 0) else (b, 5))"
  unfolding v7ToSqlOrderBytes_def v7ToRfcOrderBytes_def
  using convert_answers [OF assms] by (blast intro: bytesInPlace_answers)+

lemma newV4_returns:
  assumes "package_ok cfg p"
  shows "\<exists>out rc q. p_newV4 cfg sc p = Some ((out, rc), q) \<and> package_ok cfg q \<and> stream_of q = stream_of p \<and>
    (rc = 0 \<and> (\<exists>r. length r = 16 \<and> out = stamp 4 r) \<or> rc = 1)"
proof -
  let ?Q = "\<lambda>(out, rc). rc = (0 :: i32) \<and> (\<exists>r. length r = 16 \<and> out = stamp 4 r) \<or> rc = 1"
  have "\<exists>r q. p_newV4 cfg sc p = Some (r, q) \<and> package_ok cfg q \<and> stream_of q = stream_of p \<and> ?Q r"
    unfolding p_newV4_def
  proof (rule with_instance_returns [OF assms])
    fix i assume "inst_ok (c_maxint cfg) i"
    then show "\<exists>r i' e'. i_newV4 (c_ctr cfg) i (env p) = Some (r, i', e') \<and> settled (c_maxint cfg) i i' \<and> ?Q r"
    proof (rule i_newV4_spec [where ctr = "c_ctr cfg" and e = "env p"], goal_cases)
      case (1 code r sr e' i' out)
      then show ?case
        by (intro exI [of _ "(out, if code = 0 then 0 else 1)"] exI [of _ i'] exI [of _ e'])
          (simp add: settled_def; blast)
    qed
  qed
  then show ?thesis by auto
qed

lemma newV7_returns:
  assumes "package_ok cfg p" "stream_inv (stream_of p) N"
  shows "\<exists>out rc q. p_newV7 cfg v0 p = Some ((out, rc), q) \<and> package_ok cfg q \<and>
    v7_call 1 (stream_of p) (unat v0) rc (if rc = 0 then [out] else []) (stream_of q)"
proof -
  obtain i p' where p: "primary cfg p = Some (i, p')" "inst_ok (c_maxint cfg) i" "package_ok cfg p'"
    "stream_of p = unat (stream_word (im i))" using primary_ok [OF assms(1)] by metis
  from i_newV7_spec [OF p(2) assms(2) [unfolded p(4)], of "c_ctr cfg" v0 "env p'"]
  obtain out rc i' e' where "i_newV7 (c_ctr cfg) v0 i (env p') = Some ((out, rc), i', e')" "inst_ok (c_maxint cfg) i'"
    "v7_call 1 (unat (stream_word (im i))) (unat v0) rc (if rc = 0 then [out] else []) (unat (stream_word (im i')))"
    by blast
  with p show ?thesis
    by (intro exI [of _ out] exI [of _ rc] exI [of _ "p'\<lparr>prim := Some i', env := e'\<rparr>"])
      (auto simp: p_newV7_def package_ok_def stream_of_def)
qed

lemma newV7Batch_returns:
  assumes "package_ok cfg p" "stream_inv (stream_of p) N" "0 < unat v1" "unat v1 \<le> 2 ^ 26" "length dst = 16 * unat v1"
  shows "\<exists>us rc q. p_newV7Batch cfg v0 v1 dst p = Some ((if rc = 0 then concat us else dst, rc), q) \<and>
    package_ok cfg q \<and> v7_call (batch_steps (unat v1)) (stream_of p) (unat v0) rc us (stream_of q) \<and>
    (rc = 0 \<longrightarrow> length us = unat v1 \<and> (\<forall>u\<in>set us. length u = 16))"
proof -
  obtain i p' where p: "primary cfg p = Some (i, p')" "inst_ok (c_maxint cfg) i" "package_ok cfg p'"
    "stream_of p = unat (stream_word (im i))" using primary_ok [OF assms(1)] by metis
  have "host_ok (c_maxint cfg)" using assms(1) by (simp add: package_ok_def)
  from i_newV7Batch_spec [OF p(2) this assms(2) [unfolded p(4)] assms(3-5), of "c_ctr cfg" v0 "env p'"]
  obtain us rc i' e' where "i_newV7Batch (c_maxint cfg) (c_ctr cfg) v0 v1 dst i (env p') =
      Some ((if rc = 0 then concat us else dst, rc), i', e')" "inst_ok (c_maxint cfg) i'"
    "v7_call (batch_steps (unat v1)) (unat (stream_word (im i))) (unat v0) rc us (unat (stream_word (im i')))"
    "rc = 0 \<longrightarrow> length us = unat v1 \<and> (\<forall>u\<in>set us. length u = 16)" by blast
  with p show ?thesis
    by (intro exI [of _ us] exI [of _ rc] exI [of _ "p'\<lparr>prim := Some i', env := e'\<rparr>"])
      (auto simp: p_newV7Batch_def package_ok_def stream_of_def)
qed

end
