(* ===== verification/Host_Api.thy ===== *)
theory Host_Api
  imports Host_Package
begin

text \<open>
  The package's exported functions (\<open>src/go/uuidgen.go\<close>, \<open>src/go/inspect.go\<close>) and its errors
  (\<open>src/go/errors.go\<close>). Each takes the configuration, for a stateless call the scheduler's
  choice, its arguments, for a call at the current time the clock's milliseconds, and the
  package state. \<open>None\<close> is a panic; \<open>Inl\<close> is a returned error, with the zero value beside it.
\<close>

section \<open>Errors\<close>

datatype sentinel = ErrRandomSource | ErrTimestampOutOfRange | ErrCounterExhausted | ErrNotTimeBased
  | ErrNegativeCount | ErrBufferNotWholeUUIDs | ErrNotOneUUID | ErrInvalidLayout | ErrBatchTooLarge
  | ErrBatchUnaddressable | ErrWrongVersion | ErrNameTooLong

text \<open>
  An error as the code builds it: a sentinel, alone or wrapped with the function and its code
  (\<open>Failed\<close>), a value (\<open>Got\<close>, \<open>GotLayout\<close>, \<open>GotTime\<close>, \<open>GotName\<close>,
  \<open>TooLongForHost\<close>), or a text of its own
  that wraps none. \<open>sentinel_of\<close> is what \<open>errors.Is\<close> finds.
\<close>

datatype go_error = Plain sentinel | Failed string i32 sentinel | FailedCode string i32 | Got sentinel int
  | GotLayout i32 | GotTime int | GotName nat | TooLongForHost nat | ExceedsCount nat

fun sentinel_of :: "go_error \<Rightarrow> sentinel option" where
  "sentinel_of (Plain s) = Some s"
| "sentinel_of (Failed fn rc s) = Some s"
| "sentinel_of (FailedCode fn rc) = None"
| "sentinel_of (Got s n) = Some s"
| "sentinel_of (GotLayout l) = Some ErrInvalidLayout"
| "sentinel_of (GotTime t) = Some ErrTimestampOutOfRange"
| "sentinel_of (GotName n) = Some ErrNameTooLong"
| "sentinel_of (TooLongForHost n) = Some ErrNameTooLong"
| "sentinel_of (ExceedsCount n) = None"

type_synonym 'a go = "go_error + 'a"

text \<open>\<open>int(x)\<close> of a \<open>uint32\<close> where \<open>int\<close> is 32 or 64 bits wide.\<close>

definition go_int :: "nat \<Rightarrow> i32 \<Rightarrow> int" where
  "go_int maxint w = (if maxint = 2147483647 then sint w else uint w)"

text \<open>\<open>time.UnixMilli\<close>: a time is its nanoseconds since the Unix epoch.\<close>

definition unixMilli :: "i64 \<Rightarrow> int" where
  "unixMilli ms = sint ms * 1000000"

section \<open>Version numbers of the core\<close>

fun show_nat :: "nat \<Rightarrow> string" where
  "show_nat n = (if n < 10 then [char_of (48 + n)] else show_nat (n div 10) @ [char_of (48 + n mod 10)])"

declare show_nat.simps [simp del]

definition Available :: bool where "Available = True"
definition LoadError :: "go_error option" where "LoadError = None"

definition NativeVersion :: "config \<Rightarrow> sched \<Rightarrow> package \<Rightarrow> (string \<times> package) option" where
  "NativeVersion cfg sc p =
     do { (v, p) \<leftarrow> packedVersion cfg sc p;
          Some (show_nat (unat (drop_bit 16 v)) @ ''.'' @ show_nat (unat (drop_bit 8 v AND 0xFF)) @ ''.'' @
                show_nat (unat (v AND 0xFF)), p) }"

section \<open>Generation\<close>

definition NewV4 :: "config \<Rightarrow> sched \<Rightarrow> package \<Rightarrow> (uuid go \<times> package) option" where
  "NewV4 cfg sc p =
     do { ((out, rc), p) \<leftarrow> p_newV4 cfg sc p;
          Some (if rc \<noteq> 0 then Inl (Failed ''uuid_new_v4'' rc ErrRandomSource) else Inr out, p) }"

definition NewV7At :: "config \<Rightarrow> i64 \<Rightarrow> package \<Rightarrow> (uuid go \<times> package) option" where
  "NewV7At cfg unixMillis p =
     do { ((out, rc), p) \<leftarrow> p_newV7 cfg unixMillis p;
          Some (if rc = 0 then Inr out
                else if rc = 2 then Inl (Failed ''uuid_new_v7'' rc ErrTimestampOutOfRange)
                else if rc = 6 then Inl (Failed ''uuid_new_v7'' rc ErrCounterExhausted)
                else Inl (Failed ''uuid_new_v7'' rc ErrRandomSource), p) }"

definition NewV7 :: "config \<Rightarrow> i64 \<Rightarrow> package \<Rightarrow> (uuid go \<times> package) option" where
  "NewV7 cfg nowMillis p = NewV7At cfg nowMillis p"

text \<open>\<open>t.UnixMilli()\<close> floors to the millisecond and wraps to 64 bits.\<close>

definition v7Epoch :: int where "v7Epoch = unixMilli 0"
definition v7PastCap :: int where "v7PastCap = unixMilli 253402300800000"

definition NewV7AtTime :: "config \<Rightarrow> int \<Rightarrow> package \<Rightarrow> (uuid go \<times> package) option" where
  "NewV7AtTime cfg t p =
     (if t < v7Epoch \<or> \<not> t < v7PastCap then Some (Inl (GotTime t), p)
      else NewV7At cfg (of_int (t div 1000000)) p)"

section \<open>Batches\<close>

definition MaxV7Batch :: nat where "MaxV7Batch = 2 ^ 26"

definition errV7BatchTooLarge :: "nat \<Rightarrow> go_error" where
  "errV7BatchTooLarge count = Got ErrBatchTooLarge (int count)"

definition errBatch :: "string \<Rightarrow> i32 \<Rightarrow> go_error option" where
  "errBatch fn rc =
     (if rc = 0 then None
      else if rc = 2 then Some (Failed fn rc ErrTimestampOutOfRange)
      else if rc = 3 then Some (Failed fn rc ErrBatchUnaddressable)
      else if rc = 4 then Some (Failed fn rc ErrBatchTooLarge)
      else if rc = 6 then Some (Failed fn rc ErrCounterExhausted)
      else Some (Failed fn rc ErrRandomSource))"

text \<open>A destination slice of UUIDs is contiguous memory: \<open>chunks\<close> reads its bytes back as UUIDs.\<close>

fun chunks :: "nat \<Rightarrow> u8 list \<Rightarrow> uuid list" where
  "chunks 0 bs = []"
| "chunks (Suc n) bs = take 16 bs # chunks n (drop 16 bs)"

type_synonym batch_call = "i64 \<Rightarrow> i32 \<Rightarrow> u8 list \<Rightarrow> package \<Rightarrow> ((u8 list \<times> i32) \<times> package) option"

definition fillUUIDs ::
    "uuid list \<Rightarrow> i64 \<Rightarrow> string \<Rightarrow> batch_call \<Rightarrow> package \<Rightarrow> ((go_error option \<times> uuid list) \<times> package) option"
where
  "fillUUIDs dst unixMillis fn call p =
     (if length dst = 0 then Some ((None, dst), p)
      else if length dst > 4294967295 then Some ((Some (ExceedsCount (length dst)), dst), p)
      else do { ((bs, rc), p) \<leftarrow> call unixMillis (of_nat (length dst)) (concat dst) p;
                Some ((errBatch fn rc, chunks (length dst) bs), p) })"

definition fillBytes ::
    "u8 list \<Rightarrow> i64 \<Rightarrow> string \<Rightarrow> batch_call \<Rightarrow> package \<Rightarrow> ((go_error option \<times> u8 list) \<times> package) option"
where
  "fillBytes dst unixMillis fn call p =
     (if length dst mod 16 \<noteq> 0 then Some ((Some (Got ErrBufferNotWholeUUIDs (int (length dst))), dst), p)
      else if length dst = 0 then Some ((None, dst), p)
      else let count = length dst div 16
        in if count > 4294967295 then Some ((Some (ExceedsCount count), dst), p)
           else do { ((bs, rc), p) \<leftarrow> call unixMillis (of_nat count) dst p;
                     Some ((errBatch fn rc, bs), p) })"

definition FillV7At :: "config \<Rightarrow> uuid list \<Rightarrow> i64 \<Rightarrow> package \<Rightarrow> ((go_error option \<times> uuid list) \<times> package) option" where
  "FillV7At cfg dst unixMillis p =
     (if length dst > MaxV7Batch then Some ((Some (errV7BatchTooLarge (length dst)), dst), p)
      else fillUUIDs dst unixMillis ''uuid_new_v7_batch'' (p_newV7Batch cfg) p)"

definition FillV7 :: "config \<Rightarrow> i64 \<Rightarrow> uuid list \<Rightarrow> package \<Rightarrow> ((go_error option \<times> uuid list) \<times> package) option" where
  "FillV7 cfg nowMillis dst p = FillV7At cfg dst nowMillis p"

definition FillV7BytesAt :: "config \<Rightarrow> u8 list \<Rightarrow> i64 \<Rightarrow> package \<Rightarrow> ((go_error option \<times> u8 list) \<times> package) option" where
  "FillV7BytesAt cfg dst unixMillis p =
     (if length dst mod 16 = 0 \<and> length dst div 16 > MaxV7Batch
      then Some ((Some (errV7BatchTooLarge (length dst div 16)), dst), p)
      else fillBytes dst unixMillis ''uuid_new_v7_batch'' (p_newV7Batch cfg) p)"

definition FillV7Bytes :: "config \<Rightarrow> i64 \<Rightarrow> u8 list \<Rightarrow> package \<Rightarrow> ((go_error option \<times> u8 list) \<times> package) option" where
  "FillV7Bytes cfg nowMillis dst p = FillV7BytesAt cfg dst nowMillis p"

definition zero_uuid :: uuid where "zero_uuid = replicate 16 0"

definition NewV7BatchAt :: "config \<Rightarrow> int \<Rightarrow> i64 \<Rightarrow> package \<Rightarrow> (uuid list go \<times> package) option" where
  "NewV7BatchAt cfg count unixMillis p =
     (if count < 0 then Some (Inl (Got ErrNegativeCount count), p)
      else if count > int MaxV7Batch then Some (Inl (errV7BatchTooLarge (nat count)), p)
      else if count = 0 then Some (Inr [], p)
      else do { ((err, res), p) \<leftarrow> FillV7At cfg (replicate (nat count) zero_uuid) unixMillis p;
                Some (case err of Some e \<Rightarrow> Inl e | None \<Rightarrow> Inr res, p) })"

definition NewV7Batch :: "config \<Rightarrow> i64 \<Rightarrow> int \<Rightarrow> package \<Rightarrow> (uuid list go \<times> package) option" where
  "NewV7Batch cfg nowMillis count p = NewV7BatchAt cfg count nowMillis p"

section \<open>SQL Server order\<close>

definition errSqlOrder :: "i32 \<Rightarrow> go_error option" where
  "errSqlOrder rc = (if rc = 0 then None else if rc = 5 then Some (Plain ErrWrongVersion)
     else Some (FailedCode ''SQL-order conversion'' rc))"

definition sqlOrder ::
    "uuid \<Rightarrow> (uuid \<Rightarrow> package \<Rightarrow> ((uuid \<times> i32) \<times> package) option) \<Rightarrow> package \<Rightarrow> (uuid go \<times> package) option"
where
  "sqlOrder uid call p =
     do { ((out, rc), p) \<leftarrow> call uid p;
          Some (case errSqlOrder rc of Some err \<Rightarrow> Inl err | None \<Rightarrow> Inr out, p) }"

definition V7ToSqlOrder :: "config \<Rightarrow> sched \<Rightarrow> uuid \<Rightarrow> package \<Rightarrow> (uuid go \<times> package) option" where
  "V7ToSqlOrder cfg sc uid = sqlOrder uid (p_v7ToSqlOrder cfg sc)"

definition V7FromSqlOrder :: "config \<Rightarrow> sched \<Rightarrow> uuid \<Rightarrow> package \<Rightarrow> (uuid go \<times> package) option" where
  "V7FromSqlOrder cfg sc uid = sqlOrder uid (p_v7ToRfcOrder cfg sc)"

definition sqlOrderBytes ::
    "u8 list \<Rightarrow> (u8 list \<Rightarrow> package \<Rightarrow> ((u8 list \<times> i32) \<times> package) option) \<Rightarrow> package \<Rightarrow>
     ((go_error option \<times> u8 list) \<times> package) option"
where
  "sqlOrderBytes b call p =
     (if length b \<noteq> 16 then Some ((Some (Got ErrNotOneUUID (int (length b))), b), p)
      else do { ((b, rc), p) \<leftarrow> call b p; Some ((errSqlOrder rc, b), p) })"

definition V7ToSqlOrderBytes :: "config \<Rightarrow> sched \<Rightarrow> u8 list \<Rightarrow> package \<Rightarrow> ((go_error option \<times> u8 list) \<times> package) option" where
  "V7ToSqlOrderBytes cfg sc b = sqlOrderBytes b (v7ToSqlOrderBytes cfg sc)"

definition V7FromSqlOrderBytes :: "config \<Rightarrow> sched \<Rightarrow> u8 list \<Rightarrow> package \<Rightarrow> ((go_error option \<times> u8 list) \<times> package) option" where
  "V7FromSqlOrderBytes cfg sc b = sqlOrderBytes b (v7ToRfcOrderBytes cfg sc)"

section \<open>Inspection\<close>

definition LayoutUnspecified :: i32 where "LayoutUnspecified = 0"
definition LayoutRfc9562 :: i32 where "LayoutRfc9562 = 1"
definition LayoutSqlServer :: i32 where "LayoutSqlServer = 2"

definition UuidLayout_String :: "i32 \<Rightarrow> string" where
  "UuidLayout_String l = (if l = LayoutUnspecified then ''LayoutUnspecified'' else if l = LayoutRfc9562 then ''LayoutRfc9562''
     else if l = LayoutSqlServer then ''LayoutSqlServer'' else ''UuidLayout('' @ show_nat (unat l) @ '')'')"

definition VariantUnspecified :: i32 where "VariantUnspecified = 0"
definition VariantNcs :: i32 where "VariantNcs = 1"
definition VariantRfc9562 :: i32 where "VariantRfc9562 = 2"
definition VariantMicrosoft :: i32 where "VariantMicrosoft = 3"
definition VariantFuture :: i32 where "VariantFuture = 4"

definition UuidVariant_String :: "i32 \<Rightarrow> string" where
  "UuidVariant_String v = (if v = VariantUnspecified then ''VariantUnspecified'' else if v = VariantNcs then ''VariantNcs''
     else if v = VariantRfc9562 then ''VariantRfc9562'' else if v = VariantMicrosoft then ''VariantMicrosoft''
     else if v = VariantFuture then ''VariantFuture'' else ''UuidVariant('' @ show_nat (unat v) @ '')'')"

definition layoutCode :: "i32 \<Rightarrow> i32 go" where
  "layoutCode layout = (if layout = LayoutRfc9562 \<or> layout = LayoutSqlServer then Inr layout else Inl (GotLayout layout))"

definition oneUUID :: "u8 list \<Rightarrow> uuid go" where
  "oneUUID b = (if length b \<noteq> 16 then Inl (Got ErrNotOneUUID (int (length b))) else Inr b)"

text \<open>\<open>guarded\<close>: an early return of an error, before the package is touched.\<close>

definition guarded :: "'a go \<Rightarrow> ('a \<Rightarrow> package \<Rightarrow> ('b go \<times> package) option) \<Rightarrow> package \<Rightarrow> ('b go \<times> package) option" where
  "guarded r f p = (case r of Inl e \<Rightarrow> Some (Inl e, p) | Inr x \<Rightarrow> f x p)"

definition Version :: "config \<Rightarrow> sched \<Rightarrow> uuid \<Rightarrow> package \<Rightarrow> (int \<times> package) option" where
  "Version cfg sc uid p =
     do { (v, p) \<leftarrow> p_version cfg sc uid LayoutRfc9562 p; Some (go_int (c_maxint cfg) v, p) }"

definition VersionIn :: "config \<Rightarrow> sched \<Rightarrow> uuid \<Rightarrow> i32 \<Rightarrow> package \<Rightarrow> (int go \<times> package) option" where
  "VersionIn cfg sc uid layout = guarded (layoutCode layout) (\<lambda>code p.
     do { (v, p) \<leftarrow> p_version cfg sc uid code p; Some (Inr (go_int (c_maxint cfg) v), p) })"

definition VersionBytes :: "config \<Rightarrow> sched \<Rightarrow> u8 list \<Rightarrow> i32 \<Rightarrow> package \<Rightarrow> (int go \<times> package) option" where
  "VersionBytes cfg sc b layout = guarded (layoutCode layout) (\<lambda>code. guarded (oneUUID b) (\<lambda>uid p.
     do { (v, p) \<leftarrow> p_version cfg sc uid code p; Some (Inr (go_int (c_maxint cfg) v), p) }))"

definition Variant :: "config \<Rightarrow> sched \<Rightarrow> uuid \<Rightarrow> package \<Rightarrow> (i32 \<times> package) option" where
  "Variant cfg sc uid = p_variant cfg sc uid"

definition VariantBytes :: "config \<Rightarrow> sched \<Rightarrow> u8 list \<Rightarrow> package \<Rightarrow> (i32 go \<times> package) option" where
  "VariantBytes cfg sc b = guarded (oneUUID b) (\<lambda>uid p.
     do { (v, p) \<leftarrow> p_variant cfg sc uid p; Some (Inr v, p) })"

definition rfcVersion :: "int \<Rightarrow> i32" where
  "rfcVersion version = (if version < 0 \<or> version > 15 then 16 else of_int version)"

definition IsRfc :: "config \<Rightarrow> sched \<Rightarrow> uuid \<Rightarrow> int \<Rightarrow> package \<Rightarrow> (bool \<times> package) option" where
  "IsRfc cfg sc uid version = p_isRfc cfg sc uid (rfcVersion version) LayoutRfc9562"

definition IsRfcIn :: "config \<Rightarrow> sched \<Rightarrow> uuid \<Rightarrow> int \<Rightarrow> i32 \<Rightarrow> package \<Rightarrow> (bool go \<times> package) option" where
  "IsRfcIn cfg sc uid version layout = guarded (layoutCode layout) (\<lambda>code p.
     do { (r, p) \<leftarrow> p_isRfc cfg sc uid (rfcVersion version) code p; Some (Inr r, p) })"

definition IsRfcBytes :: "config \<Rightarrow> sched \<Rightarrow> u8 list \<Rightarrow> int \<Rightarrow> i32 \<Rightarrow> package \<Rightarrow> (bool go \<times> package) option" where
  "IsRfcBytes cfg sc b version layout = guarded (layoutCode layout) (\<lambda>code. guarded (oneUUID b) (\<lambda>uid p.
     do { (r, p) \<leftarrow> p_isRfc cfg sc uid (rfcVersion version) code p; Some (Inr r, p) }))"

definition V7UnixMillis :: "config \<Rightarrow> sched \<Rightarrow> uuid \<Rightarrow> package \<Rightarrow> (i64 go \<times> package) option" where
  "V7UnixMillis cfg sc uid p = do { (ms, p) \<leftarrow> p_v7UnixMillis cfg sc uid p; Some (Inr ms, p) }"

definition V7Timestamp :: "config \<Rightarrow> sched \<Rightarrow> uuid \<Rightarrow> package \<Rightarrow> (int go \<times> package) option" where
  "V7Timestamp cfg sc uid p =
     do { (r, p) \<leftarrow> V7UnixMillis cfg sc uid p;
          Some (case r of Inl e \<Rightarrow> Inl e | Inr ms \<Rightarrow> Inr (unixMilli ms), p) }"

definition V7UnixMillisIn :: "config \<Rightarrow> sched \<Rightarrow> uuid \<Rightarrow> i32 \<Rightarrow> package \<Rightarrow> (i64 go \<times> package) option" where
  "V7UnixMillisIn cfg sc uid layout = guarded (layoutCode layout) (\<lambda>code p.
     do { (ms, p) \<leftarrow> p_v7UnixMillisIn cfg sc uid code p; Some (Inr ms, p) })"

definition V7TimestampIn :: "config \<Rightarrow> sched \<Rightarrow> uuid \<Rightarrow> i32 \<Rightarrow> package \<Rightarrow> (int go \<times> package) option" where
  "V7TimestampIn cfg sc uid layout p =
     do { (r, p) \<leftarrow> V7UnixMillisIn cfg sc uid layout p;
          Some (case r of Inl e \<Rightarrow> Inl e | Inr ms \<Rightarrow> Inr (unixMilli ms), p) }"

definition timestampIn :: "config \<Rightarrow> sched \<Rightarrow> uuid \<Rightarrow> i32 \<Rightarrow> package \<Rightarrow> (int go \<times> package) option" where
  "timestampIn cfg sc uid code p =
     do { ((version, millis), p) \<leftarrow> p_getTimestamp cfg sc uid code p;
          Some (if version \<noteq> 0 then Inr (unixMilli millis) else Inl (Plain ErrNotTimeBased), p) }"

definition GetTimestamp :: "config \<Rightarrow> sched \<Rightarrow> uuid \<Rightarrow> package \<Rightarrow> (int go \<times> package) option" where
  "GetTimestamp cfg sc uid = timestampIn cfg sc uid LayoutRfc9562"

definition GetTimestampIn :: "config \<Rightarrow> sched \<Rightarrow> uuid \<Rightarrow> i32 \<Rightarrow> package \<Rightarrow> (int go \<times> package) option" where
  "GetTimestampIn cfg sc uid layout = guarded (layoutCode layout) (\<lambda>code. timestampIn cfg sc uid code)"

end
