(* ===== verification/Host_V7.thy ===== *)
theory Host_V7
  imports Host_Api
begin

text \<open>
  The version 7 functions of the package: every call returns, keeps the package's invariant and
  follows the specification of the stream; and what it returns and leaves, exactly, from the
  stream, the timestamp and the bytes drawn.
\<close>

section \<open>Results of the core's codes\<close>

definition v7_error :: "i32 \<Rightarrow> sentinel" where
  "v7_error rc = (if rc = 2 then ErrTimestampOutOfRange else if rc = 6 then ErrCounterExhausted else ErrRandomSource)"

lemma v7_call_codes:
  assumes "v7_call k S v0 rc us S'"
  shows "rc \<in> {0, 1, 2, 6}" "rc \<noteq> 0 \<Longrightarrow> us = [] \<and> S' = S" "rc = 0 \<Longrightarrow> increasing us \<and> v0 \<le> 253402300799999"
  using assms by (auto elim!: v7_call_cases)

lemma errBatch_codes:
  "rc \<in> {0, 1, 2, 6} \<Longrightarrow> errBatch fn rc = (if rc = 0 then None else Some (Failed fn rc (v7_error rc)))"
  by (auto simp: errBatch_def v7_error_def)

lemma NewV7At_returns:
  assumes "package_ok cfg p" "stream_inv (stream_of p) N"
  shows "\<exists>out rc q. NewV7At cfg ms p =
      Some (if rc = 0 then Inr out else Inl (Failed ''uuid_new_v7'' rc (v7_error rc)), q) \<and> package_ok cfg q \<and>
    v7_call 1 (stream_of p) (unat ms) rc (if rc = 0 then [out] else []) (stream_of q)"
  using newV7_returns [OF assms, of ms] by (fastforce simp: NewV7At_def v7_error_def)

section \<open>Batches\<close>

lemma chunks_concat: "\<forall>u\<in>set us. length u = 16 \<Longrightarrow> chunks (length us) (concat us) = us"
  by (induction us) auto

lemma concat_chunks: "length bs = 16 * n \<Longrightarrow> concat (chunks n bs) = bs"
  by (induction n bs rule: chunks.induct) auto

lemma chunks_props: "length bs = 16 * n \<Longrightarrow> length (chunks n bs) = n \<and> (\<forall>u\<in>set (chunks n bs). length u = 16)"
  by (induction n bs rule: chunks.induct) auto

lemma length_concat_16: "\<forall>u\<in>set us. length u = 16 \<Longrightarrow> length (concat us) = 16 * length us"
  by (induction us) auto

lemma count_word: "n \<le> MaxV7Batch \<Longrightarrow> unat (of_nat n :: i32) = n"
  by (simp add: MaxV7Batch_def unat_of_nat_i32)

section \<open>What a call returns, exactly\<close>

text \<open>
  The random source of the primary with the system behind it, a new one where there is no primary
  yet; and the draws a call makes from it, as the host hands them to the core.
\<close>

definition source_of :: "config \<Rightarrow> package \<Rightarrow> source \<times> os_env" where
  "source_of cfg p = (case prim p of None \<Rightarrow> newSource (c_accelerated cfg) (c_fips cfg) | Some i \<Rightarrow> src i, env p)"

definition drawn_value :: "config \<Rightarrow> package \<Rightarrow> i32 \<times> u8 list \<times> source \<times> os_env" where
  "drawn_value cfg p = host_draw (c_ctr cfg) (replicate 11 0) (source_of cfg p)"

definition drawn_batch :: "config \<Rightarrow> nat \<Rightarrow> package \<Rightarrow> i32 \<times> u8 list \<times> source \<times> os_env" where
  "drawn_batch cfg n p = draw_chunks (host_draw (c_ctr cfg)) (replicate (6 * n + 4) 0) (source_of cfg p)"

lemma primary_source: "primary cfg p = Some (i, q) \<Longrightarrow> source_of cfg p = (src i, env q)"
  by (auto simp: primary_def makeInstance_def newInstance_def newInstanceWith_def source_of_def Let_def
      split: option.splits prod.splits if_splits bind_splits)

lemma source_of_primary: "source_of cfg (p\<lparr>prim := Some i, env := e\<rparr>) = (src i, e)"
  by (simp add: source_of_def)

text \<open>The code of a call for \<open>k\<close> steps.\<close>

definition v7_code :: "nat \<Rightarrow> nat \<Rightarrow> nat \<Rightarrow> i32 \<Rightarrow> nat \<Rightarrow> i32" where
  "v7_code k S v0 code seed = (if 253402300799999 < v0 then 2 else if code \<noteq> 0 then 1
     else if v7_plan k S v0 seed = Refused then 6 else 0)"

lemma v7_code_after:
  "(if 253402300799999 < v0 \<or> code \<noteq> 0 then S else v7_after k S v0 seed) =
   (if v7_code k S v0 code seed = 0 then v7_after k S v0 seed else S)"
  by (auto simp: v7_code_def v7_after_def)

lemma v7_code_codes: "v7_code k S v0 code seed \<in> {0, 1, 2, 6}"
  by (simp add: v7_code_def)

lemma v7_code_exact:
  assumes "stream_inv S N"
  shows "v7_code k S v0 code seed = 0 \<longleftrightarrow> v0 \<le> 253402300799999 \<and> code = 0 \<and> \<not> stream_full k S v0"
    "v7_code k S v0 code seed = 6 \<longleftrightarrow> code = 0 \<and> stream_full k S v0"
  by (auto simp: v7_code_def v7_plan_exact [OF assms] out_of_stream_def stream_full_def)

text \<open>What a call leaves in the primary's stream word is below \<open>2 ^ 64\<close>.\<close>

lemma stream_of_primary:
  assumes "stream_inv S N" "valid_call k seed"
    "stream_word (im i) = of_nat (if 253402300799999 < v0 \<or> code \<noteq> 0 then S else v7_after k S v0 seed)"
  shows "stream_of (p\<lparr>prim := Some i, env := e\<rparr>) = (if v7_code k S v0 code seed = 0 then v7_after k S v0 seed else S)"
proof -
  have "(if v7_code k S v0 code seed = 0 then v7_after k S v0 seed else S) < 2 ^ 64"
    using v7_after_less [OF assms(1,2), of v0] assms(1) by (auto simp: stream_inv_def)
  then show ?thesis using assms(3) unfolding v7_code_after by (simp add: stream_of_def unat_of_nat_i64 del: of_nat_unat)
qed

lemma package_ok_primary:
  "package_ok cfg p \<Longrightarrow> inst_ok (c_maxint cfg) i \<Longrightarrow> package_ok cfg (p\<lparr>prim := Some i, env := e\<rparr>)"
  by (simp add: package_ok_def)

lemma NewV7At_exact:
  fixes ms :: i64
  assumes "package_ok cfg p" "stream_inv (stream_of p) N" "drawn_value cfg p = (code, r, s)"
  defines "S \<equiv> stream_of p"
  defines "rc \<equiv> v7_code 1 S (unat ms) code (v7_seed r)"
  shows "\<exists>q. NewV7At cfg ms p = Some (if rc = 0
        then Inr (v7_uuid (v7_first 1 S (unat ms) (v7_seed r)) (unat (r ! 4) mod 64) (drop 5 r))
        else Inl (Failed ''uuid_new_v7'' rc (v7_error rc)), q) \<and> package_ok cfg q \<and>
      stream_of q = (if rc = 0 then v7_after 1 S (unat ms) (v7_seed r) else S) \<and>
      source_of cfg q = (if 253402300799999 < unat ms then source_of cfg p else s)"
proof -
  obtain i p' where p: "primary cfg p = Some (i, p')" "inst_ok (c_maxint cfg) i" "package_ok cfg p'"
    "stream_of p = unat (stream_word (im i))" using primary_ok [OF assms(1)] by metis
  obtain sr e' where d: "host_draw (c_ctr cfg) (replicate 11 0) (src i, env p') = (code, r, sr, e')" "s = (sr, e')"
    using assms(3) primary_source [OF p(1)] by (cases s) (simp add: drawn_value_def)
  have valid: "valid_call 1 (v7_seed r)" using v7_seed_less [of r] by (simp add: valid_call_def)
  obtain out i' where i': "i_newV7 (c_ctr cfg) ms i (env p') = Some ((out, rc), i', if 253402300799999 < unat ms then env p' else e')"
    "inst_ok (c_maxint cfg) i'" "src i' = (if 253402300799999 < unat ms then src i else sr)"
    "stream_word (im i') = of_nat (if 253402300799999 < unat ms \<or> code \<noteq> 0 then S else v7_after 1 S (unat ms) (v7_seed r))"
    "rc = 0 \<longrightarrow> out = v7_uuid (v7_first 1 S (unat ms) (v7_seed r)) (unat (r ! 4) mod 64) (drop 5 r)"
    using i_newV7_result [OF p(2) d(1), of ms] unfolding rc_def v7_code_def S_def p(4) by blast
  let ?q = "p'\<lparr>prim := Some i', env := if 253402300799999 < unat ms then env p' else e'\<rparr>"
  have "rc \<in> {0, 1, 2, 6}" unfolding rc_def by (rule v7_code_codes)
  then have "NewV7At cfg ms p = Some (if rc = 0
        then Inr (v7_uuid (v7_first 1 S (unat ms) (v7_seed r)) (unat (r ! 4) mod 64) (drop 5 r))
        else Inl (Failed ''uuid_new_v7'' rc (v7_error rc)), ?q)"
    using p(1) i'(1,5) by (auto simp: NewV7At_def p_newV7_def v7_error_def)
  moreover have "stream_of ?q = (if rc = 0 then v7_after 1 S (unat ms) (v7_seed r) else S)"
    unfolding rc_def by (rule stream_of_primary [OF assms(2) [folded S_def] valid i'(4)])
  moreover have "source_of cfg ?q = (if 253402300799999 < unat ms then source_of cfg p else s)"
    using i'(3) primary_source [OF p(1)] d(2) by (simp add: source_of_primary)
  ultimately show ?thesis using package_ok_primary [OF p(3) i'(2)] by blast
qed

text \<open>The state a batch leaves does not depend on the caller's buffer.\<close>

lemma i_newV7Batch_buffer:
  assumes "i_newV7Batch maxint ctr v0 v1 dst i e = Some ((out, rc), i', e')"
    "i_newV7Batch maxint ctr v0 v1 dst' i e = Some ((out', rc'), i'', e'')"
  shows "i'' = i' \<and> e'' = e'"
  using assms by (auto simp: i_newV7Batch_def Let_def split: prod.splits if_splits bind_splits)

lemma newV7Batch_exact:
  fixes ms :: i64
  assumes "package_ok cfg p" "stream_inv (stream_of p) N" "0 < unat n" "unat n \<le> 2 ^ 26"
    "drawn_batch cfg (unat n) p = (code, r, s)"
  defines "S \<equiv> stream_of p" and "k \<equiv> batch_steps (unat n)" and "seed \<equiv> batch_seed (unat n) r"
  defines "rc \<equiv> v7_code k S (unat ms) code seed"
  shows "\<exists>q. (\<forall>dst. length dst = 16 * unat n \<longrightarrow> p_newV7Batch cfg ms n dst p = Some ((if rc = 0
        then concat (batch_uuids (v7_first k S (unat ms) seed) (unat n) (batch_tail r)) else dst, rc), q)) \<and>
      package_ok cfg q \<and> stream_of q = (if rc = 0 then v7_after k S (unat ms) seed else S) \<and>
      source_of cfg q = (if 253402300799999 < unat ms then source_of cfg p else s) \<and> length r = 6 * unat n + 4"
proof -
  obtain i p' where p: "primary cfg p = Some (i, p')" "inst_ok (c_maxint cfg) i" "package_ok cfg p'"
    "stream_of p = unat (stream_word (im i))" using primary_ok [OF assms(1)] by metis
  have host: "host_ok (c_maxint cfg)" using assms(1) by (simp add: package_ok_def)
  obtain sr e' where d: "draw_chunks (host_draw (c_ctr cfg)) (replicate (6 * unat n + 4) 0) (src i, env p') = (code, r, sr, e')"
    "s = (sr, e')"
    using assms(5) primary_source [OF p(1)] by (cases s) (simp add: drawn_batch_def)
  let ?e = "if 253402300799999 < unat ms then env p' else e'"
  have result: "\<exists>i'. i_newV7Batch (c_maxint cfg) (c_ctr cfg) ms n dst i (env p') = Some ((if rc = 0
        then concat (batch_uuids (v7_first k S (unat ms) seed) (unat n) (batch_tail r)) else dst, rc), i', ?e) \<and>
      inst_ok (c_maxint cfg) i' \<and> src i' = (if 253402300799999 < unat ms then src i else sr) \<and> length r = 6 * unat n + 4 \<and>
      stream_word (im i') = of_nat (if 253402300799999 < unat ms \<or> code \<noteq> 0 then S else v7_after k S (unat ms) seed)"
    if "length dst = 16 * unat n" for dst
    using i_newV7Batch_result [OF p(2) host assms(3,4) that d(1), of ms]
    unfolding rc_def v7_code_def S_def p(4) k_def seed_def by blast
  obtain i' where i': "i_newV7Batch (c_maxint cfg) (c_ctr cfg) ms n (replicate (16 * unat n) 0) i (env p') = Some ((if rc = 0
        then concat (batch_uuids (v7_first k S (unat ms) seed) (unat n) (batch_tail r)) else replicate (16 * unat n) 0, rc), i', ?e)"
      "inst_ok (c_maxint cfg) i'" "src i' = (if 253402300799999 < unat ms then src i else sr)" "length r = 6 * unat n + 4"
      "stream_word (im i') = of_nat (if 253402300799999 < unat ms \<or> code \<noteq> 0 then S else v7_after k S (unat ms) seed)"
    using result [of "replicate (16 * unat n) 0"] by auto
  let ?q = "p'\<lparr>prim := Some i', env := ?e\<rparr>"
  have "p_newV7Batch cfg ms n dst p = Some ((if rc = 0
        then concat (batch_uuids (v7_first k S (unat ms) seed) (unat n) (batch_tail r)) else dst, rc), ?q)"
    if dst: "length dst = 16 * unat n" for dst
  proof -
    obtain i'' where "i_newV7Batch (c_maxint cfg) (c_ctr cfg) ms n dst i (env p') = Some ((if rc = 0
        then concat (batch_uuids (v7_first k S (unat ms) seed) (unat n) (batch_tail r)) else dst, rc), i'', ?e)"
      using result [OF dst] by blast
    with i_newV7Batch_buffer [OF i'(1) this] p(1) show ?thesis by (simp add: p_newV7Batch_def)
  qed
  moreover have "stream_of ?q = (if rc = 0 then v7_after k S (unat ms) seed else S)"
    unfolding rc_def k_def seed_def
    by (rule stream_of_primary [OF assms(2) [folded S_def] batch_valid [OF assms(3,4)] i'(5) [unfolded k_def seed_def]])
  moreover have "source_of cfg ?q = (if 253402300799999 < unat ms then source_of cfg p else s)"
    using i'(3) primary_source [OF p(1)] d(2) by (simp add: source_of_primary)
  ultimately show ?thesis using package_ok_primary [OF p(3) i'(2)] i'(4) by blast
qed


lemma planned_batch:
  fixes v0 :: nat
  assumes "stream_inv S N" "0 < n" "n \<le> MaxV7Batch" "length r = 6 * n + 4"
  defines "seed \<equiv> batch_seed n r"
  defines "us \<equiv> batch_uuids (v7_first (batch_steps n) S v0 seed) n (batch_tail r)"
  shows "length us = n" "\<forall>u\<in>set us. length u = 16"
    "v7_code (batch_steps n) S v0 code seed = 0 \<Longrightarrow> increasing us \<and> (\<forall>u\<in>set us. is_rfc_v7 u)"
proof -
  have tail: "length (batch_tail r j) = 6" if "j < n" for j using that assms(4) by (simp add: batch_tail_def)
  show "length us = n" "\<forall>u\<in>set us. length u = 16"
    unfolding us_def using concat_batch_uuids_length(2,3) [of n "batch_tail r"] tail by blast+
  assume "v7_code (batch_steps n) S v0 code seed = 0"
  then have v0: "v0 \<le> 253402300799999" by (simp add: v7_code_def split: if_splits)
  have n: "n \<le> 2 ^ 26" using assms(3) by (simp add: MaxV7Batch_def)
  note vals = batch_uuids_values [OF assms(2) n v7_first_bounds [OF assms(1) batch_valid [OF assms(2) n, of r] v0],
      of "batch_tail r", OF tail, folded seed_def, folded us_def]
  have "is_rfc_v7 u" if u: "u \<in> set us" for u
  proof -
    obtain w c t where "w < 2 ^ 68" "c < 64" "u = v7_uuid w c t"
      using vals(1) u unfolding stream_values_def by (meson order.strict_trans1)
    then show ?thesis using v7_uuid_fields(1) by simp
  qed
  with vals(2) show "increasing us \<and> (\<forall>u\<in>set us. is_rfc_v7 u)" by blast
qed

text \<open>
  The three forms of a batch make the same call: \<open>r\<close> are the bytes drawn, \<open>us\<close> the values of the
  plan for them.
\<close>

lemma batch_exact:
  fixes ms :: i64
  assumes "package_ok cfg p" "stream_inv (stream_of p) N" "0 < n" "n \<le> MaxV7Batch" "drawn_batch cfg n p = (code, r, s)"
  defines "S \<equiv> stream_of p" and "k \<equiv> batch_steps n" and "seed \<equiv> batch_seed n r"
  defines "rc \<equiv> v7_code k S (unat ms) code seed"
  defines "us \<equiv> batch_uuids (v7_first k S (unat ms) seed) n (batch_tail r)"
    and "err \<equiv> Failed ''uuid_new_v7_batch'' rc (v7_error rc)"
  shows "\<exists>q. package_ok cfg q \<and> stream_of q = (if rc = 0 then v7_after k S (unat ms) seed else S) \<and>
      source_of cfg q = (if 253402300799999 < unat ms then source_of cfg p else s) \<and> length us = n \<and> (\<forall>u\<in>set us. length u = 16) \<and>
      (rc = 0 \<longrightarrow> increasing us \<and> (\<forall>u\<in>set us. is_rfc_v7 u)) \<and>
      NewV7BatchAt cfg (int n) ms p = Some (if rc = 0 then Inr us else Inl err, q) \<and>
      (\<forall>dst. length dst = n \<and> (\<forall>u\<in>set dst. length u = 16) \<longrightarrow>
         FillV7At cfg dst ms p = Some (if rc = 0 then (None, us) else (Some err, dst), q)) \<and>
      (\<forall>bs. length bs = 16 * n \<longrightarrow>
         FillV7BytesAt cfg bs ms p = Some (if rc = 0 then (None, concat us) else (Some err, bs), q))"
proof -
  have w: "unat (of_nat n :: i32) = n" using assms(4) by (rule count_word)
  have large: "\<not> 4294967295 < n" using assms(4) by (simp add: MaxV7Batch_def)
  have "0 < unat (of_nat n :: i32)" "unat (of_nat n :: i32) \<le> 2 ^ 26" "drawn_batch cfg (unat (of_nat n :: i32)) p = (code, r, s)"
    using w assms(3-5) by (simp_all add: MaxV7Batch_def)
  from newV7Batch_exact [OF assms(1,2) this, of ms] obtain q where
    q: "\<And>dst. length dst = 16 * n \<Longrightarrow>
        p_newV7Batch cfg ms (of_nat n) dst p = Some ((if rc = 0 then concat us else dst, rc), q)"
      "package_ok cfg q" "stream_of q = (if rc = 0 then v7_after k S (unat ms) seed else S)"
      "source_of cfg q = (if 253402300799999 < unat ms then source_of cfg p else s)" "length r = 6 * n + 4"
    unfolding w rc_def us_def k_def seed_def S_def by blast
  note planned = planned_batch [OF assms(2-4) q(5), where ?v0.0 = "unat ms", folded S_def, folded k_def seed_def, folded us_def]
  then have us: "length us = n" "\<forall>u\<in>set us. length u = 16" "rc = 0 \<longrightarrow> increasing us \<and> (\<forall>u\<in>set us. is_rfc_v7 u)"
    unfolding rc_def by blast+
  have codes: "errBatch ''uuid_new_v7_batch'' rc = (if rc = 0 then None else Some err)"
    unfolding err_def by (rule errBatch_codes) (simp only: rc_def v7_code_codes)
  have fill: "FillV7At cfg dst ms p = Some (if rc = 0 then (None, us) else (Some err, dst), q)"
    if "length dst = n" "\<forall>u\<in>set dst. length u = 16" for dst
    using q(1) [of "concat dst"] that assms(3,4) us large codes length_concat_16 [OF that(2)] chunks_concat [OF us(2)]
      chunks_concat [OF that(2)]
    by (auto simp: FillV7At_def fillUUIDs_def)
  moreover have "FillV7BytesAt cfg bs ms p = Some (if rc = 0 then (None, concat us) else (Some err, bs), q)"
    if "length bs = 16 * n" for bs
    using q(1) [OF that] that assms(3,4) large codes by (auto simp: FillV7BytesAt_def fillBytes_def Let_def)
  moreover have "NewV7BatchAt cfg (int n) ms p = Some (if rc = 0 then Inr us else Inl err, q)"
    using fill [of "replicate n zero_uuid"] assms(3,4) by (simp add: NewV7BatchAt_def zero_uuid_def)
  ultimately show ?thesis using q(2-4) us by (intro exI [of _ q]) blast
qed

section \<open>Batches against the specification of the stream\<close>

lemma FillV7At_returns:
  assumes "package_ok cfg p" "stream_inv (stream_of p) N" "0 < length dst" "length dst \<le> MaxV7Batch"
    "\<forall>u\<in>set dst. length u = 16"
  shows "\<exists>us rc q. FillV7At cfg dst ms p = Some (if rc = 0 then (None, us)
      else (Some (Failed ''uuid_new_v7_batch'' rc (v7_error rc)), dst), q) \<and> package_ok cfg q \<and>
    v7_call (batch_steps (length dst)) (stream_of p) (unat ms) rc (if rc = 0 then us else []) (stream_of q) \<and>
    (rc = 0 \<longrightarrow> length us = length dst \<and> (\<forall>u\<in>set us. length u = 16))"
proof -
  let ?n = "of_nat (length dst) :: i32"
  have n: "unat ?n = length dst" "\<not> 4294967295 < length dst" "\<not> MaxV7Batch < length dst"
    using assms(4) count_word [of "length dst"] by (simp_all add: MaxV7Batch_def)
  have pre: "0 < unat ?n" "unat ?n \<le> 2 ^ 26" "length (concat dst) = 16 * unat ?n"
    using n(1) assms(3,4) length_concat_16 [OF assms(5)] by (simp_all add: MaxV7Batch_def)
  obtain us rc q where q: "p_newV7Batch cfg ms ?n (concat dst) p = Some ((if rc = 0 then concat us else concat dst, rc), q)"
    "package_ok cfg q" "v7_call (batch_steps (length dst)) (stream_of p) (unat ms) rc us (stream_of q)"
    "rc = 0 \<longrightarrow> length us = length dst \<and> (\<forall>u\<in>set us. length u = 16)"
    using newV7Batch_returns [OF assms(1,2) pre, of ms] n(1) by auto
  have "FillV7At cfg dst ms p = Some (if rc = 0 then (None, us)
      else (Some (Failed ''uuid_new_v7_batch'' rc (v7_error rc)), dst), q)"
    using q(1,4) n(2,3) assms(3,5) chunks_concat [of us] chunks_concat [of dst]
      errBatch_codes [OF v7_call_codes(1) [OF q(3)]]
    by (auto simp: FillV7At_def fillUUIDs_def)
  then show ?thesis using q v7_call_codes(2) [OF q(3)] by (intro exI [of _ us] exI [of _ rc] exI [of _ q]) auto
qed

lemma FillV7BytesAt_returns:
  assumes "package_ok cfg p" "stream_inv (stream_of p) N" "0 < n" "n \<le> MaxV7Batch" "length dst = 16 * n"
  shows "\<exists>us rc q. FillV7BytesAt cfg dst ms p = Some (if rc = 0 then (None, concat us)
      else (Some (Failed ''uuid_new_v7_batch'' rc (v7_error rc)), dst), q) \<and> package_ok cfg q \<and>
    v7_call (batch_steps n) (stream_of p) (unat ms) rc (if rc = 0 then us else []) (stream_of q) \<and>
    (rc = 0 \<longrightarrow> length us = n \<and> (\<forall>u\<in>set us. length u = 16))"
proof -
  have w: "unat (of_nat n :: i32) = n" using assms(4) by (rule count_word)
  have pre: "0 < unat (of_nat n :: i32)" "unat (of_nat n :: i32) \<le> 2 ^ 26" "length dst = 16 * unat (of_nat n :: i32)"
    using w assms(3-5) by (simp_all add: MaxV7Batch_def)
  obtain us rc q where q: "p_newV7Batch cfg ms (of_nat n) dst p = Some ((if rc = 0 then concat us else dst, rc), q)"
    "package_ok cfg q" "v7_call (batch_steps n) (stream_of p) (unat ms) rc us (stream_of q)"
    "rc = 0 \<longrightarrow> length us = n \<and> (\<forall>u\<in>set us. length u = 16)"
    using newV7Batch_returns [OF assms(1,2) pre, of ms] w by auto
  have "\<not> 4294967295 < n" using assms(4) by (simp add: MaxV7Batch_def)
  then have "FillV7BytesAt cfg dst ms p = Some (if rc = 0 then (None, concat us)
      else (Some (Failed ''uuid_new_v7_batch'' rc (v7_error rc)), dst), q)"
    using q(1) assms(3-5) errBatch_codes [OF v7_call_codes(1) [OF q(3)]]
    by (auto simp: FillV7BytesAt_def fillBytes_def Let_def)
  then show ?thesis using q v7_call_codes(2) [OF q(3)] by (intro exI [of _ us] exI [of _ rc] exI [of _ q]) auto
qed

lemma NewV7BatchAt_returns:
  assumes "package_ok cfg p" "stream_inv (stream_of p) N" "0 < count" "count \<le> int MaxV7Batch"
  shows "\<exists>us rc q. NewV7BatchAt cfg count ms p = Some (if rc = 0 then Inr us
      else Inl (Failed ''uuid_new_v7_batch'' rc (v7_error rc)), q) \<and> package_ok cfg q \<and>
    v7_call (batch_steps (nat count)) (stream_of p) (unat ms) rc (if rc = 0 then us else []) (stream_of q) \<and>
    (rc = 0 \<longrightarrow> length us = nat count \<and> (\<forall>u\<in>set us. length u = 16))"
proof -
  let ?dst = "replicate (nat count) zero_uuid"
  have "0 < length ?dst" "length ?dst \<le> MaxV7Batch" "\<forall>u\<in>set ?dst. length u = 16"
    using assms(3,4) by (auto simp: zero_uuid_def)
  from FillV7At_returns [OF assms(1,2) this, of ms] obtain us rc q where
    "FillV7At cfg ?dst ms p = Some (if rc = 0 then (None, us)
      else (Some (Failed ''uuid_new_v7_batch'' rc (v7_error rc)), ?dst), q)" "package_ok cfg q"
    "v7_call (batch_steps (nat count)) (stream_of p) (unat ms) rc (if rc = 0 then us else []) (stream_of q)"
    "rc = 0 \<longrightarrow> length us = nat count \<and> (\<forall>u\<in>set us. length u = 16)" by auto
  then show ?thesis using assms(3,4)
    by (intro exI [of _ us] exI [of _ rc] exI [of _ q]) (auto simp: NewV7BatchAt_def)
qed

end
