(* ===== verification/Host_Contract.thy ===== *)
theory Host_Contract
  imports Host_V7
begin

text \<open>
  Histories of calls of the package and the ordering contract \<open>NewV7At\<close> documents
  (\<open>src/go/uuidgen.go\<close>): a program makes any sequence of version 7 calls in any of their forms,
  with stateless calls in between; the values of the calls that reserved in the stream are
  strictly increasing, which calls reserve is as documented, and so are the timestamps.
\<close>

section \<open>One call\<close>

lemma v7_call_order:
  assumes "v7_call k S v0 rc us S'" "S' \<noteq> S"
  shows "rc = 0" "S < S'" "\<exists>b. S < b \<and> stream_values b S' us" "increasing us"
  using assms by (auto elim!: v7_call_cases dest: reserved_after simp: valid_call_def)

lemma v7_call_unreserved:
  assumes "v7_call k S v0 0 us S" "stream_inv S N" "v0 \<le> 17592186044414" "N \<le> v0 + 10000"
  shows False
  using assms(1)
proof (cases rule: v7_call.cases)
  case (in_stream seed b)
  then show False using reserved_after(3) [OF in_stream(4)] by (simp add: valid_call_def v7_after_def)
next
  case (stray seed b)
  then show False using near_in_stream [OF assms(2-4)] by blast
qed auto

lemma v7_call_inv:
  assumes "v7_call k S v0 rc us S'" "stream_inv S N"
  shows "stream_inv S' (if S' = S then N else max N v0)"
  using assms by (auto elim!: v7_call_cases dest: stream_inv_reserved)

lemma stream_values_millis:
  assumes "stream_values lo hi us" "u \<in> set us"
  shows "is_rfc_v7 u" "word_millis lo \<le> rfc_millis u" "rfc_millis u \<le> word_millis hi"
proof -
  obtain w c t where w: "lo \<le> w" "w \<le> hi" "c < 64" "u = v7_uuid w c t" "w < 2 ^ 68"
    using assms unfolding stream_values_def by fastforce
  then show "is_rfc_v7 u" "word_millis lo \<le> rfc_millis u" "rfc_millis u \<le> word_millis hi"
    using v7_uuid_fields [OF w(5,3)] div_le_mono [OF w(1), of "2 ^ 20"] div_le_mono [OF w(2), of "2 ^ 20"]
    by (simp_all add: word_millis_def)
qed

text \<open>The timestamps a call embeds: the caller's, or at most 11 s later when it was clamped.\<close>

lemma fresh_millis:
  assumes "valid_call k seed" "b = (v0 + 1) * 2 ^ 20 + seed"
  shows "word_millis b = v0" "word_millis (b + k - 1) = v0"
proof -
  have k: "0 < k" "seed + k \<le> 2 ^ 20" using assms(1) by (simp_all add: valid_call_def)
  have "b div 2 ^ 20 = v0 + 1" "(b + k - 1) div 2 ^ 20 = v0 + 1"
    using k assms(2) hi_bounds(1) [of b "v0 + 1" seed] hi_bounds(1) [of "b + k - 1" "v0 + 1" "seed + k - 1"]
    by simp_all
  then show "word_millis b = v0" "word_millis (b + k - 1) = v0" by (simp_all add: word_millis_def)
qed

lemma v7_call_millis:
  assumes "v7_call k S v0 0 us S'" "u \<in> set us"
  shows "is_rfc_v7 u" "v0 \<le> rfc_millis u" "rfc_millis u \<le> v0 + 11000" "S' = S \<Longrightarrow> rfc_millis u = v0"
proof -
  have "is_rfc_v7 u \<and> v0 \<le> rfc_millis u \<and> rfc_millis u \<le> v0 + 11000 \<and> (S' = S \<longrightarrow> rfc_millis u = v0)"
    using assms(1)
  proof (cases rule: v7_call.cases)
    case (stray seed b)
    then show ?thesis using fresh_millis [OF stray(3,5)] stream_values_millis [OF stray(6) assms(2)] by simp
  next
    case (in_stream seed b)
    note m = stream_values_millis [OF in_stream(5) assms(2)]
    have "S' \<noteq> S" using reserved_after(3) [OF in_stream(4)] in_stream by (simp add: valid_call_def v7_after_def)
    moreover have "v0 \<le> word_millis b \<and> word_millis (b + k - 1) \<le> v0 + 11000"
      using in_stream(4)
    proof (cases rule: reserved_cases)
      case fresh
      then show ?thesis using fresh_millis [OF in_stream(3)] by simp
    next
      case step
      define hi low where "hi = S div 2 ^ 20" and "low = S mod 2 ^ 20"
      have "b = hi * 2 ^ 20 + (low + 1)" "b + k - 1 = hi * 2 ^ 20 + (low + k)" "low + k < 2 ^ 20" "low + 1 < 2 ^ 20"
        using step in_stream(3) [unfolded valid_call_def] div_mult_mod_eq [of S "2 ^ 20"] by (simp_all add: hi_def low_def)
      then have "b div 2 ^ 20 = hi" "(b + k - 1) div 2 ^ 20 = hi"
        by (simp_all add: hi_bounds(1))
      then have "word_millis b = word_millis S" "word_millis (b + k - 1) = word_millis S"
        by (simp_all add: word_millis_def hi_def)
      then show ?thesis using step(3,4) by linarith
    next
      case split
      define hi low where "hi = S div 2 ^ 20" and "low = S mod 2 ^ 20"
      have k: "0 < k" "k \<le> 2 ^ 20" "low < 2 ^ 20" using in_stream(3) by (simp_all add: valid_call_def low_def)
      have "b = hi * 2 ^ 20 + (low + 1)" "b + k - 1 = (hi + 1) * 2 ^ 20 + (low + k - 2 ^ 20)"
        using split k div_mult_mod_eq [of S "2 ^ 20"] by (simp_all add: hi_def low_def)
      then have "hi \<le> b div 2 ^ 20" "(b + k - 1) div 2 ^ 20 = hi + 1"
        using k hi_bounds(1) [of "b + k - 1" "hi + 1" "low + k - 2 ^ 20"]
          div_le_mono [of "hi * 2 ^ 20" b "2 ^ 20"] by simp_all
      then have "word_millis S \<le> word_millis b" "word_millis (b + k - 1) = hi" "word_millis S + 1 = hi"
        using split(2) unfolding word_millis_def hi_def by (simp_all add: diff_le_mono)
      then show ?thesis using split(3,4) by linarith
    qed
    ultimately show ?thesis using m in_stream by simp
  qed auto
  then show "is_rfc_v7 u" "v0 \<le> rfc_millis u" "rfc_millis u \<le> v0 + 11000" "S' = S \<Longrightarrow> rfc_millis u = v0" by blast+
qed

section \<open>Histories\<close>

text \<open>
  A request is a version 7 call in one of its forms, or a stateless call (\<open>NewV4\<close>) in between.
  \<open>mint\<close> makes it and reports the values the caller then holds.
\<close>

datatype v7_request = One i64 | AtTime int | Batch int i64 | FillU "uuid list" i64 | FillB "u8 list" i64
  | Aside sched

definition filled :: "(go_error option \<times> 'a) \<Rightarrow> ('a \<Rightarrow> uuid list) \<Rightarrow> uuid list go" where
  "filled r f = (case fst r of Some e \<Rightarrow> Inl e | None \<Rightarrow> Inr (f (snd r)))"

fun mint :: "config \<Rightarrow> v7_request \<Rightarrow> package \<Rightarrow> (uuid list go \<times> package) option" where
  "mint cfg (One ms) p = do { (r, p) \<leftarrow> NewV7At cfg ms p; Some (map_sum (\<lambda>e. e) (\<lambda>u. [u]) r, p) }"
| "mint cfg (AtTime t) p = do { (r, p) \<leftarrow> NewV7AtTime cfg t p; Some (map_sum (\<lambda>e. e) (\<lambda>u. [u]) r, p) }"
| "mint cfg (Batch n ms) p = NewV7BatchAt cfg n ms p"
| "mint cfg (FillU dst ms) p = do { (r, p) \<leftarrow> FillV7At cfg dst ms p; Some (filled r (\<lambda>us. us), p) }"
| "mint cfg (FillB dst ms) p =
     do { (r, p) \<leftarrow> FillV7BytesAt cfg dst ms p; Some (filled r (\<lambda>bs. chunks (length bs div 16) bs), p) }"
| "mint cfg (Aside sc) p = do { (r, p) \<leftarrow> NewV4 cfg sc p; Some (Inr [], p) }"

fun request_millis :: "v7_request \<Rightarrow> nat" where
  "request_millis (One ms) = unat ms"
| "request_millis (AtTime t) = nat (t div 1000000)"
| "request_millis (Batch n ms) = unat ms"
| "request_millis (FillU dst ms) = unat ms"
| "request_millis (FillB dst ms) = unat ms"
| "request_millis (Aside sc) = 0"

fun request_ok :: "v7_request \<Rightarrow> bool" where
  "request_ok (FillU dst ms) \<longleftrightarrow> (\<forall>u\<in>set dst. length u = 16)"
| "request_ok _ \<longleftrightarrow> True"

text \<open>
  What one request does: it mints nothing and leaves the stream alone, with an error about its
  arguments or none, or it is one call of the stream's specification.
\<close>

definition argument_error :: "go_error \<Rightarrow> bool" where
  "argument_error e \<longleftrightarrow> sentinel_of e \<in>
     {Some ErrTimestampOutOfRange, Some ErrNegativeCount, Some ErrBatchTooLarge, Some ErrBufferNotWholeUUIDs}"

definition stream_step :: "nat \<Rightarrow> v7_request \<Rightarrow> uuid list go \<Rightarrow> nat \<Rightarrow> bool" where
  "stream_step S r res S' \<longleftrightarrow>
     (S' = S \<and> (res = Inr [] \<or> (\<exists>e. res = Inl e \<and> argument_error e))) \<or>
     (\<exists>k rc us. v7_call k S (request_millis r) rc us S' \<and>
        (if rc = 0 then res = Inr us else \<exists>e. res = Inl e \<and> sentinel_of e = Some (v7_error rc)))"

lemma stream_step_call:
  "v7_call k S (request_millis r) rc (if rc = 0 then us else []) S' \<Longrightarrow>
   res = (if rc = 0 then Inr us else Inl (Failed fn rc (v7_error rc))) \<Longrightarrow> stream_step S r res S'"
  unfolding stream_step_def by (intro disjI2 exI [of _ k] exI [of _ rc] exI [of _ "if rc = 0 then us else []"]) auto

lemma stream_step_argument: "argument_error e \<Longrightarrow> stream_step S r (Inl e) S"
  and stream_step_nothing: "stream_step S r (Inr []) S"
  by (auto simp: stream_step_def)

lemma mint_single:
  assumes "package_ok cfg p" "stream_inv (stream_of p) N" "request_millis r = unat ms"
    "mint cfg r p = do { (r, p) \<leftarrow> NewV7At cfg ms p; Some (map_sum (\<lambda>e. e) (\<lambda>u. [u]) r, p) }"
  shows "\<exists>res q. mint cfg r p = Some (res, q) \<and> package_ok cfg q \<and> stream_step (stream_of p) r res (stream_of q)"
proof -
  obtain out rc q where "NewV7At cfg ms p = Some (if rc = 0 then Inr out else Inl (Failed ''uuid_new_v7'' rc (v7_error rc)), q)"
    "package_ok cfg q" "v7_call 1 (stream_of p) (unat ms) rc (if rc = 0 then [out] else []) (stream_of q)"
    using NewV7At_returns [OF assms(1,2)] by blast
  then show ?thesis using assms(3,4) stream_step_call [of 1 "stream_of p" r rc "[out]" "stream_of q"]
    by (cases "rc = 0") auto
qed

lemma unix_milli_word:
  assumes "0 \<le> t" "t < 253402300800000 * 1000000"
  shows "unat (of_int (t div 1000000) :: i64) = nat (t div 1000000)"
proof -
  have "0 \<le> t div 1000000" "t div 1000000 < 253402300800000" using assms by linarith+
  then show ?thesis using unat_of_nat_i64 [of "nat (t div 1000000)"] by simp
qed

lemma mint_returns:
  assumes "package_ok cfg p" "stream_inv (stream_of p) N" "request_ok r"
  shows "\<exists>res q. mint cfg r p = Some (res, q) \<and> package_ok cfg q \<and> stream_step (stream_of p) r res (stream_of q)"
proof (cases r)
  case (One ms)
  then show ?thesis using mint_single [OF assms(1,2), of r ms] by simp
next
  case (AtTime t)
  show ?thesis
  proof (cases "t < v7Epoch \<or> \<not> t < v7PastCap")
    case True
    then show ?thesis using AtTime assms(1)
      by (auto simp: NewV7AtTime_def argument_error_def intro!: stream_step_argument)
  next
    case False
    have "0 \<le> t" "t < 253402300800000 * 1000000"
      using False by (simp_all add: v7Epoch_def v7PastCap_def unixMilli_def)
    note unix_milli_word [OF this]
    then show ?thesis using AtTime False mint_single [OF assms(1,2), of r "of_int (t div 1000000)"]
      by (simp add: NewV7AtTime_def)
  qed
next
  case (Batch n ms)
  show ?thesis
  proof (cases "0 < n \<and> n \<le> int MaxV7Batch")
    case False
    then show ?thesis using Batch assms(1) stream_step_argument stream_step_nothing
      by (auto simp: NewV7BatchAt_def argument_error_def errV7BatchTooLarge_def)
  next
    case True
    then obtain us rc q where "NewV7BatchAt cfg n ms p = Some (if rc = 0 then Inr us
        else Inl (Failed ''uuid_new_v7_batch'' rc (v7_error rc)), q)" "package_ok cfg q"
      "v7_call (batch_steps (nat n)) (stream_of p) (unat ms) rc (if rc = 0 then us else []) (stream_of q)"
      using NewV7BatchAt_returns [OF assms(1,2)] by metis
    then show ?thesis using Batch stream_step_call [of _ "stream_of p" r rc us "stream_of q"] by simp
  qed
next
  case (FillU dst ms)
  show ?thesis
  proof (cases "0 < length dst \<and> length dst \<le> MaxV7Batch")
    case False
    then show ?thesis using FillU assms(1) stream_step_argument stream_step_nothing
      by (auto simp: FillV7At_def fillUUIDs_def filled_def argument_error_def errV7BatchTooLarge_def)
  next
    case True
    then obtain us rc q where "FillV7At cfg dst ms p = Some (if rc = 0 then (None, us)
        else (Some (Failed ''uuid_new_v7_batch'' rc (v7_error rc)), dst), q)" "package_ok cfg q"
      "v7_call (batch_steps (length dst)) (stream_of p) (unat ms) rc (if rc = 0 then us else []) (stream_of q)"
      using FillV7At_returns [OF assms(1,2), of dst ms] assms(3) FillU by auto
    then show ?thesis using FillU stream_step_call [of _ "stream_of p" r rc us "stream_of q"]
      by (cases "rc = 0") (auto simp: filled_def)
  qed
next
  case (FillB dst ms)
  consider "length dst mod 16 \<noteq> 0" | "dst = []" | "length dst = 16 * (length dst div 16)" "MaxV7Batch < length dst div 16"
    | "length dst = 16 * (length dst div 16)" "0 < length dst div 16" "length dst div 16 \<le> MaxV7Batch"
  proof -
    have "dst = []" if "length dst mod 16 = 0" "length dst div 16 = 0"
      using that div_mult_mod_eq [of "length dst" 16] by simp
    moreover have "length dst = 16 * (length dst div 16)" if "length dst mod 16 = 0" using that by auto
    ultimately show thesis using that by (meson gr0I not_le)
  qed
  then show ?thesis
  proof cases
    case 4
    then obtain us rc q where q: "FillV7BytesAt cfg dst ms p = Some (if rc = 0 then (None, concat us)
        else (Some (Failed ''uuid_new_v7_batch'' rc (v7_error rc)), dst), q)" "package_ok cfg q"
      "v7_call (batch_steps (length dst div 16)) (stream_of p) (unat ms) rc (if rc = 0 then us else []) (stream_of q)"
      "rc = 0 \<longrightarrow> length us = length dst div 16 \<and> (\<forall>u\<in>set us. length u = 16)"
      using FillV7BytesAt_returns [OF assms(1,2) 4(2,3,1)] by metis
    then have "rc = 0 \<longrightarrow> chunks (length (concat us) div 16) (concat us) = us"
      using length_concat_16 [of us] chunks_concat [of us] by auto
    with q show ?thesis using FillB stream_step_call [of _ "stream_of p" r rc us "stream_of q"]
      by (cases "rc = 0") (auto simp: filled_def)
  qed (use FillB assms(1) stream_step_argument stream_step_nothing in
      \<open>auto simp: FillV7BytesAt_def fillBytes_def filled_def argument_error_def errV7BatchTooLarge_def MaxV7Batch_def\<close>)
next
  case (Aside sc)
  obtain out rc q where "p_newV4 cfg sc p = Some ((out, rc), q)" "package_ok cfg q" "stream_of q = stream_of p"
    using newV4_returns [OF assms(1)] by blast
  then show ?thesis using Aside stream_step_nothing by (auto simp: NewV4_def)
qed

text \<open>
  A history records for each request its result and whether it reserved in the stream. \<open>run\<close>
  makes the requests one after the other.
\<close>

record event =
  request :: v7_request
  outcome :: "uuid list go"
  reserved :: bool

fun run :: "config \<Rightarrow> v7_request list \<Rightarrow> package \<Rightarrow> (event list \<times> package) option" where
  "run cfg [] p = Some ([], p)"
| "run cfg (r # rs) p =
     do { (res, q) \<leftarrow> mint cfg r p;
          (evs, q') \<leftarrow> run cfg rs q;
          Some (\<lparr>request = r, outcome = res, reserved = (stream_of q \<noteq> stream_of p)\<rparr> # evs, q') }"

definition values_of :: "event \<Rightarrow> uuid list" where
  "values_of e = (case outcome e of Inr us \<Rightarrow> us | Inl _ \<Rightarrow> [])"

definition millis_of :: "event \<Rightarrow> nat" where
  "millis_of e = request_millis (request e)"

text \<open>The values minted in the stream, and the newest timestamp it was reserved at.\<close>

definition stream_output :: "event list \<Rightarrow> uuid list" where
  "stream_output evs = concat (map values_of (filter reserved evs))"

fun newest :: "nat \<Rightarrow> event list \<Rightarrow> nat" where
  "newest N [] = N"
| "newest N (e # es) = newest (if reserved e then max N (millis_of e) else N) es"

lemma stream_step_inv:
  assumes "stream_step S r res S'" "stream_inv S N"
  shows "stream_inv S' (if S' = S then N else max N (request_millis r))"
  using assms v7_call_inv unfolding stream_step_def by fastforce

lemma stream_step_cases:
  assumes "stream_step S r res S'"
  obtains (call) k us where "v7_call k S (request_millis r) 0 us S'" "res = Inr us"
  | (failed) k rc e where "v7_call k S (request_millis r) rc [] S" "rc \<in> {1, 2, 6}" "res = Inl e" "S' = S"
      "sentinel_of e = Some (v7_error rc)"
  | (nothing) "S' = S" "res = Inr []"
  | (argument) e where "S' = S" "res = Inl e" "argument_error e"
proof -
  have "(\<exists>e. res = Inl e \<and> sentinel_of e = Some (v7_error rc) \<and> S' = S \<and> us = [] \<and> rc \<in> {1, 2, 6})"
    if "v7_call k S (request_millis r) rc us S'" "rc \<noteq> 0" "\<exists>e. res = Inl e \<and> sentinel_of e = Some (v7_error rc)" for k rc us
    using that v7_call_codes(1,2) [OF that(1)] by auto
  with assms that show thesis unfolding stream_step_def by metis
qed

text \<open>The run of a well-formed package always returns, one event for each request.\<close>

lemma run_returns:
  assumes "package_ok cfg p" "stream_inv (stream_of p) N" "\<forall>r\<in>set rs. request_ok r"
  shows "\<exists>evs q. run cfg rs p = Some (evs, q) \<and> length evs = length rs \<and> package_ok cfg q \<and>
    stream_inv (stream_of q) (newest N evs)"
  using assms
proof (induction rs arbitrary: p N)
  case (Cons r rs)
  obtain res q where q: "mint cfg r p = Some (res, q)" "package_ok cfg q" "stream_step (stream_of p) r res (stream_of q)"
    using mint_returns [OF Cons.prems(1,2), of r] Cons.prems(3) by auto
  from Cons.IH [OF q(2) stream_step_inv [OF q(3) Cons.prems(2)]] Cons.prems(3) q(1)
  show ?case by (cases "stream_of q = stream_of p") (fastforce simp: millis_of_def)+
qed simp

text \<open>Induction over the steps of a run.\<close>

lemma run_induct [consumes 4, case_names Nil Cons]:
  assumes "package_ok cfg p" "stream_inv (stream_of p) N" "\<forall>r\<in>set rs. request_ok r" "run cfg rs p = Some (evs, q)"
    and "\<And>p N. P p N [] p"
    and "\<And>p N r res p' evs q. package_ok cfg p \<Longrightarrow> stream_inv (stream_of p) N \<Longrightarrow>
      stream_step (stream_of p) r res (stream_of p') \<Longrightarrow>
      P p' (if stream_of p' = stream_of p then N else max N (request_millis r)) evs q \<Longrightarrow>
      P p N (\<lparr>request = r, outcome = res, reserved = (stream_of p' \<noteq> stream_of p)\<rparr> # evs) q"
  shows "P p N evs q"
  using assms(1-4)
proof (induction rs arbitrary: p N evs)
  case Nil
  then show ?case using assms(5) by simp
next
  case (Cons r rs)
  obtain res p' where p': "mint cfg r p = Some (res, p')" "package_ok cfg p'" "stream_step (stream_of p) r res (stream_of p')"
    using mint_returns [OF Cons.prems(1,2), of r] Cons.prems(3) by auto
  obtain es where es: "run cfg rs p' = Some (es, q)"
    "evs = \<lparr>request = r, outcome = res, reserved = (stream_of p' \<noteq> stream_of p)\<rparr> # es"
    using Cons.prems(4) p'(1) by (auto split: Option.bind_splits)
  have "P p' (if stream_of p' = stream_of p then N else max N (request_millis r)) es q"
    using Cons.IH [OF p'(2) stream_step_inv [OF p'(3) Cons.prems(2)] _ es(1)] Cons.prems(3) by simp
  then show ?case unfolding es(2) by (rule assms(6) [OF Cons.prems(1,2) p'(3)])
qed

lemma run_output:
  assumes "package_ok cfg p" "stream_inv (stream_of p) N" "\<forall>r\<in>set rs. request_ok r" "run cfg rs p = Some (evs, q)"
  shows "increasing (stream_output evs) \<and> stream_of p \<le> stream_of q \<and>
    (\<forall>u\<in>set (stream_output evs). \<exists>b h. stream_of p < b \<and> h \<le> stream_of q \<and> stream_values b h [u])"
  using assms
proof (induction rule: run_induct)
  case Nil
  then show ?case by (simp add: stream_output_def increasing_def)
next
  case (Cons p N r res p' evs q)
  show ?case
  proof (cases "stream_of p' = stream_of p")
    case True
    with Cons show ?thesis by (simp add: stream_output_def)
  next
    case False
    with Cons(3) obtain k us where call: "v7_call k (stream_of p) (request_millis r) 0 us (stream_of p')" "res = Inr us"
      by (cases rule: stream_step_cases) auto
    obtain b where b: "stream_of p < stream_of p'" "stream_of p < b" "stream_values b (stream_of p') us" "increasing us"
      using v7_call_order [OF call(1) False] by blast
    have out: "stream_output (\<lparr>request = r, outcome = res, reserved = (stream_of p' \<noteq> stream_of p)\<rparr> # evs) =
        us @ stream_output evs"
      using False by (simp add: stream_output_def values_of_def call(2))
    have before: "be_nat u < be_nat v" if uv: "u \<in> set us" "v \<in> set (stream_output evs)" for u v
    proof -
      obtain b' h' where "stream_of p' < b'" "stream_values b' h' [v]" using Cons(4) uv(2) by blast
      then show ?thesis using stream_values_less [OF b(3)] uv(1) by simp
    qed
    have "stream_values b (stream_of p') [u]" if "u \<in> set us" for u
      using b(3) that by (simp add: stream_values_def)
    moreover have "\<exists>b h. stream_of p < b \<and> h \<le> stream_of q \<and> stream_values b h [u]"
      if "u \<in> set (stream_output evs)" for u
      using Cons(4) b(1) that by (meson less_trans)
    ultimately show ?thesis unfolding out using b Cons(4) before
      by (auto simp: increasing_def sorted_wrt_append)
  qed
qed

text \<open>Each event by itself, given the newest timestamp reserved at before it.\<close>

definition event_ok :: "nat \<Rightarrow> event \<Rightarrow> bool" where
  "event_ok N e \<longleftrightarrow>
     (values_of e \<noteq> [] \<and> millis_of e \<le> 17592186044414 \<and> N \<le> millis_of e + 10000 \<longrightarrow> reserved e) \<and>
     (\<forall>u\<in>set (values_of e). is_rfc_v7 u \<and> millis_of e \<le> rfc_millis u \<and> rfc_millis u \<le> millis_of e + 11000 \<and>
        (\<not> reserved e \<longrightarrow> rfc_millis u = millis_of e)) \<and>
     (\<forall>err. outcome e = Inl err \<longrightarrow> \<not> reserved e \<and>
        (argument_error err \<or> sentinel_of err \<in> {Some ErrCounterExhausted, Some ErrRandomSource}))"

lemma stream_step_event:
  assumes "stream_step S r res S'" "stream_inv S N"
  shows "event_ok N \<lparr>request = r, outcome = res, reserved = (S' \<noteq> S)\<rparr>"
  using assms(1)
proof (cases rule: stream_step_cases)
  case (call k us)
  then show ?thesis using v7_call_millis [OF call(1)] v7_call_unreserved [of k S "request_millis r" us N] assms(2)
    by (auto simp: event_ok_def values_of_def millis_of_def)
qed (auto simp: event_ok_def values_of_def argument_error_def v7_error_def)

lemma run_events:
  assumes "package_ok cfg p" "stream_inv (stream_of p) N" "\<forall>r\<in>set rs. request_ok r" "run cfg rs p = Some (evs, q)"
  shows "\<forall>j<length evs. event_ok (newest N (take j evs)) (evs ! j)"
  using assms
proof (induction rule: run_induct)
  case (Cons p N r res p' evs q)
  show ?case
  proof (intro allI impI)
    fix j assume j: "j < length (\<lparr>request = r, outcome = res, reserved = (stream_of p' \<noteq> stream_of p)\<rparr> # evs)"
    show "event_ok (newest N (take j (\<lparr>request = r, outcome = res, reserved = (stream_of p' \<noteq> stream_of p)\<rparr> # evs)))
        ((\<lparr>request = r, outcome = res, reserved = (stream_of p' \<noteq> stream_of p)\<rparr> # evs) ! j)"
      using j Cons stream_step_event [OF Cons(3,2)]
      by (cases j; cases "stream_of p' = stream_of p") (simp_all add: millis_of_def)
  qed
qed simp

section \<open>The documented contract\<close>

lemma run_from_start:
  assumes "host_ok (c_maxint cfg)" "\<forall>r\<in>set rs. request_ok r"
  obtains evs q where "run cfg rs (init_package e) = Some (evs, q)" "length evs = length rs" "package_ok cfg q"
    "stream_inv (stream_of q) (newest 0 evs)" "increasing (stream_output evs)"
    "\<forall>j<length evs. event_ok (newest 0 (take j evs)) (evs ! j)" "\<forall>ev\<in>set evs. \<exists>N. event_ok N ev"
proof -
  note p = init_package_ok(1) [OF assms(1), of e]
  have s: "stream_inv (stream_of (init_package e)) 0" by (simp add: init_package_ok(2) stream_inv_unused)
  obtain evs q where r: "run cfg rs (init_package e) = Some (evs, q)" "length evs = length rs" "package_ok cfg q"
    "stream_inv (stream_of q) (newest 0 evs)"
    using run_returns [OF p s assms(2)] by blast
  note events = run_events [OF p s assms(2) r(1)]
  then have "\<forall>ev\<in>set evs. \<exists>N. event_ok N ev" by (metis in_set_conv_nth)
  with events show thesis
    using run_output [OF p s assms(2) r(1)] by (intro that [OF r]) blast+
qed

text \<open>A program for the witnesses: clamped, out-of-stream and refused calls among others.\<close>

definition sample_requests :: "v7_request list" where
  "sample_requests = [One 90000, Batch 3 89990, Aside (Busy None), AtTime 80000000000, FillB (replicate 32 0) 70000,
     One 253402300800000, Batch (- 1) 4, FillB [0] 5, Batch 70000000 6, FillU [] 7]"

lemma sample_requests_ok [simp]: "\<forall>r\<in>set sample_requests. request_ok r"
  by (simp add: sample_requests_def)

definition sample_env :: os_env where
  "sample_env = \<lparr>reads = [ReadOk (replicate 32 7)], clock = [1, 2]\<rparr>"

text \<open>
  C1. The ordering contract of \<open>NewV7At\<close>. Whatever version 7 calls a program makes, in any of
  their forms and with any random bytes and failures, every call returns; all values of calls
  that reserved in the stream, within one call and across calls, are strictly increasing as
  128-bit numbers; and a call that mints for a timestamp up to \<open>2 ^ 44 - 2\<close> and at most 10 s
  before the newest timestamp the stream was reserved at did reserve in the stream.
\<close>

theorem ordering_contract:
  assumes "host_ok (c_maxint cfg)" "\<forall>r\<in>set rs. request_ok r"
  shows "\<exists>evs q. run cfg rs (init_package e) = Some (evs, q) \<and> length evs = length rs \<and>
    increasing (stream_output evs) \<and>
    (\<forall>j<length evs. values_of (evs ! j) \<noteq> [] \<and> millis_of (evs ! j) \<le> 2 ^ 44 - 2 \<and>
       newest 0 (take j evs) \<le> millis_of (evs ! j) + 10000 \<longrightarrow> reserved (evs ! j))"
proof (rule run_from_start [OF assms, of e])
  fix evs q
  assume r: "run cfg rs (init_package e) = Some (evs, q)" "length evs = length rs" "increasing (stream_output evs)"
    "\<forall>j<length evs. event_ok (newest 0 (take j evs)) (evs ! j)"
  then show ?thesis by (intro exI [of _ evs] exI [of _ q]) (simp add: event_ok_def)
qed

theorem ordering_contract_witness:
  "\<exists>evs q. run sample_config sample_requests (init_package sample_env) = Some (evs, q) \<and>
    length evs = length sample_requests \<and> increasing (stream_output evs) \<and>
    (\<forall>j<length evs. values_of (evs ! j) \<noteq> [] \<and> millis_of (evs ! j) \<le> 2 ^ 44 - 2 \<and>
       newest 0 (take j evs) \<le> millis_of (evs ! j) + 10000 \<longrightarrow> reserved (evs ! j))"
  by (rule ordering_contract) simp_all

text \<open>
  C6. Embedded timestamps. In every history, every value is a version 7 of the RFC variant whose
  timestamp is the call's or later by at most 11 s; a call that did not reserve in the stream
  embeds its own timestamp exactly.
\<close>

theorem embedded_timestamps:
  assumes "host_ok (c_maxint cfg)" "\<forall>r\<in>set rs. request_ok r"
  shows "\<exists>evs q. run cfg rs (init_package e) = Some (evs, q) \<and>
    (\<forall>ev\<in>set evs. \<forall>u\<in>set (values_of ev). is_rfc_v7 u \<and> millis_of ev \<le> rfc_millis u \<and>
       rfc_millis u \<le> millis_of ev + 11000 \<and> (\<not> reserved ev \<longrightarrow> rfc_millis u = millis_of ev))"
proof (rule run_from_start [OF assms, of e])
  fix evs q
  assume r: "run cfg rs (init_package e) = Some (evs, q)" "\<forall>ev\<in>set evs. \<exists>N. event_ok N ev"
  then show ?thesis by (intro exI [of _ evs] exI [of _ q]) (fastforce simp: event_ok_def)
qed

theorem embedded_timestamps_witness:
  "\<exists>evs q. run sample_config sample_requests (init_package sample_env) = Some (evs, q) \<and>
    (\<forall>ev\<in>set evs. \<forall>u\<in>set (values_of ev). is_rfc_v7 u \<and> millis_of ev \<le> rfc_millis u \<and>
       rfc_millis u \<le> millis_of ev + 11000 \<and> (\<not> reserved ev \<longrightarrow> rfc_millis u = millis_of ev))"
  by (rule embedded_timestamps) simp_all

text \<open>
  C20. Errors of the version 7 calls. In every history a call that fails has reserved nothing,
  and its error wraps one of the sentinels of a bad argument, \<open>ErrCounterExhausted\<close> or
  \<open>ErrRandomSource\<close>; so \<open>ErrBatchUnaddressable\<close> is never returned and no call panics.
\<close>

theorem v7_errors:
  assumes "host_ok (c_maxint cfg)" "\<forall>r\<in>set rs. request_ok r"
  shows "\<exists>evs q. run cfg rs (init_package e) = Some (evs, q) \<and> length evs = length rs \<and>
    (\<forall>ev\<in>set evs. \<forall>err. outcome ev = Inl err \<longrightarrow> \<not> reserved ev \<and>
       sentinel_of err \<in> Some ` {ErrTimestampOutOfRange, ErrNegativeCount, ErrBatchTooLarge,
         ErrBufferNotWholeUUIDs, ErrCounterExhausted, ErrRandomSource})"
proof (rule run_from_start [OF assms, of e])
  fix evs q
  assume r: "run cfg rs (init_package e) = Some (evs, q)" "length evs = length rs"
    "\<forall>ev\<in>set evs. \<exists>N. event_ok N ev"
  have "event_ok N ev \<Longrightarrow> outcome ev = Inl err \<Longrightarrow> \<not> reserved ev \<and>
       sentinel_of err \<in> Some ` {ErrTimestampOutOfRange, ErrNegativeCount, ErrBatchTooLarge,
         ErrBufferNotWholeUUIDs, ErrCounterExhausted, ErrRandomSource}" for N ev err
    by (auto simp: event_ok_def argument_error_def)
  with r show ?thesis by (intro exI [of _ evs] exI [of _ q]) meson
qed

theorem v7_errors_witness:
  "\<exists>evs q. run sample_config sample_requests (init_package sample_env) = Some (evs, q) \<and>
    length evs = length sample_requests \<and>
    (\<forall>ev\<in>set evs. \<forall>err. outcome ev = Inl err \<longrightarrow> \<not> reserved ev \<and>
       sentinel_of err \<in> Some ` {ErrTimestampOutOfRange, ErrNegativeCount, ErrBatchTooLarge,
         ErrBufferNotWholeUUIDs, ErrCounterExhausted, ErrRandomSource})"
  by (rule v7_errors) simp_all

section \<open>Batches\<close>

lemma after_run:
  assumes "host_ok (c_maxint cfg)" "\<forall>r\<in>set rs. request_ok r" "run cfg rs (init_package e) = Some (evs, p)"
  shows "package_ok cfg p" "stream_inv (stream_of p) (newest 0 evs)"
  using run_from_start [OF assms(1,2), of e] assms(3) by (metis Pair_inject option.inject)+

text \<open>A build without AES acceleration draws from the system: its draws for the witnesses.\<close>

definition os_config :: config where
  "os_config = sample_config\<lparr>c_accelerated := False\<rparr>"

definition os_random :: "nat \<Rightarrow> os_env" where
  "os_random m = \<lparr>reads = replicate m (ReadOk (replicate 65536 7)), clock = []\<rparr>"

lemma os_config_ok [simp]: "host_ok (c_maxint os_config)"
  by (simp add: os_config_def)

lemma os_config_source: "source_of os_config (init_package e) = (OsSource, e)"
  by (simp add: source_of_def init_package_def os_config_def sample_config_def newSource_def newStream_def)

lemma read_full_one:
  "0 < n \<Longrightarrow> n \<le> length x \<Longrightarrow> read_full_loop n [] (ReadOk x # rs) = (take n x, True, rs)"
  by (cases rs) simp_all

lemma os_random_draw:
  assumes "bs \<noteq> []" "length bs \<le> 65536"
  shows "\<exists>out. host_draw ctr bs (OsSource, os_random (Suc m)) = (0, out, OsSource, os_random m)"
  using assms read_full_one [of "length bs" "replicate 65536 7"]
  by (simp add: host_draw_def os_fill_def readFull_def os_random_def Let_def)

lemma os_random_chunks:
  "length bs \<le> 65536 * m \<Longrightarrow>
   \<exists>out j. draw_chunks (host_draw ctr) bs (OsSource, os_random (m + d)) = (0, out, OsSource, os_random (j + d))"
proof (induction m arbitrary: bs)
  case 0
  then show ?case by (auto simp: draw_chunks.simps intro: exI [of _ 0])
next
  case (Suc m)
  show ?case
  proof (cases "bs = []")
    case True
    then show ?thesis by (auto simp: draw_chunks.simps intro: exI [of _ "Suc m"])
  next
    case False
    then obtain out where "host_draw ctr (take 65536 bs) (OsSource, os_random (Suc (m + d))) = (0, out, OsSource, os_random (m + d))"
      using os_random_draw [of "take 65536 bs" ctr "m + d"] by auto
    moreover obtain out' j where "draw_chunks (host_draw ctr) (drop 65536 bs) (OsSource, os_random (m + d)) =
        (0, out', OsSource, os_random (j + d))" using Suc.IH [of "drop 65536 bs"] Suc.prems by (force simp: le_diff_conv)
    ultimately show ?thesis using False by (auto simp: draw_chunks.simps [of _ bs])
  qed
qed

lemma os_start: "package_ok os_config (init_package e)" "stream_inv (stream_of (init_package e)) 0"
  by (rule init_package_ok(1) [OF os_config_ok], simp add: init_package_ok(2) stream_inv_unused)

lemma planned_steps:
  assumes "stream_inv S N" "valid_call k seed" "v7_code k S v0 code seed = 0"
  defines "b \<equiv> v7_first k S v0 seed"
  shows "if out_of_stream S v0 then v7_after k S v0 seed = S \<and> word_millis b = v0 \<and> word_millis (b + k - 1) = v0
     else v7_after k S v0 seed = b + k - 1 \<and>
       (if S = 0 \<or> word_millis S < v0 then word_millis b = v0 \<and> word_millis (b + k - 1) = v0 else b = S + 1)"
  using fresh_millis [OF assms(2) refl, of v0] v7_code_exact(1) [OF assms(1), of k v0 code seed] assms(3)
  unfolding b_def v7_first_def v7_after_def v7_plan_exact [OF assms(1)] by auto


text \<open>
  C5. Batches. After any history \<open>NewV7BatchAt\<close> for 1 to \<open>MaxV7Batch\<close> values returns. It succeeds
  exactly when the timestamp is within the cap, the draw succeeds and the stream has room for
  \<open>k = \<lceil>n / 64\<rceil>\<close> steps; a failure leaves the stream alone. On success it gives \<open>n\<close> 16-byte values in
  strictly increasing order: value \<open>i\<close> is that of step \<open>b + i div 64\<close> with the low counter bits
  \<open>i mod 64\<close>. For a timestamp more than 11 s behind the stream or past its end the stream stays
  and the steps are of the timestamp's own millisecond; in every other case the stream moves to
  the last step \<open>b + k - 1\<close>, and \<open>b\<close> is the step after the newest one, or one within the
  timestamp's millisecond where that is later than the stream's or the stream is unused.
\<close>

theorem batch_increasing:
  assumes "host_ok (c_maxint cfg)" "\<forall>r\<in>set rs. request_ok r" "run cfg rs (init_package e) = Some (evs, p)"
    "0 < count" "count \<le> int MaxV7Batch"
  shows "let n = nat count; k = (n + 63) div 64; S = stream_of p; v0 = unat ms in
    \<exists>r q. NewV7BatchAt cfg count ms p = Some (r, q) \<and> package_ok cfg q \<and>
      ((\<exists>us. r = Inr us) \<longleftrightarrow> v0 \<le> 253402300799999 \<and> fst (drawn_batch cfg n p) = 0 \<and> \<not> stream_full k S v0) \<and>
      (case r of
        Inl err \<Rightarrow> stream_of q = S
      | Inr us \<Rightarrow> length us = n \<and> (\<forall>u\<in>set us. length u = 16) \<and> increasing us \<and>
          (\<exists>b tail. us = map (\<lambda>i. v7_uuid (b + i div 64) (i mod 64) (tail i)) [0..<n] \<and>
            (if out_of_stream S v0 then stream_of q = S \<and> word_millis b = v0 \<and> word_millis (b + k - 1) = v0
             else stream_of q = b + k - 1 \<and>
               (if S = 0 \<or> word_millis S < v0 then word_millis b = v0 \<and> word_millis (b + k - 1) = v0 else b = S + 1))))"
proof -
  define n where "n = nat count"
  define k where "k = batch_steps n"
  define S where "S = stream_of p"
  note p = after_run [OF assms(1-3)]
  have n: "0 < n" "n \<le> MaxV7Batch" "count = int n" using assms(4,5) by (simp_all add: n_def)
  obtain code r s where d: "drawn_batch cfg n p = (code, r, s)" by (metis prod_cases3)
  define seed where "seed = batch_seed n r"
  define rc where "rc = v7_code k S (unat ms) code seed"
  define us where "us = batch_uuids (v7_first k S (unat ms) seed) n (batch_tail r)"
  obtain q where q: "package_ok cfg q" "stream_of q = (if rc = 0 then v7_after k S (unat ms) seed else S)"
    "length us = n" "\<forall>u\<in>set us. length u = 16" "rc = 0 \<longrightarrow> increasing us"
    "NewV7BatchAt cfg count ms p = Some (if rc = 0 then Inr us else Inl (Failed ''uuid_new_v7_batch'' rc (v7_error rc)), q)"
    using batch_exact [OF p n(1,2) d, of ms] unfolding us_def rc_def seed_def k_def S_def n(3) by blast
  have valid: "valid_call k seed" using batch_valid [of n r] n by (simp add: k_def seed_def MaxV7Batch_def)
  note inv = p(2) [folded S_def]
  have ok: "rc = 0 \<longleftrightarrow> unat ms \<le> 253402300799999 \<and> fst (drawn_batch cfg n p) = 0 \<and> \<not> stream_full k S (unat ms)"
    using v7_code_exact(1) [OF inv, of k "unat ms" code seed] d by (simp add: rc_def)
  have k: "(n + 63) div 64 = k" by (simp add: k_def batch_steps_def)
  show ?thesis
    unfolding Let_def S_def [symmetric] n_def [symmetric] k
  proof (rule exI, rule exI, intro conjI, rule q(6), rule q(1))
    show "(\<exists>vs. (if rc = 0 then Inr us else Inl (Failed ''uuid_new_v7_batch'' rc (v7_error rc))) = Inr vs) \<longleftrightarrow>
        unat ms \<le> 253402300799999 \<and> fst (drawn_batch cfg n p) = 0 \<and> \<not> stream_full k S (unat ms)"
      unfolding ok [symmetric] by simp
  next
    show "case if rc = 0 then Inr us else Inl (Failed ''uuid_new_v7_batch'' rc (v7_error rc)) of
        Inl err \<Rightarrow> stream_of q = S
      | Inr us \<Rightarrow> length us = n \<and> (\<forall>u\<in>set us. length u = 16) \<and> increasing us \<and>
          (\<exists>b tail. us = map (\<lambda>i. v7_uuid (b + i div 64) (i mod 64) (tail i)) [0..<n] \<and>
            (if out_of_stream S (unat ms) then stream_of q = S \<and> word_millis b = unat ms \<and> word_millis (b + k - 1) = unat ms
             else stream_of q = b + k - 1 \<and> (if S = 0 \<or> word_millis S < unat ms
               then word_millis b = unat ms \<and> word_millis (b + k - 1) = unat ms else b = S + 1)))"
    proof (cases "rc = 0")
      case True
      note steps = planned_steps [OF inv valid True [unfolded rc_def]]
      have "us = map (\<lambda>i. v7_uuid (v7_first k S (unat ms) seed + i div 64) (i mod 64) (batch_tail r i)) [0..<n]"
        by (simp add: us_def batch_uuids_def)
      with steps show ?thesis using True q(2-5) by (simp only: if_True sum.case simp_thms) blast
    qed (use q(2) in simp)
  qed
qed

theorem batch_increasing_witness:
  "\<exists>us q b. NewV7BatchAt os_config 130 1000 (init_package (os_random 1)) = Some (Inr us, q) \<and> length us = 130 \<and>
    increasing us \<and> word_millis b = 1000 \<and> stream_of q = b + 2"
proof -
  obtain out j where "drawn_batch os_config 130 (init_package (os_random 1)) = (0, out, OsSource, os_random j)"
    using os_random_chunks [of "replicate 784 0" 1 "c_ctr os_config" 0] by (auto simp: drawn_batch_def os_config_source)
  moreover have "\<not> stream_full k 0 v0" "\<not> out_of_stream 0 1000" for k v0
    by (simp_all add: stream_full_def out_of_stream_def)
  ultimately show ?thesis
    using batch_increasing [of os_config "[]" "os_random 1" "[]" "init_package (os_random 1)" 130 1000]
    by (fastforce simp: init_package_ok MaxV7Batch_def Let_def)
qed

section \<open>Exhaustion\<close>

text \<open>
  The steps of the stream a request asks for, none where its arguments are refused, and the code
  of its draw.
\<close>

fun steps_of :: "v7_request \<Rightarrow> nat" where
  "steps_of (One ms) = 1"
| "steps_of (AtTime t) = (if 0 \<le> t \<and> t < 253402300800000 * 1000000 then 1 else 0)"
| "steps_of (Batch n ms) = (if 0 < n \<and> n \<le> int MaxV7Batch then batch_steps (nat n) else 0)"
| "steps_of (FillU dst ms) = (if length dst \<le> MaxV7Batch then batch_steps (length dst) else 0)"
| "steps_of (FillB bs ms) = (if length bs mod 16 = 0 \<and> length bs div 16 \<le> MaxV7Batch then batch_steps (length bs div 16) else 0)"
| "steps_of (Aside sc) = 0"

fun draw_code :: "config \<Rightarrow> v7_request \<Rightarrow> package \<Rightarrow> i32" where
  "draw_code cfg (Batch n ms) p = fst (drawn_batch cfg (nat n) p)"
| "draw_code cfg (FillU dst ms) p = fst (drawn_batch cfg (length dst) p)"
| "draw_code cfg (FillB bs ms) p = fst (drawn_batch cfg (length bs div 16) p)"
| "draw_code cfg _ p = fst (drawn_value cfg p)"

definition out_of_steps :: "uuid list go \<Rightarrow> bool" where
  "out_of_steps res \<longleftrightarrow> (\<exists>err. res = Inl err \<and> sentinel_of err = Some ErrCounterExhausted)"

lemma out_of_steps_simps [simp]:
  "\<not> out_of_steps (Inr us)" "out_of_steps (Inl err) \<longleftrightarrow> sentinel_of err = Some ErrCounterExhausted"
  by (auto simp: out_of_steps_def)

lemma code_out_of_steps:
  assumes "rc = v7_code k S v0 code seed" "stream_inv S N" "res = (if rc = 0 then Inr us else Inl (Failed fn rc (v7_error rc)))"
  shows "out_of_steps res \<longleftrightarrow> code = 0 \<and> stream_full k S v0"
  using v7_code_exact(2) [OF assms(2), of k v0 code seed] assms(1,3) by (auto simp: v7_error_def)

lemma single_exhausted:
  assumes "package_ok cfg p" "stream_inv (stream_of p) N"
    "mint cfg r p = do { (r, p) \<leftarrow> NewV7At cfg ms p; Some (map_sum (\<lambda>e. e) (\<lambda>u. [u]) r, p) }"
  shows "\<exists>res q. mint cfg r p = Some (res, q) \<and>
    (out_of_steps res \<longleftrightarrow> fst (drawn_value cfg p) = 0 \<and> stream_full 1 (stream_of p) (unat ms)) \<and>
    (out_of_steps res \<longrightarrow> stream_of q = stream_of p)"
proof -
  obtain code bs s where d: "drawn_value cfg p = (code, bs, s)" by (metis prod_cases3)
  define rc where "rc = v7_code 1 (stream_of p) (unat ms) code (v7_seed bs)"
  obtain out q where q: "NewV7At cfg ms p = Some (if rc = 0 then Inr out else Inl (Failed ''uuid_new_v7'' rc (v7_error rc)), q)"
    "rc \<noteq> 0 \<longrightarrow> stream_of q = stream_of p"
    using NewV7At_exact [OF assms(1,2) d, of ms] unfolding rc_def by auto
  define res where "res = (if rc = 0 then Inr [out] else Inl (Failed ''uuid_new_v7'' rc (v7_error rc)) :: uuid list go)"
  have "mint cfg r p = Some (res, q)" using assms(3) q(1) by (simp add: res_def)
  moreover have "out_of_steps res \<longrightarrow> rc \<noteq> 0" by (simp add: res_def)
  ultimately show ?thesis using q(2) code_out_of_steps [OF rc_def assms(2) res_def] d by auto
qed

lemma batch_exhausted:
  assumes "package_ok cfg p" "stream_inv (stream_of p) N" "0 < n" "n \<le> MaxV7Batch"
  obtains us rc q where
    "NewV7BatchAt cfg (int n) ms p = Some (if rc = 0 then Inr us else Inl (Failed ''uuid_new_v7_batch'' rc (v7_error rc)), q)"
    "\<And>dst. length dst = n \<Longrightarrow> \<forall>u\<in>set dst. length u = 16 \<Longrightarrow> FillV7At cfg dst ms p =
       Some (if rc = 0 then (None, us) else (Some (Failed ''uuid_new_v7_batch'' rc (v7_error rc)), dst), q)"
    "\<And>bs. length bs = 16 * n \<Longrightarrow> FillV7BytesAt cfg bs ms p =
       Some (if rc = 0 then (None, concat us) else (Some (Failed ''uuid_new_v7_batch'' rc (v7_error rc)), bs), q)"
    "rc \<noteq> 0 \<and> v7_error rc = ErrCounterExhausted \<longleftrightarrow>
       fst (drawn_batch cfg n p) = 0 \<and> stream_full (batch_steps n) (stream_of p) (unat ms)"
    "rc \<noteq> 0 \<Longrightarrow> stream_of q = stream_of p"
proof -
  obtain code r s where d: "drawn_batch cfg n p = (code, r, s)" by (metis prod_cases3)
  define rc where "rc = v7_code (batch_steps n) (stream_of p) (unat ms) code (batch_seed n r)"
  have "rc \<noteq> 0 \<and> v7_error rc = ErrCounterExhausted \<longleftrightarrow> rc = 6" by (auto simp: v7_error_def)
  also have "\<dots> \<longleftrightarrow> fst (drawn_batch cfg n p) = 0 \<and> stream_full (batch_steps n) (stream_of p) (unat ms)"
    using v7_code_exact(2) [OF assms(2)] d by (simp add: rc_def)
  finally show thesis
    using batch_exact [OF assms d, of ms] that unfolding rc_def [symmetric] by (metis (no_types, lifting))
qed

lemma batch_steps_pos: "0 < n \<Longrightarrow> n \<le> MaxV7Batch \<Longrightarrow> 0 < batch_steps n"
  by (simp add: batch_steps_bounds(1) MaxV7Batch_def)

lemma mint_exhausted:
  assumes "package_ok cfg p" "stream_inv (stream_of p) N" "request_ok r"
  shows "\<exists>res q. mint cfg r p = Some (res, q) \<and>
    (out_of_steps res \<longleftrightarrow> 0 < steps_of r \<and> draw_code cfg r p = 0 \<and> stream_full (steps_of r) (stream_of p) (request_millis r)) \<and>
    (out_of_steps res \<longrightarrow> stream_of q = stream_of p)"
proof (cases r)
  case (One ms)
  then show ?thesis using single_exhausted [OF assms(1,2), of r ms] by simp
next
  case (AtTime t)
  show ?thesis
  proof (cases "0 \<le> t \<and> t < 253402300800000 * 1000000")
    case True
    then have "unat (of_int (t div 1000000) :: i64) = nat (t div 1000000)"
      using unix_milli_word by blast
    moreover have "\<not> t < v7Epoch" "t < v7PastCap" using True by (simp_all add: v7Epoch_def v7PastCap_def unixMilli_def)
    ultimately show ?thesis using AtTime True single_exhausted [OF assms(1,2), of r "of_int (t div 1000000)"]
      by (simp add: NewV7AtTime_def)
  qed (auto simp: AtTime NewV7AtTime_def v7Epoch_def v7PastCap_def unixMilli_def)
next
  case (Batch c ms)
  show ?thesis
  proof (cases "0 < c \<and> c \<le> int MaxV7Batch")
    case True
    then have n: "0 < nat c" "nat c \<le> MaxV7Batch" "int (nat c) = c" by (simp_all add: nat_le_iff)
    show ?thesis
    proof (rule batch_exhausted [OF assms(1,2) n(1,2), of ms, unfolded n(3)])
      fix us q and rc :: i32
      assume "NewV7BatchAt cfg c ms p = Some (if rc = 0 then Inr us else Inl (Failed ''uuid_new_v7_batch'' rc (v7_error rc)), q)"
        "rc \<noteq> 0 \<and> v7_error rc = ErrCounterExhausted \<longleftrightarrow> fst (drawn_batch cfg (nat c) p) = 0 \<and>
           stream_full (batch_steps (nat c)) (stream_of p) (unat ms)" "rc \<noteq> 0 \<Longrightarrow> stream_of q = stream_of p"
      then show ?thesis using Batch True batch_steps_pos [OF n(1,2)] by (cases "rc = 0") simp_all
    qed
  qed (auto simp: Batch NewV7BatchAt_def errV7BatchTooLarge_def)
next
  case (FillU dst ms)
  show ?thesis
  proof (cases "0 < length dst \<and> length dst \<le> MaxV7Batch")
    case True
    then have n: "0 < length dst" "length dst \<le> MaxV7Batch" by blast+
    show ?thesis
    proof (rule batch_exhausted [OF assms(1,2) n, of ms])
      fix us q and rc :: i32
      assume "\<And>dst'. length dst' = length dst \<Longrightarrow> \<forall>u\<in>set dst'. length u = 16 \<Longrightarrow> FillV7At cfg dst' ms p =
          Some (if rc = 0 then (None, us) else (Some (Failed ''uuid_new_v7_batch'' rc (v7_error rc)), dst'), q)"
        "rc \<noteq> 0 \<and> v7_error rc = ErrCounterExhausted \<longleftrightarrow> fst (drawn_batch cfg (length dst) p) = 0 \<and>
           stream_full (batch_steps (length dst)) (stream_of p) (unat ms)" "rc \<noteq> 0 \<Longrightarrow> stream_of q = stream_of p"
      then show ?thesis using FillU n(2) batch_steps_pos [OF n] assms(3) by (cases "rc = 0") (simp_all add: filled_def)
    qed
  qed (auto simp: FillU FillV7At_def fillUUIDs_def filled_def errV7BatchTooLarge_def batch_steps_def)
next
  case (FillB bs ms)
  show ?thesis
  proof (cases "length bs mod 16 = 0 \<and> 0 < length bs div 16 \<and> length bs div 16 \<le> MaxV7Batch")
    case True
    then have n: "0 < length bs div 16" "length bs div 16 \<le> MaxV7Batch" "length bs = 16 * (length bs div 16)" by auto
    show ?thesis
    proof (rule batch_exhausted [OF assms(1,2) n(1,2), of ms])
      fix us q and rc :: i32
      assume "\<And>bs'. length bs' = 16 * (length bs div 16) \<Longrightarrow> FillV7BytesAt cfg bs' ms p =
          Some (if rc = 0 then (None, concat us) else (Some (Failed ''uuid_new_v7_batch'' rc (v7_error rc)), bs'), q)"
        "rc \<noteq> 0 \<and> v7_error rc = ErrCounterExhausted \<longleftrightarrow> fst (drawn_batch cfg (length bs div 16) p) = 0 \<and>
           stream_full (batch_steps (length bs div 16)) (stream_of p) (unat ms)" "rc \<noteq> 0 \<Longrightarrow> stream_of q = stream_of p"
      then show ?thesis using FillB True batch_steps_pos [OF n(1,2)] n(3) by (cases "rc = 0") (simp_all add: filled_def)
    qed
  qed (auto simp: FillB FillV7BytesAt_def fillBytes_def filled_def errV7BatchTooLarge_def batch_steps_def)
next
  case (Aside sc)
  obtain out rc q where "p_newV4 cfg sc p = Some ((out, rc), q)" using newV4_returns [OF assms(1)] by blast
  then show ?thesis using Aside by (simp add: NewV4_def)
qed

text \<open>
  C7. Exhaustion. After any history a request of any form returns \<open>ErrCounterExhausted\<close> exactly
  when its arguments are accepted, its draw succeeds, and the stream has no room for its steps:
  the stream's millisecond is the caller's or one up to 11 s later, the steps do not fit it, and
  the next millisecond would be more than 1000 ms ahead of the caller or past the last one of the
  stream. The stream then stays where it was.
\<close>

theorem exhausted_exactly_when_full:
  assumes "host_ok (c_maxint cfg)" "\<forall>r\<in>set rs. request_ok r" "run cfg rs (init_package e) = Some (evs, p)" "request_ok r"
  shows "let k = steps_of r; S = stream_of p; v0 = request_millis r in
    \<exists>res q. mint cfg r p = Some (res, q) \<and>
      (out_of_steps res \<longleftrightarrow> 0 < k \<and> draw_code cfg r p = 0 \<and>
         S \<noteq> 0 \<and> v0 \<le> word_millis S \<and> word_millis S \<le> v0 + 11000 \<and> 2 ^ 20 \<le> k + S mod 2 ^ 20 \<and>
         v0 \<le> 2 ^ 44 - 2 \<and> (word_millis S = 2 ^ 44 - 2 \<or> v0 + 1000 < word_millis S + 1)) \<and>
      (out_of_steps res \<longrightarrow> stream_of q = S)"
  using mint_exhausted [OF after_run [OF assms(1-3)] assms(4)] unfolding stream_full_def Let_def .

text \<open>
  A batch of \<open>MaxV7Batch\<close> at 5000 ms takes all steps of its millisecond; a value for 3999 ms is then refused.
\<close>

theorem exhausted_exactly_when_full_witness:
  "\<exists>evs p err q. run os_config [Batch (int MaxV7Batch) 5000] (init_package (os_random 6146)) = Some (evs, p) \<and>
    mint os_config (One 3999) p = Some (Inl err, q) \<and> sentinel_of err = Some ErrCounterExhausted \<and> stream_of q = stream_of p"
proof -
  let ?p = "init_package (os_random 6146)"
  have bytes: "length (replicate (6 * MaxV7Batch + 4) (0 :: u8)) \<le> 65536 * 6145" by (simp add: MaxV7Batch_def)
  obtain out j where d: "drawn_batch os_config MaxV7Batch ?p = (0, out, OsSource, os_random (j + 1))"
    using os_random_chunks [OF bytes, of "c_ctr os_config" 1] by (auto simp: drawn_batch_def os_config_source)
  have k: "batch_steps MaxV7Batch = 2 ^ 20" by (simp add: batch_steps_def MaxV7Batch_def)
  have seed: "batch_seed MaxV7Batch out = 0" using unat_i32_less by (simp add: batch_seed_def k)
  have m: "0 < MaxV7Batch" by (simp add: MaxV7Batch_def)
  define S where "S = 5001 * 2 ^ 20 + 2 ^ 20 - (1 :: nat)"
  have S: "S div 2 ^ 20 = 5001" "S mod 2 ^ 20 = 2 ^ 20 - 1" by (simp_all add: S_def)
  have code: "v7_code (2 ^ 20) 0 (unat (5000 :: i64)) 0 0 = 0" "v7_after (2 ^ 20) 0 (unat (5000 :: i64)) 0 = S"
    by (simp_all add: v7_code_def v7_after_def v7_plan_def S_def)
  obtain q us where q: "NewV7BatchAt os_config (int MaxV7Batch) 5000 ?p = Some (Inr us, q)" "stream_of q = S"
    "source_of os_config q = (OsSource, os_random (j + 1))"
    using batch_exact [OF os_start m order_refl d, of 5000, unfolded k seed init_package_ok(2)] code by auto
  have run: "run os_config [Batch (int MaxV7Batch) 5000] ?p = Some ([\<lparr>request = Batch (int MaxV7Batch) 5000, outcome = Inr us,
      reserved = (stream_of q \<noteq> stream_of ?p)\<rparr>], q)"
    using q(1) by simp
  have "fst (drawn_value os_config q) = 0"
    using os_random_draw [of "replicate 11 0" "c_ctr os_config" j] by (auto simp: drawn_value_def q(3))
  moreover have "word_millis S = 5000" using S by (simp add: word_millis_def)
  ultimately obtain res q' where "mint os_config (One 3999) q = Some (res, q')" "out_of_steps res" "stream_of q' = S"
    using exhausted_exactly_when_full [OF os_config_ok _ run, of "One 3999"] S(2) by (auto simp: Let_def q(2) S_def)
  with run q(2) show ?thesis by (auto simp: out_of_steps_def)
qed

section \<open>Fills and limits\<close>

text \<open>
  C21. Fills are all or nothing. After any history \<open>FillV7At\<close> and \<open>FillV7BytesAt\<close> into a buffer of any
  number of values, whatever it holds, do what \<open>NewV7BatchAt\<close> does for that number: they leave the
  same state; where it fails, also on a number too large, they return its error and the buffer as
  it was, byte for byte, although the core drew random bytes into its scratch; where it succeeds,
  they return its values in place of everything the buffer held. A byte buffer that is not whole
  UUIDs is refused untouched.
\<close>

theorem fill_all_or_nothing:
  assumes "host_ok (c_maxint cfg)" "\<forall>r\<in>set rs. request_ok r" "run cfg rs (init_package e) = Some (evs, p)"
    "\<forall>u\<in>set dst. length u = 16" "length bs = 16 * length dst"
  shows "\<exists>r q. NewV7BatchAt cfg (int (length dst)) ms p = Some (r, q) \<and> package_ok cfg q \<and>
    FillV7At cfg dst ms p = Some (case r of Inl err \<Rightarrow> (Some err, dst) | Inr us \<Rightarrow> (None, us), q) \<and>
    FillV7BytesAt cfg bs ms p = Some (case r of Inl err \<Rightarrow> (Some err, bs) | Inr us \<Rightarrow> (None, concat us), q) \<and>
    (\<forall>us. r = Inr us \<longrightarrow> length us = length dst \<and> (\<forall>u\<in>set us. length u = 16 \<and> is_rfc_v7 u) \<and> increasing us) \<and>
    (\<forall>other. length other mod 16 \<noteq> 0 \<longrightarrow>
       FillV7BytesAt cfg other ms p = Some ((Some (Got ErrBufferNotWholeUUIDs (int (length other))), other), p))"
proof -
  note p = after_run [OF assms(1-3)]
  have other: "\<forall>other. length other mod 16 \<noteq> 0 \<longrightarrow>
      FillV7BytesAt cfg other ms p = Some ((Some (Got ErrBufferNotWholeUUIDs (int (length other))), other), p)"
    by (simp add: FillV7BytesAt_def fillBytes_def)
  consider "dst = []" | "MaxV7Batch < length dst" | "0 < length dst" "length dst \<le> MaxV7Batch" by fastforce
  then show ?thesis
  proof cases
    case 1
    then have "NewV7BatchAt cfg (int (length dst)) ms p = Some (Inr [], p)" "FillV7At cfg dst ms p = Some ((None, []), p)"
      "FillV7BytesAt cfg bs ms p = Some ((None, []), p)"
      using assms(5) by (simp_all add: NewV7BatchAt_def FillV7At_def FillV7BytesAt_def fillUUIDs_def fillBytes_def)
    then show ?thesis using p(1) other by (intro exI [of _ "Inr []"] exI [of _ p]) (simp add: 1 increasing_def)
  next
    case 2
    then have "NewV7BatchAt cfg (int (length dst)) ms p = Some (Inl (errV7BatchTooLarge (length dst)), p)"
      "FillV7At cfg dst ms p = Some ((Some (errV7BatchTooLarge (length dst)), dst), p)"
      "FillV7BytesAt cfg bs ms p = Some ((Some (errV7BatchTooLarge (length dst)), bs), p)"
      using assms(5) by (simp_all add: NewV7BatchAt_def FillV7At_def FillV7BytesAt_def)
    then show ?thesis using p(1) other by (intro exI [of _ "Inl (errV7BatchTooLarge (length dst))"] exI [of _ p]) simp
  next
    case 3
    obtain code r s where d: "drawn_batch cfg (length dst) p = (code, r, s)" by (metis prod_cases3)
    from batch_exact [OF p 3 d, of ms] obtain rc :: i32 and us err q where "package_ok cfg q" "length us = length dst"
      "\<forall>u\<in>set us. length u = 16" "rc = 0 \<longrightarrow> increasing us \<and> (\<forall>u\<in>set us. is_rfc_v7 u)"
      "NewV7BatchAt cfg (int (length dst)) ms p = Some (if rc = 0 then Inr us else Inl err, q)"
      "FillV7At cfg dst ms p = Some (if rc = 0 then (None, us) else (Some err, dst), q)"
      "FillV7BytesAt cfg bs ms p = Some (if rc = 0 then (None, concat us) else (Some err, bs), q)"
      using assms(4,5) by blast
    then show ?thesis using other
      by (intro exI [of _ "if rc = 0 then Inr us else Inl err"] exI [of _ q]) auto
  qed
qed

theorem fill_all_or_nothing_witness:
  "\<exists>us q. NewV7BatchAt os_config 2 5 (init_package (os_random 1)) = Some (Inr us, q) \<and>
    FillV7At os_config [replicate 16 9, replicate 16 8] 5 (init_package (os_random 1)) = Some ((None, us), q) \<and>
    FillV7BytesAt os_config (replicate 32 9) 5 (init_package (os_random 1)) = Some ((None, concat us), q) \<and>
    length us = 2 \<and> increasing us"
proof -
  let ?p = "init_package (os_random 1)"
  obtain out j where "drawn_batch os_config 2 ?p = (0, out, OsSource, os_random j)"
    using os_random_chunks [of "replicate 16 0" 1 "c_ctr os_config" 0] by (auto simp: drawn_batch_def os_config_source)
  from batch_exact [OF os_start _ _ this, of 5] obtain vs q where "NewV7BatchAt os_config 2 5 ?p = Some (Inr vs, q)"
    using v7_code_exact(1) [OF os_start(2), of "batch_steps 2" "os_random 1" 5 0] by (auto simp: init_package_ok(2) stream_full_def MaxV7Batch_def)
  then show ?thesis
    using fill_all_or_nothing [of os_config "[]" "os_random 1" "[]" ?p "[replicate 16 9, replicate 16 8]" "replicate 32 9" 5]
    by auto
qed

text \<open>
  Batch arguments are checked before anything is allocated, drawn or written: a negative
  count, a batch past \<open>MaxV7Batch\<close> and a byte buffer that is not whole UUIDs are refused with
  their sentinels and a count of 0 mints nothing, each leaving package and buffer untouched.
\<close>

theorem batch_arguments_checked:
  "(count < 0 \<longrightarrow> NewV7BatchAt cfg count ms p = Some (Inl (Got ErrNegativeCount count), p)) \<and>
   (int MaxV7Batch < count \<longrightarrow> NewV7BatchAt cfg count ms p = Some (Inl (Got ErrBatchTooLarge count), p)) \<and>
   NewV7BatchAt cfg 0 ms p = Some (Inr [], p) \<and>
   (MaxV7Batch < length dst \<longrightarrow>
      FillV7At cfg dst ms p = Some ((Some (Got ErrBatchTooLarge (int (length dst))), dst), p)) \<and>
   (length bs mod 16 \<noteq> 0 \<longrightarrow>
      FillV7BytesAt cfg bs ms p = Some ((Some (Got ErrBufferNotWholeUUIDs (int (length bs))), bs), p)) \<and>
   FillV7At cfg [] ms p = Some ((None, []), p) \<and> FillV7BytesAt cfg [] ms p = Some ((None, []), p)"
  by (simp add: NewV7BatchAt_def FillV7At_def FillV7BytesAt_def fillUUIDs_def fillBytes_def errV7BatchTooLarge_def MaxV7Batch_def)

theorem batch_arguments_checked_witness:
  "NewV7BatchAt sample_config (- 3) 5 (init_package sample_env) = Some (Inl (Got ErrNegativeCount (- 3)), init_package sample_env)"
  using batch_arguments_checked [of "- 3" sample_config 5 "init_package sample_env" "[]" "[]"] by simp

text \<open>
  C22. The generation cap. After any history a timestamp past 253402300799999 ms is refused with
  \<open>ErrTimestampOutOfRange\<close>, code 2, and leaves the stream alone; \<open>NewV7AtTime\<close> refuses every time
  before 1970 or from the year 10000 on before the package is touched, whatever its wrapped
  milliseconds are.
\<close>

theorem timestamp_cap:
  assumes "host_ok (c_maxint cfg)" "\<forall>r\<in>set rs. request_ok r" "run cfg rs (init_package e) = Some (evs, p)"
    "253402300799999 < unat ms" "t < 0 \<or> 253402300800000 * 1000000 \<le> t"
  shows "(\<exists>q. NewV7At cfg ms p = Some (Inl (Failed ''uuid_new_v7'' 2 ErrTimestampOutOfRange), q) \<and>
      stream_of q = stream_of p) \<and>
    NewV7AtTime cfg t p = Some (Inl (GotTime t), p)"
proof -
  obtain out rc q where q: "NewV7At cfg ms p =
      Some (if rc = 0 then Inr out else Inl (Failed ''uuid_new_v7'' rc (v7_error rc)), q)"
    "v7_call 1 (stream_of p) (unat ms) rc (if rc = 0 then [out] else []) (stream_of q)"
    using NewV7At_returns [OF after_run [OF assms(1-3)], of ms] by blast
  have "rc = 2 \<and> stream_of q = stream_of p"
    using q(2) assms(4) by (auto elim!: v7_call_cases)
  moreover have "v7Epoch = 0" "v7PastCap = 253402300800000 * 1000000"
    by (simp_all add: v7Epoch_def v7PastCap_def unixMilli_def)
  ultimately show ?thesis using q(1) assms(5) by (auto simp: v7_error_def NewV7AtTime_def)
qed

theorem timestamp_cap_witness:
  "(253402300800000 :: nat) < 2 ^ 48 \<and>
   (\<exists>q. NewV7At sample_config 253402300800000 (init_package sample_env) =
      Some (Inl (Failed ''uuid_new_v7'' 2 ErrTimestampOutOfRange), q))"
  using timestamp_cap [of sample_config "[]" sample_env "[]" "init_package sample_env" 253402300800000 "- 1"] by auto

end
