(* ===== verification/Host_Stateless.thy ===== *)
theory Host_Stateless
  imports Host_Api
begin

text \<open>
  The stateless functions of the package (\<open>src/go/uuidgen.go\<close>, \<open>src/go/inspect.go\<close>): whatever
  instance a call runs on, it returns, answers from its argument alone, and leaves the package's
  invariant and stream as they were.
\<close>

section \<open>What a call answers\<close>

lemma answers_bind:
  assumes "answers cfg p m r" "\<And>q. package_ok cfg q \<Longrightarrow> answers cfg q (f r q) r'"
  shows "answers cfg p (m \<bind> (\<lambda>(r, q). f r q)) r'"
proof -
  obtain q where q: "m = Some (r, q)" "package_ok cfg q" "stream_of q = stream_of p" "env q = env p"
    using assms(1) by (auto simp: answers_def)
  with assms(2) [OF q(2)] show ?thesis by (auto simp: answers_def)
qed

lemma answers_return: "package_ok cfg p \<Longrightarrow> answers cfg p (Some (r, p)) r"
  by (simp add: answers_def)

lemma answers_map:
  "answers cfg p m r \<Longrightarrow> answers cfg p (m \<bind> (\<lambda>(r, q). Some (f r, q))) (f r)"
  by (auto simp: answers_def)

lemma layoutCode_simps:
  "layoutCode 1 = Inr 1" "layoutCode 2 = Inr 2" "l \<noteq> 1 \<Longrightarrow> l \<noteq> 2 \<Longrightarrow> layoutCode l = Inl (GotLayout l)"
  by (simp_all add: layoutCode_def LayoutRfc9562_def LayoutSqlServer_def)

lemma guarded_simps [simp]: "guarded (Inr x) f = f x" "guarded (Inl e) f = (\<lambda>p. Some (Inl e, p))"
  by (simp_all add: guarded_def fun_eq_iff)

lemma oneUUID_16 [simp]: "length b = 16 \<Longrightarrow> oneUUID b = Inr b"
  by (simp add: oneUUID_def)

lemma go_int_small: "n < 2147483648 \<Longrightarrow> go_int maxint (of_nat n) = int n"
  using sint_small [of "of_nat n"] unat_of_nat_i32 [of n]
  by (auto simp: go_int_def uint_nat simp del: of_nat_unat)

lemma rfc_version_less: "rfc_version u < 16"
  using unat_u8_less [of "u ! 6"] by (simp add: rfc_version_def less_mult_imp_div_less)

text \<open>The version a layout shows, and whether a value is an RFC 9562 one of a given version.\<close>

definition version_in :: "u8 list \<Rightarrow> i32 \<Rightarrow> nat" where
  "version_in u layout = (if layout = 1 then rfc_version u else if is_sql_v7 u then 7 else 0)"

definition is_rfc_in :: "u8 list \<Rightarrow> int \<Rightarrow> i32 \<Rightarrow> bool" where
  "is_rfc_in u v layout \<longleftrightarrow>
     (if layout = 1 then is_variant_rfc u \<and> v = int (rfc_version u) else v = 7 \<and> is_sql_v7 u)"

definition millis_in :: "u8 list \<Rightarrow> i32 \<Rightarrow> nat" where
  "millis_in u layout = (if layout = 1 then rfc_millis u else sql_millis u)"

lemma p_version_in:
  assumes "package_ok cfg p" "length uid = 16" "layout \<in> {1, 2}"
  shows "answers cfg p (do { (v, p) \<leftarrow> p_version cfg sc uid layout p; Some (f (go_int (c_maxint cfg) v), p) })
    (f (int (version_in uid layout)))"
proof -
  have "answers cfg p (p_version cfg sc uid layout p) (of_nat (version_in uid layout))"
    using read_answers(1) [OF assms(1,2), of sc layout] assms(3) by (auto simp: version_in_def)
  moreover have "version_in uid layout < 2147483648" using rfc_version_less [of uid] by (simp add: version_in_def)
  ultimately show ?thesis
    using answers_map [where f = "\<lambda>v. f (go_int (c_maxint cfg) v)"] by (fastforce simp: go_int_small)
qed

lemma rfcVersion_test: "n < 16 \<Longrightarrow> unat (rfcVersion v) = n \<longleftrightarrow> v = int n" "rfcVersion v = 7 \<longleftrightarrow> v = 7"
proof -
  have in_range: "unat (of_int v :: i32) = nat v" if "0 \<le> v" "v \<le> 15"
    using unat_of_nat_i32 [of "nat v"] that by simp
  show n: "unat (rfcVersion v) = n \<longleftrightarrow> v = int n" if "n < 16" for n
    using in_range that by (auto simp: rfcVersion_def)
  show "rfcVersion v = 7 \<longleftrightarrow> v = 7" using n [of 7] by (auto simp: word_unat_eq_iff)
qed

lemma p_isRfc_in:
  assumes "package_ok cfg p" "length uid = 16" "layout \<in> {1, 2}"
  shows "answers cfg p (p_isRfc cfg sc uid (rfcVersion v) layout p) (is_rfc_in uid v layout)"
  using read_answers(3) [OF assms(1,2), of sc "rfcVersion v" layout] assms(3) rfcVersion_test
    rfc_version_less [of uid] by (auto simp: is_rfc_in_def)

lemma p_millis_in:
  assumes "package_ok cfg p" "length uid = 16" "layout \<in> {1, 2}"
  shows "answers cfg p (p_v7UnixMillisIn cfg sc uid layout p) (of_nat (millis_in uid layout))"
  using read_answers(5) [OF assms(1,2), of sc layout] assms(3) by (auto simp: millis_in_def)

lemma unixMilli_of_nat: "n < 2 ^ 48 \<Longrightarrow> unixMilli (of_nat n) = int n * 1000000"
proof -
  assume n: "n < 2 ^ 48"
  then have "sint (of_nat n :: i64) = int n"
    by (simp add: sint_uint uint_nat unat_of_nat_i64 signed_take_bit_int_eq_self del: of_nat_unat)
  then show ?thesis by (simp add: unixMilli_def)
qed

lemma timestampIn_answers:
  assumes "package_ok cfg p" "length uid = 16"
  shows "answers cfg p (timestampIn cfg sc uid layout p)
    (case timestamp_code uid layout of None \<Rightarrow> Inl (Plain ErrNotTimeBased) | Some t \<Rightarrow> Inr (int t * 1000000))"
proof -
  obtain ms where "answers cfg p (p_getTimestamp cfg sc uid layout p)
      (case timestamp_code uid layout of None \<Rightarrow> (0, ms) | Some t \<Rightarrow> (7, of_nat t))"
    using getTimestamp_answers [OF assms] by blast
  moreover have "t < 2 ^ 48" if "timestamp_code uid layout = Some t" for t
    using that by (auto simp: timestamp_code_def split: if_splits)
  ultimately show ?thesis
    using answers_map [where f = "\<lambda>(v, ms). if v \<noteq> 0 then Inr (unixMilli ms) else Inl (Plain ErrNotTimeBased)"]
    by (cases "timestamp_code uid layout") (fastforce simp: timestampIn_def unixMilli_of_nat case_prod_unfold)+
qed

lemma V7Timestamp_answers:
  assumes "package_ok cfg p" "length uid = 16"
  shows "answers cfg p (V7Timestamp cfg sc uid p) (Inr (int (rfc_millis uid) * 1000000))"
proof -
  have "answers cfg p (V7UnixMillis cfg sc uid p) (Inr (of_nat (rfc_millis uid)))"
    unfolding V7UnixMillis_def by (rule answers_map [OF read_answers(4) [OF assms]])
  note m = answers_map [OF this, where f = "\<lambda>r. case r of Inl e \<Rightarrow> Inl e | Inr ms \<Rightarrow> Inr (unixMilli ms)"]
  have "rfc_millis uid < 2 ^ 48" using be_nat_less [of "take 6 uid"] assms(2) by (simp add: rfc_millis_def)
  then show ?thesis using m by (simp add: V7Timestamp_def unixMilli_of_nat)
qed

section \<open>Inspection\<close>

text \<open>
  C32. Inspection in a named layout. On any instance, for a 16-byte value and one of the two
  layouts, \<open>VersionIn\<close>, \<open>IsRfcIn\<close>, \<open>V7UnixMillisIn\<close> and \<open>V7TimestampIn\<close> and the \<open>Bytes\<close> forms
  return without an error and answer the layout's version, the RFC 9562 test for any Go \<open>int\<close>
  as the version, and the layout's timestamp; the package's stream and its operating system are
  left alone.
\<close>

theorem inspection_in_layout:
  assumes "package_ok cfg p" "length uid = 16" "layout \<in> {1, 2}"
  shows "answers cfg p (VersionIn cfg sc uid layout p) (Inr (int (version_in uid layout))) \<and>
    answers cfg p (VersionBytes cfg sc uid layout p) (Inr (int (version_in uid layout))) \<and>
    answers cfg p (IsRfcIn cfg sc uid v layout p) (Inr (is_rfc_in uid v layout)) \<and>
    answers cfg p (IsRfcBytes cfg sc uid v layout p) (Inr (is_rfc_in uid v layout)) \<and>
    answers cfg p (V7UnixMillisIn cfg sc uid layout p) (Inr (of_nat (millis_in uid layout))) \<and>
    answers cfg p (V7TimestampIn cfg sc uid layout p) (Inr (int (millis_in uid layout) * 1000000))"
proof -
  have code: "layoutCode layout = Inr layout" using assms(3) by (auto simp: layoutCode_simps)
  have small: "millis_in uid layout < 2 ^ 48"
    using be_nat_less [of "take 6 uid"] be_nat_less [of "take 6 (drop 10 uid)"] assms(2)
    by (simp add: millis_in_def rfc_millis_def sql_millis_def)
  note v = p_version_in [OF assms, of sc "Inr"]
  have r: "answers cfg p (do { (r, p) \<leftarrow> p_isRfc cfg sc uid (rfcVersion v) layout p; Some (Inr r, p) })
      (Inr (is_rfc_in uid v layout))" by (rule answers_map [OF p_isRfc_in [OF assms]])
  have m: "answers cfg p (V7UnixMillisIn cfg sc uid layout p) (Inr (of_nat (millis_in uid layout)))"
    unfolding V7UnixMillisIn_def code guarded_simps by (rule answers_map [OF p_millis_in [OF assms]])
  then have "answers cfg p (V7TimestampIn cfg sc uid layout p) (Inr (unixMilli (of_nat (millis_in uid layout))))"
    unfolding V7TimestampIn_def
    using answers_map [OF m, where f = "\<lambda>r. case r of Inl e \<Rightarrow> Inl e | Inr ms \<Rightarrow> Inr (unixMilli ms)"] by simp
  then show ?thesis using v r m small
    by (simp add: VersionIn_def VersionBytes_def IsRfcIn_def IsRfcBytes_def code assms(2) unixMilli_of_nat)
qed

theorem inspection_in_layout_witness:
  "answers sample_config (init_package \<lparr>reads = [], clock = []\<rparr>)
     (IsRfcIn sample_config (Busy None) sample_v7 7 1 (init_package \<lparr>reads = [], clock = []\<rparr>)) (Inr True)"
proof -
  have "is_rfc_in sample_v7 7 1" using sample_v7_ok by (simp add: is_rfc_in_def is_rfc_v7_def)
  then show ?thesis
    using inspection_in_layout [of sample_config "init_package \<lparr>reads = [], clock = []\<rparr>" sample_v7 1 "Busy None" 7]
      init_package_ok(1) [OF sample_config_ok] sample_v7_ok(1) by simp
qed

text \<open>
  An undefined layout, \<open>LayoutUnspecified\<close> included, is refused with \<open>ErrInvalidLayout\<close> by
  every function that takes one, before any instance is acquired: the package is untouched. A
  buffer that is not 16 bytes long is refused with \<open>ErrNotOneUUID\<close> likewise, the layout being
  checked first.
\<close>

theorem invalid_arguments_refused:
  assumes "layout \<noteq> 1" "layout \<noteq> 2" "length b \<noteq> 16" "l \<in> {1, 2}"
  shows "VersionIn cfg sc uid layout p = Some (Inl (GotLayout layout), p) \<and>
    VersionBytes cfg sc b layout p = Some (Inl (GotLayout layout), p) \<and>
    IsRfcIn cfg sc uid v layout p = Some (Inl (GotLayout layout), p) \<and>
    IsRfcBytes cfg sc b v layout p = Some (Inl (GotLayout layout), p) \<and>
    V7UnixMillisIn cfg sc uid layout p = Some (Inl (GotLayout layout), p) \<and>
    V7TimestampIn cfg sc uid layout p = Some (Inl (GotLayout layout), p) \<and>
    GetTimestampIn cfg sc uid layout p = Some (Inl (GotLayout layout), p) \<and>
    VersionBytes cfg sc b l p = Some (Inl (Got ErrNotOneUUID (int (length b))), p) \<and>
    IsRfcBytes cfg sc b v l p = Some (Inl (Got ErrNotOneUUID (int (length b))), p) \<and>
    VariantBytes cfg sc b p = Some (Inl (Got ErrNotOneUUID (int (length b))), p) \<and>
    V7ToSqlOrderBytes cfg sc b p = Some ((Some (Got ErrNotOneUUID (int (length b))), b), p) \<and>
    V7FromSqlOrderBytes cfg sc b p = Some ((Some (Got ErrNotOneUUID (int (length b))), b), p)"
proof -
  have "layoutCode layout = Inl (GotLayout layout)" "layoutCode l = Inr l"
    "oneUUID b = Inl (Got ErrNotOneUUID (int (length b)))"
    using assms by (auto simp: layoutCode_simps oneUUID_def)
  then show ?thesis
    using assms(3) by (simp add: VersionIn_def VersionBytes_def IsRfcIn_def IsRfcBytes_def V7UnixMillisIn_def
        V7TimestampIn_def GetTimestampIn_def VariantBytes_def V7ToSqlOrderBytes_def V7FromSqlOrderBytes_def sqlOrderBytes_def)
qed

theorem invalid_arguments_refused_witness:
  "VersionIn sample_config Free sample_v7 0 (init_package \<lparr>reads = [], clock = []\<rparr>) =
     Some (Inl (GotLayout 0), init_package \<lparr>reads = [], clock = []\<rparr>)"
  using invalid_arguments_refused [of 0 "[]" 1 sample_config Free sample_v7 "init_package \<lparr>reads = [], clock = []\<rparr>" 7]
  by simp

text \<open>
  C33. \<open>GetTimestampIn\<close> checks before it reads: it returns the layout's timestamp for a version 7
  in that layout up to 253402300799999 ms, and \<open>ErrNotTimeBased\<close> for anything else.
\<close>

theorem get_timestamp_checks:
  assumes "package_ok cfg p" "length uid = 16" "layout \<in> {1, 2}"
  shows "answers cfg p (GetTimestampIn cfg sc uid layout p)
    (if is_rfc_in uid 7 layout \<and> millis_in uid layout \<le> 253402300799999
     then Inr (int (millis_in uid layout) * 1000000) else Inl (Plain ErrNotTimeBased))"
proof -
  have "timestamp_code uid layout = (if is_rfc_in uid 7 layout \<and> millis_in uid layout \<le> 253402300799999
      then Some (millis_in uid layout) else None)"
    using assms(3) by (auto simp: timestamp_code_def is_rfc_in_def millis_in_def is_rfc_v7_def)
  moreover have "layoutCode layout = Inr layout" using assms(3) by (auto simp: layoutCode_simps)
  ultimately show ?thesis
    using timestampIn_answers [OF assms(1,2), of sc layout]
    by (cases "is_rfc_in uid 7 layout \<and> millis_in uid layout \<le> 253402300799999") (auto simp: GetTimestampIn_def)
qed

theorem get_timestamp_checks_witness:
  "answers sample_config (init_package \<lparr>reads = [], clock = []\<rparr>)
     (GetTimestampIn sample_config Free sample_v7 1 (init_package \<lparr>reads = [], clock = []\<rparr>)) (Inr 1757620698128000000)"
proof -
  have "is_rfc_in sample_v7 7 1" using sample_v7_ok(2) by (simp add: is_rfc_in_def is_rfc_v7_def)
  moreover have "millis_in sample_v7 1 = 1757620698128"
    by (simp add: millis_in_def rfc_millis_def sample_v7_def be_nat_def)
  ultimately have "is_rfc_in sample_v7 7 1" "millis_in sample_v7 1 = 1757620698128" by blast+
  then show ?thesis
    using get_timestamp_checks [of sample_config "init_package \<lparr>reads = [], clock = []\<rparr>" sample_v7 1 Free]
      init_package_ok(1) [OF sample_config_ok] sample_v7_ok(1) by simp
qed

text \<open>
  C34. Past the cap the checks disagree: for an RFC 9562 version 7 whose timestamp is later than
  253402300799999 ms, \<open>IsRfc\<close> for version 7 answers true and \<open>V7Timestamp\<close> gives the time, but
  \<open>GetTimestamp\<close> returns \<open>ErrNotTimeBased\<close>.
\<close>

theorem get_timestamp_past_cap:
  assumes "package_ok cfg p" "length uid = 16" "is_rfc_v7 uid" "253402300799999 < rfc_millis uid"
  shows "answers cfg p (GetTimestamp cfg sc uid p) (Inl (Plain ErrNotTimeBased)) \<and>
    answers cfg p (IsRfc cfg sc uid 7 p) True \<and>
    answers cfg p (V7Timestamp cfg sc uid p) (Inr (int (rfc_millis uid) * 1000000))"
proof -
  have "timestamp_code uid 1 = None" using assms(4) by (simp add: timestamp_code_def)
  moreover have "is_rfc_in uid 7 1" using assms(3) by (simp add: is_rfc_in_def is_rfc_v7_def)
  ultimately show ?thesis
    using V7Timestamp_answers [OF assms(1,2)] timestampIn_answers [OF assms(1,2), of sc 1] p_isRfc_in [OF assms(1,2), of 1 sc 7]
    by (simp add: GetTimestamp_def LayoutRfc9562_def IsRfc_def)
qed

theorem get_timestamp_past_cap_witness:
  "answers sample_config (init_package \<lparr>reads = [], clock = []\<rparr>)
     (GetTimestamp sample_config Free [255, 255, 255, 255, 255, 255, 0x70, 0, 0x80, 0, 0, 0, 0, 0, 0, 0]
        (init_package \<lparr>reads = [], clock = []\<rparr>)) (Inl (Plain ErrNotTimeBased))"
proof -
  let ?u = "[255, 255, 255, 255, 255, 255, 0x70, 0, 0x80, 0, 0, 0, 0, 0, 0, 0] :: u8 list"
  have "length ?u = 16" "is_rfc_v7 ?u" "253402300799999 < rfc_millis ?u"
    by (simp_all add: is_rfc_v7_def rfc_version_def is_variant_rfc_def rfc_millis_def be_nat_def)
  then show ?thesis
    using get_timestamp_past_cap [of sample_config "init_package \<lparr>reads = [], clock = []\<rparr>" ?u Free]
      init_package_ok(1) [OF sample_config_ok] by blast
qed

section \<open>Conversions\<close>

lemma sqlOrder_answers:
  assumes "answers cfg p (call uid p) (if c then (out, 0) else (uid, 5))"
  shows "answers cfg p (sqlOrder uid call p) (if c then Inr out else Inl (Plain ErrWrongVersion))"
  using answers_map [OF assms, where f = "\<lambda>(out, rc). case errSqlOrder rc of Some err \<Rightarrow> Inl err | None \<Rightarrow> Inr out"]
  by (cases c) (simp_all add: sqlOrder_def errSqlOrder_def case_prod_unfold)

lemma sql_order_answers:
  assumes "package_ok cfg p" "length uid = 16"
  shows "answers cfg p (V7ToSqlOrder cfg sc uid p)
      (if is_rfc_v7 uid then Inr (sql_bytes uid) else Inl (Plain ErrWrongVersion))"
    "answers cfg p (V7FromSqlOrder cfg sc uid p)
      (if is_sql_v7 uid then Inr (rfc_bytes uid) else Inl (Plain ErrWrongVersion))"
  unfolding V7ToSqlOrder_def V7FromSqlOrder_def using convert_answers [OF assms] by (blast intro: sqlOrder_answers)+

lemma sql_order_bytes_answers:
  assumes "package_ok cfg p"
  shows "answers cfg p (V7ToSqlOrderBytes cfg sc b p)
      (if length b \<noteq> 16 then (Some (Got ErrNotOneUUID (int (length b))), b)
       else if is_rfc_v7 b then (None, sql_bytes b) else (Some (Plain ErrWrongVersion), b))"
    "answers cfg p (V7FromSqlOrderBytes cfg sc b p)
      (if length b \<noteq> 16 then (Some (Got ErrNotOneUUID (int (length b))), b)
       else if is_sql_v7 b then (None, rfc_bytes b) else (Some (Plain ErrWrongVersion), b))"
  using convert_bytes_answers [OF assms, of b sc] assms
  by (auto simp: V7ToSqlOrderBytes_def V7FromSqlOrderBytes_def sqlOrderBytes_def errSqlOrder_def answers_def split: if_splits)

lemma sql_millis_sql_bytes: "length u = 16 \<Longrightarrow> sql_millis (sql_bytes u) = rfc_millis u"
  by (elim length_16_cases) (simp add: sql_millis_def rfc_millis_def sql_bytes_def)

text \<open>
  C35. SQL Server order through the package. \<open>V7ToSqlOrder\<close> converts a version 7 and refuses
  anything else with \<open>ErrWrongVersion\<close>; on any later state of the package \<open>V7FromSqlOrder\<close> of the
  result gives back the original, and in between the converted value inspects, in the SQL
  layout, as version 7 with the original's timestamp.
\<close>

theorem sql_order_api_round_trip:
  assumes "package_ok cfg p" "package_ok cfg p'" "length uid = 16"
  shows "answers cfg p (V7ToSqlOrder cfg sc uid p)
      (if is_rfc_v7 uid then Inr (sql_bytes uid) else Inl (Plain ErrWrongVersion)) \<and>
    (is_rfc_v7 uid \<longrightarrow>
       answers cfg p' (V7FromSqlOrder cfg sc' (sql_bytes uid) p') (Inr uid) \<and>
       answers cfg p' (VersionIn cfg sc' (sql_bytes uid) 2 p') (Inr 7) \<and>
       answers cfg p' (IsRfcIn cfg sc' (sql_bytes uid) 7 2 p') (Inr True) \<and>
       answers cfg p' (V7UnixMillisIn cfg sc' (sql_bytes uid) 2 p') (Inr (of_nat (rfc_millis uid))))"
  using sql_order_answers(1) [OF assms(1,3)] sql_order_answers(2) [OF assms(2) length_sql_bytes(1), of sc' uid]
    p_version_in [OF assms(2) length_sql_bytes(1), where layout = 2 and sc = sc' and f = Inr and u1 = uid]
    answers_map [OF p_millis_in [OF assms(2) length_sql_bytes(1), where layout = 2 and sc = sc' and u1 = uid], where f = Inr]
    answers_map [OF p_isRfc_in [OF assms(2) length_sql_bytes(1), where layout = 2 and sc = sc' and u1 = uid and v = 7], where f = Inr]
  by (auto simp: is_sql_sql_bytes rfc_sql_bytes [OF assms(3)] VersionIn_def IsRfcIn_def V7UnixMillisIn_def
      layoutCode_simps version_in_def is_rfc_in_def millis_in_def sql_millis_sql_bytes [OF assms(3)])

theorem sql_order_api_round_trip_witness:
  "answers sample_config (init_package \<lparr>reads = [], clock = []\<rparr>) (V7FromSqlOrder sample_config Free (sql_bytes sample_v7)
     (init_package \<lparr>reads = [], clock = []\<rparr>)) (Inr sample_v7)"
  using sql_order_api_round_trip [of sample_config "init_package \<lparr>reads = [], clock = []\<rparr>" "init_package \<lparr>reads = [], clock = []\<rparr>" sample_v7 Free Free]
    init_package_ok(1) [OF sample_config_ok] sample_v7_ok by blast

text \<open>
  C36. SQL Server order in a caller's buffer. \<open>V7ToSqlOrderBytes\<close> and \<open>V7FromSqlOrderBytes\<close> rewrite
  sixteen bytes in place exactly when they are of the kind each takes; they answer
  \<open>ErrWrongVersion\<close> otherwise and \<open>ErrNotOneUUID\<close> for any other length, and then the buffer keeps
  every byte. Each undoes the other, on any later state of the package.
\<close>

theorem sql_order_bytes_in_place:
  assumes "package_ok cfg p" "package_ok cfg p'"
  shows "answers cfg p (V7ToSqlOrderBytes cfg sc b p)
      (if length b \<noteq> 16 then (Some (Got ErrNotOneUUID (int (length b))), b)
       else if is_rfc_v7 b then (None, sql_bytes b) else (Some (Plain ErrWrongVersion), b)) \<and>
    answers cfg p (V7FromSqlOrderBytes cfg sc b p)
      (if length b \<noteq> 16 then (Some (Got ErrNotOneUUID (int (length b))), b)
       else if is_sql_v7 b then (None, rfc_bytes b) else (Some (Plain ErrWrongVersion), b)) \<and>
    (length b = 16 \<and> is_rfc_v7 b \<longrightarrow>
       answers cfg p' (V7FromSqlOrderBytes cfg sc' (sql_bytes b) p') (None, b)) \<and>
    (length b = 16 \<and> is_sql_v7 b \<longrightarrow>
       answers cfg p' (V7ToSqlOrderBytes cfg sc' (rfc_bytes b) p') (None, b))"
  using sql_order_bytes_answers [OF assms(1), of sc b] sql_order_bytes_answers(2) [OF assms(2), of sc' "sql_bytes b"]
    sql_order_bytes_answers(1) [OF assms(2), of sc' "rfc_bytes b"]
  by (auto simp: is_sql_sql_bytes rfc_sql_bytes is_rfc_rfc_bytes sql_rfc_bytes)

theorem sql_order_bytes_in_place_witness:
  "answers sample_config (init_package \<lparr>reads = [], clock = []\<rparr>) (V7FromSqlOrderBytes sample_config Free (sql_bytes sample_v7)
     (init_package \<lparr>reads = [], clock = []\<rparr>)) (None, sample_v7)"
  using sql_order_bytes_in_place [of sample_config "init_package \<lparr>reads = [], clock = []\<rparr>" "init_package \<lparr>reads = [], clock = []\<rparr>"
      Free sample_v7 Free] init_package_ok(1) [OF sample_config_ok] sample_v7_ok by blast

section \<open>Version 4 and the core's version\<close>

lemma stamp_fields:
  assumes "length r = 16"
  shows "length (stamp 4 r) = 16" "rfc_version (stamp 4 r) = 4" "is_variant_rfc (stamp 4 r)"
    "j < 16 \<Longrightarrow> j \<noteq> 6 \<Longrightarrow> j \<noteq> 8 \<Longrightarrow> stamp 4 r ! j = r ! j"
    "take_bit 4 (stamp 4 r ! 6) = take_bit 4 (r ! 6)" "take_bit 6 (stamp 4 r ! 8) = take_bit 6 (r ! 8)"
proof -
  have "drop_bit 4 (0x40 OR (r ! 6 AND 0x0f)) = 4" by (rule eq_bits_u8; simp add: bit_eval)
  then have "unat (0x40 OR (r ! 6 AND 0x0f)) div 16 = 4" using unat_div_u8 [of 4 "0x40 OR (r ! 6 AND 0x0f)"] by simp
  then show "rfc_version (stamp 4 r) = 4" using assms by (simp add: stamp_def rfc_version_def)
  show "is_variant_rfc (stamp 4 r)" using assms by (simp add: stamp_def is_variant_rfc_def variant_bits bit_eval)
  show "take_bit 4 (stamp 4 r ! 6) = take_bit 4 (r ! 6)" "take_bit 6 (stamp 4 r ! 8) = take_bit 6 (r ! 8)"
    using assms by (simp_all add: stamp_def) (rule eq_bits_u8; simp add: bit_eval)+
qed (use assms in \<open>simp_all add: stamp_def\<close>)

text \<open>
  C30. Version 4 on an instance: sixteen bytes are drawn from the instance's source, and the call
  fails with code 1 exactly when the draw does. On success the value has version 4 and the RFC
  variant, and every other one of its 122 bits is the bit drawn; the version 7 stream and the
  scratch's size stay as they were.
\<close>

theorem new_v4_stamps_draw:
  assumes "inst_ok maxint i" "host_draw ctr (replicate 16 0) (src i, e) = (code, r, sr, e')"
  shows "\<exists>out i'. i_newV4 ctr i e = Some ((out, if code = 0 then 0 else 1), i', e') \<and> src i' = sr \<and>
    quiet maxint (i\<lparr>src := sr\<rparr>) i' \<and>
    (code = 0 \<longrightarrow> length out = 16 \<and> rfc_version out = 4 \<and> is_variant_rfc out \<and>
       (\<forall>j<16. j \<noteq> 6 \<and> j \<noteq> 8 \<longrightarrow> out ! j = r ! j) \<and>
       take_bit 4 (out ! 6) = take_bit 4 (r ! 6) \<and> take_bit 6 (out ! 8) = take_bit 6 (r ! 8))"
proof (rule i_newV4_spec [OF assms(1), where ctr = ctr and e = e])
  fix code' r' sr' e'' i' out
  assume s: "host_draw ctr (replicate 16 0) (src i, e) = (code', r', sr', e'')"
    "i_newV4 ctr i e = Some ((out, if code' = 0 then 0 else 1), i', e'')" "inst_ok maxint i'"
    "pages i' = pages i" "stream_word (im i') = stream_word (im i)" "src i' = sr'" "length r' = 16"
    "code' = 0 \<Longrightarrow> out = stamp 4 r'"
  with assms(2) show ?thesis using stamp_fields [OF s(7)]
    by (intro exI [of _ out] exI [of _ i']) (auto simp: quiet_def)
qed

theorem new_v4_stamps_draw_witness:
  "\<exists>out i'. i_newV4 (c_ctr sample_config) sample_inst \<lparr>reads = [ReadOk (replicate 16 171)], clock = []\<rparr> =
     Some ((out, 0), i', \<lparr>reads = [], clock = []\<rparr>) \<and> length out = 16 \<and> rfc_version out = 4"
proof -
  let ?e = "\<lparr>reads = [ReadOk (replicate 16 171)], clock = []\<rparr>"
  have "host_draw (c_ctr sample_config) (replicate 16 0) (src sample_inst, ?e) =
      (0, replicate 16 171, OsSource, \<lparr>reads = [], clock = []\<rparr>)"
    by (simp add: host_draw_def sample_inst_def os_fill_def readFull_def)
  from new_v4_stamps_draw [OF sample_inst_ok this] show ?thesis by auto
qed

text \<open>
  C31. \<open>NewV4\<close> through the package returns on every schedule: a version 4 value of the RFC variant,
  or \<open>ErrRandomSource\<close> with the core's code 1.
\<close>

theorem new_v4_returns:
  assumes "package_ok cfg p"
  shows "\<exists>r q. NewV4 cfg sc p = Some (r, q) \<and> package_ok cfg q \<and> stream_of q = stream_of p \<and>
    ((\<exists>u. r = Inr u \<and> length u = 16 \<and> rfc_version u = 4 \<and> is_variant_rfc u) \<or>
     r = Inl (Failed ''uuid_new_v4'' 1 ErrRandomSource))"
proof -
  obtain out rc q where q: "p_newV4 cfg sc p = Some ((out, rc), q)" "package_ok cfg q" "stream_of q = stream_of p"
    "rc = 0 \<and> (\<exists>r. length r = 16 \<and> out = stamp 4 r) \<or> rc = 1"
    using newV4_returns [OF assms] by blast
  then show ?thesis using stamp_fields(1-3) by (auto simp: NewV4_def)
qed

theorem new_v4_returns_witness:
  "\<exists>r q. NewV4 sample_config (Busy None) (init_package \<lparr>reads = [], clock = []\<rparr>) = Some (r, q) \<and>
    package_ok sample_config q \<and> stream_of q = stream_of (init_package \<lparr>reads = [], clock = []\<rparr>) \<and>
    ((\<exists>u. r = Inr u \<and> length u = 16 \<and> rfc_version u = 4 \<and> is_variant_rfc u) \<or>
     r = Inl (Failed ''uuid_new_v4'' 1 ErrRandomSource))"
  by (rule new_v4_returns) (simp add: init_package_ok(1))

lemma NativeVersion_answers:
  assumes "package_ok cfg p"
  shows "answers cfg p (NativeVersion cfg sc p) ''1.1.0''"
proof -
  have "show_nat (unat (drop_bit 16 (65792 :: i32))) @ ''.'' @ show_nat (unat (drop_bit 8 (65792 :: i32) AND 0xFF)) @ ''.'' @
      show_nat (unat ((65792 :: i32) AND 0xFF)) = ''1.1.0''"
    by (simp add: show_nat.simps unat_drop_bit char_of_def bit_0)
  then show ?thesis
    using answers_map [OF packedVersion_answers [OF assms, of sc], where f = "\<lambda>v. show_nat (unat (drop_bit 16 v)) @ ''.'' @
      show_nat (unat (drop_bit 8 v AND 0xFF)) @ ''.'' @ show_nat (unat (v AND 0xFF))"]
    by (simp add: NativeVersion_def)
qed

text \<open>
  \<open>NativeVersion\<close> is the packed version of the translated core written as
  \<open>major.minor.patch\<close>, the same on every instance.
\<close>

theorem native_version:
  assumes "package_ok cfg p"
  shows "answers cfg p (NativeVersion cfg sc p) ''1.1.0''"
  using assms by (rule NativeVersion_answers)

theorem native_version_witness:
  "answers sample_config (init_package \<lparr>reads = [], clock = []\<rparr>)
     (NativeVersion sample_config Free (init_package \<lparr>reads = [], clock = []\<rparr>)) ''1.1.0''"
  by (rule native_version) (simp add: init_package_ok(1))

end
