(* ===== verification/Sha1_Spec.thy ===== *)
theory Sha1_Spec
  imports Uuid_Spec
begin

text \<open>
  SHA-1 as FIPS 180-4 states it, over 32-bit words: the functions and constants of the rounds,
  the message schedule, the compression of one block, the padding and the digest. Nothing here
  comes from the code; \<open>Core_Sha1\<close> shows that the translated compression function computes
  \<open>sha1_compress\<close> and \<open>Core_V5\<close> that the core hashes \<open>namespace @ name\<close> with \<open>sha1\<close>.
\<close>

section \<open>One block\<close>

type_synonym sha1_state = "i32 \<times> i32 \<times> i32 \<times> i32 \<times> i32"

definition sha1_f :: "nat \<Rightarrow> i32 \<Rightarrow> i32 \<Rightarrow> i32 \<Rightarrow> i32" where
  "sha1_f t x y z =
     (if t < 20 then (x AND y) XOR (NOT x AND z)
      else if t < 40 \<or> 60 \<le> t then x XOR y XOR z
      else (x AND y) XOR (x AND z) XOR (y AND z))"

definition sha1_k :: "nat \<Rightarrow> i32" where
  "sha1_k t =
     (if t < 20 then 0x5a827999 else if t < 40 then 0x6ed9eba1
      else if t < 60 then 0x8f1bbcdc else 0xca62c1d6)"

fun sha1_expand :: "nat \<Rightarrow> i32 list \<Rightarrow> i32 list" where
  "sha1_expand 0 ws = ws"
| "sha1_expand (Suc n) ws =
     (let t = length ws
      in sha1_expand n (ws @ [word_rotl 1 (ws ! (t - 3) XOR ws ! (t - 8) XOR ws ! (t - 14) XOR ws ! (t - 16))]))"

definition sha1_schedule :: "i32 list \<Rightarrow> i32 list" where
  "sha1_schedule ws = sha1_expand 64 ws"

fun sha1_round :: "i32 list \<Rightarrow> nat \<Rightarrow> sha1_state \<Rightarrow> sha1_state" where
  "sha1_round ws t (a, b, c, d, e) =
     (word_rotl 5 a + sha1_f t b c d + e + sha1_k t + ws ! t, a, word_rotl 30 b, c, d)"

primrec sha1_rounds :: "i32 list \<Rightarrow> nat \<Rightarrow> sha1_state \<Rightarrow> sha1_state" where
  "sha1_rounds ws 0 s = s"
| "sha1_rounds ws (Suc t) s = sha1_round ws t (sha1_rounds ws t s)"

fun sha1_add :: "sha1_state \<Rightarrow> sha1_state \<Rightarrow> sha1_state" where
  "sha1_add (a, b, c, d, e) (h0, h1, h2, h3, h4) = (a + h0, b + h1, c + h2, d + h3, e + h4)"

definition sha1_compress :: "sha1_state \<Rightarrow> i32 list \<Rightarrow> sha1_state" where
  "sha1_compress h ws = sha1_add (sha1_rounds (sha1_schedule ws) 80 h) h"

section \<open>Messages\<close>

definition be_word :: "u8 list \<Rightarrow> i32" where
  "be_word bs = foldl (\<lambda>w b. push_bit 8 w OR ucast b) 0 bs"

definition be32_bytes :: "i32 \<Rightarrow> u8 list" where
  "be32_bytes w = [ucast (drop_bit 24 w), ucast (drop_bit 16 w), ucast (drop_bit 8 w), ucast w]"

definition be64_bytes :: "i64 \<Rightarrow> u8 list" where
  "be64_bytes w =
     [ucast (drop_bit 56 w), ucast (drop_bit 48 w), ucast (drop_bit 40 w), ucast (drop_bit 32 w),
      ucast (drop_bit 24 w), ucast (drop_bit 16 w), ucast (drop_bit 8 w), ucast w]"

definition block_words :: "u8 list \<Rightarrow> i32 list" where
  "block_words bs = map (\<lambda>i. be_word (take 4 (drop (4 * i) bs))) [0..<16]"

primrec sha1_blocks :: "nat \<Rightarrow> u8 list \<Rightarrow> sha1_state \<Rightarrow> sha1_state" where
  "sha1_blocks 0 bs h = h"
| "sha1_blocks (Suc n) bs h = sha1_blocks n (drop 64 bs) (sha1_compress h (block_words (take 64 bs)))"

definition sha1_init :: sha1_state where
  "sha1_init = (0x67452301, 0xefcdab89, 0x98badcfe, 0x10325476, 0xc3d2e1f0)"

definition sha1_pad :: "u8 list \<Rightarrow> u8 list" where
  "sha1_pad msg = msg @ [0x80] @ replicate ((119 - length msg mod 64) mod 64) 0 @ be64_bytes (of_nat (8 * length msg))"

fun sha1_digest :: "sha1_state \<Rightarrow> u8 list" where
  "sha1_digest (a, b, c, d, e) = concat (map be32_bytes [a, b, c, d, e])"

definition sha1 :: "u8 list \<Rightarrow> u8 list" where
  "sha1 msg = sha1_digest (sha1_blocks (length (sha1_pad msg) div 64) (sha1_pad msg) sha1_init)"

section \<open>The schedule\<close>

lemma length_sha1_expand [simp]: "length (sha1_expand n ws) = n + length ws"
  by (induction n ws rule: sha1_expand.induct) (simp_all add: Let_def)

lemma sha1_expand_prefix: "t < length ws \<Longrightarrow> sha1_expand n ws ! t = ws ! t"
  by (induction n ws rule: sha1_expand.induct) (simp_all add: Let_def nth_append)

lemma sha1_expand_nth:
  assumes "length ws \<le> t" "t < n + length ws" "16 \<le> length ws"
  shows "sha1_expand n ws ! t = word_rotl 1 (sha1_expand n ws ! (t - 3) XOR sha1_expand n ws ! (t - 8) XOR
    sha1_expand n ws ! (t - 14) XOR sha1_expand n ws ! (t - 16))"
  using assms
proof (induction n ws rule: sha1_expand.induct)
  case (2 n ws)
  let ?w = "word_rotl 1 (ws ! (length ws - 3) XOR ws ! (length ws - 8) XOR ws ! (length ws - 14) XOR ws ! (length ws - 16))"
  have e: "sha1_expand (Suc n) ws = sha1_expand n (ws @ [?w])" by (simp add: Let_def)
  show ?case
  proof (cases "t = length ws")
    case True
    have "sha1_expand n (ws @ [?w]) ! i = (ws @ [?w]) ! i" if "i < Suc (length ws)" for i
      using that by (intro sha1_expand_prefix) simp
    with True 2(4) show ?thesis unfolding e by (simp add: nth_append)
  next
    case False
    with 2(2-) show ?thesis unfolding e by (intro 2(1)) simp_all
  qed
qed simp

lemma sha1_schedule_block: "t < 16 \<Longrightarrow> length ws = 16 \<Longrightarrow> sha1_schedule ws ! t = ws ! t"
  by (simp add: sha1_schedule_def sha1_expand_prefix)

lemma sha1_schedule_nth:
  "16 \<le> t \<Longrightarrow> t < 80 \<Longrightarrow> length ws = 16 \<Longrightarrow> sha1_schedule ws ! t =
     word_rotl 1 (sha1_schedule ws ! (t - 3) XOR sha1_schedule ws ! (t - 8) XOR
       sha1_schedule ws ! (t - 14) XOR sha1_schedule ws ! (t - 16))"
  unfolding sha1_schedule_def by (rule sha1_expand_nth) simp_all

section \<open>Bytes and blocks\<close>

lemma length_be_bytes [simp]: "length (be32_bytes w) = 4" "length (be64_bytes v) = 8"
  by (simp_all add: be32_bytes_def be64_bytes_def)

lemma length_sha1_digest [simp]: "length (sha1_digest s) = 20"
  by (cases s rule: sha1_digest.cases) simp

lemma length_block_words [simp]: "length (block_words bs) = 16"
  by (simp add: block_words_def)

lemma pad_zeros: "r < 64 \<Longrightarrow> (119 - r) mod 64 = (if r \<le> 55 then 55 - r else 119 - r)" for r :: nat
proof -
  have "(119 - r) mod 64 = 55 - r" if "r \<le> 55"
    using mod_add_self1 [of 64 "55 - r"] that by (simp add: Nat.diff_add_assoc [symmetric])
  then show ?thesis by simp
qed

lemma length_sha1_pad:
  "length (sha1_pad msg) = 64 * (length msg div 64 + (if length msg mod 64 \<le> 55 then 1 else 2))"
proof -
  define q r where "q = length msg div 64" and "r = length msg mod 64"
  have "length msg = 64 * q + r" "r < 64" by (simp_all add: q_def r_def)
  then show ?thesis
    using pad_zeros [of r] unfolding q_def [symmetric] r_def [symmetric]
    by (simp add: sha1_pad_def)
qed

lemma sha1_blocks_append:
  "length xs = 64 * m \<Longrightarrow> sha1_blocks (m + n) (xs @ ys) h = sha1_blocks n ys (sha1_blocks m xs h)"
proof (induction m arbitrary: xs h)
  case (Suc m)
  then have "take 64 (xs @ ys) = take 64 xs" "drop 64 (xs @ ys) = drop 64 xs @ ys" by simp_all
  with Suc show ?case by simp
qed simp

end
