(* ===== verification/Core_Sha1.thy ===== *)
theory Core_Sha1
  imports Sha1_Spec
begin

text \<open>
  SHA-1 in the translated core: \<open>fn6\<close> of \<open>src/go/internal/core/core.go\<close>, which compresses a
  run of 64-byte blocks of linear memory into the state at an address. Its loop body is one
  straight line of 473 assignments, the unrolled schedule and rounds of a block. It is
  translated statement by statement, in the order and with the names of the code, and cut into
  eleven definitions that hand their live variables to the next: \<open>fn6_load\<close> (the loads and the
  first schedule words), \<open>fn6_sched1\<close>, \<open>fn6_sched2\<close> (the rest of the schedule but for the
  words the rounds compute in place) and \<open>fn6_r0\<close> to \<open>fn6_r70\<close> (ten rounds each). They are
  declared last first, since each calls the next.

  \<open>sha1_trace A R W L\<close> names what the code's variables hold: loaded words \<open>L\<close>, schedule words
  \<open>W\<close>, the first word \<open>A\<close> of the state after each round and its rotation \<open>R\<close>. Each
  definition is then evaluated symbolically: \<open>trace_folds\<close> rewrites every right-hand side of
  the code to the word it is, and the result is \<open>sha1_compress\<close>.
\<close>

section \<open>Rotations\<close>

definition i32_rotl :: "i32 \<Rightarrow> i32 \<Rightarrow> i32" where
  "i32_rotl x y = word_rotl (unat (y AND 31)) x"

definition i32_rotr :: "i32 \<Rightarrow> i32 \<Rightarrow> i32" where
  "i32_rotr x y = word_rotr (unat (y AND 31)) x"

definition bswap32 :: "i32 \<Rightarrow> i32" where
  "bswap32 x = drop_bit 8 ((x XOR i32_rotr x 16) AND (- 0xff0100)) XOR i32_rotr x 8"


text \<open>
  \<open>i32_rotl\<close> and \<open>i32_rotr\<close> take the amount modulo 32; \<open>bswap32\<close> is the expression by which
  the code reverses the bytes of a word (\<open>v9\<close> is the first one it computes).
\<close>

section \<open>The loop body\<close>

definition fn6_r70 where
  "fn6_r70 (v2 :: i32) v4 v5 v6 v7 v8 v11 v17 v18 v19 v20 v63 v64 v65 v70 v73 v74 v75 v76 v77 v78 v79
  v81 v82 t85 t208 t209 t210 =
     (let
      t211 = t209 + ((t210 XOR v7) XOR v11);
      v8 = v77 + v18 + ((v7 XOR v17) XOR v8) + i32_rotl v11 5 + (- 899497514);
      v11 = t211 + i32_rotl v8 5 + (- 899497514); v17 = i32_rotl v11 30; t212 = v17;
      v18 = i32_rotl v8 30; t213 = t212 XOR v18; v22 = i32_rotl (((v73 XOR v63) XOR v75) XOR v82) 1;
      v7 = v22 + v7 + ((v19 XOR v20) XOR v8) + i32_rotl v11 5 + (- 899497514);
      t214 = t208 + (t213 XOR v7);
      v8 = v78 + v20 + ((v18 XOR v19) XOR v11) + i32_rotl v7 5 + (- 899497514);
      v11 = t214 + i32_rotl v8 5 + (- 899497514); v19 = i32_rotl v11 30; t215 = t85 + v19;
      t216 = v79 + v17; v20 = i32_rotl v8 30; t217 = v20; v7 = i32_rotl v7 30;
      t218 = t216 + ((t217 XOR v7) XOR v11); v22 = i32_rotl (((v74 XOR v64) XOR v76) XOR v22) 1;
      v8 = v22 + v18 + ((v7 XOR v17) XOR v8) + i32_rotl v11 5 + (- 899497514);
      v11 = t218 + i32_rotl v8 5 + (- 899497514); v18 = i32_rotl v11 30; t219 = v18;
      v17 = i32_rotl v8 30; t220 = t219 XOR v17;
      v8 = i32_rotl (((v70 XOR v74) XOR v82) XOR v81) 1 + v7 + ((v19 XOR v20) XOR v8) + i32_rotl v11 5 + (- 899497514);
      t221 = t215 + (t220 XOR v8);
      v11 = i32_rotl (((v75 XOR v65) XOR v77) XOR v22) 1 + v20 + ((v17 XOR v19) XOR v11) + i32_rotl v8 5 + (- 899497514);
      v7 = t221 + i32_rotl v11 5 + (- 899497514); v6 = v11 + v6; v5 = v18 + v5;
      v2 = i32_rotl v8 30 + v2; v4 = v17 + v4
      in (v7, v6, v2, v5, v4))"

definition fn6_r60 where
  "fn6_r60 (v2 :: i32) v4 v5 v6 v7 v8 v11 v17 v18 v19 v20 v63 v64 v65 v66 v69 v70 v71 v72 v73 v74 v75
  v76 v77 v78 v79 v80 v81 v82 t85 t87 t88 t194 t195 t196 =
     (let
      t197 = t195 + ((t196 XOR v20) XOR v17);
      v7 = v69 + v8 + ((v20 XOR v11) XOR v7) + i32_rotl v17 5 + (- 899497514);
      v8 = t197 + i32_rotl v7 5 + (- 899497514); v11 = i32_rotl v8 30; t198 = v11;
      v17 = i32_rotl v7 30; t199 = t198 XOR v17;
      v7 = v65 + v20 + ((v18 XOR v19) XOR v7) + i32_rotl v8 5 + (- 899497514);
      t200 = t194 + (t199 XOR v7);
      v8 = v70 + v19 + ((v17 XOR v18) XOR v8) + i32_rotl v7 5 + (- 899497514);
      v18 = t200 + i32_rotl v8 5 + (- 899497514); v19 = i32_rotl v18 30; t201 = t88 + v19;
      t202 = v80 + v11; v20 = i32_rotl v8 30; t203 = v20; v7 = i32_rotl v7 30;
      t204 = t202 + ((t203 XOR v7) XOR v18);
      v8 = v66 + v17 + ((v7 XOR v11) XOR v8) + i32_rotl v18 5 + (- 899497514);
      v11 = t204 + i32_rotl v8 5 + (- 899497514); v17 = i32_rotl v11 30; t205 = v17;
      v18 = i32_rotl v8 30; t206 = t205 XOR v18;
      v7 = v76 + v7 + ((v19 XOR v20) XOR v8) + i32_rotl v11 5 + (- 899497514);
      t207 = t201 + (t206 XOR v7);
      v8 = v71 + v20 + ((v18 XOR v19) XOR v11) + i32_rotl v7 5 + (- 899497514);
      v11 = t207 + i32_rotl v8 5 + (- 899497514); v19 = i32_rotl v11 30; t208 = t87 + v19;
      t209 = v72 + v17; v20 = i32_rotl v8 30; t210 = v20; v7 = i32_rotl v7 30
      in fn6_r70 v2 v4 v5 v6 v7 v8 v11 v17 v18 v19 v20 v63 v64 v65 v70 v73 v74 v75 v76 v77 v78 v79 v81
         v82 t85 t208 t209 t210)"

definition fn6_r50 where
  "fn6_r50 (v2 :: i32) v4 v5 v6 v7 v8 v17 v18 v19 v20 v52 v58 v61 v62 v63 v64 v65 v66 v68 v69 v70 v71
  v72 v73 v74 v75 v76 v77 v78 v79 v80 v81 v82 t85 t87 t88 t89 t90 t176 t177 =
     (let
      t178 = t177 + v8; t179 = v7; v11 = i32_rotl v19 30; t180 = t179 XOR v11;
      v18 = v61 + v18 + ((v19 AND (v8 XOR v17)) XOR (v8 AND v17)) + i32_rotl v20 5 + (- 1894007588);
      t181 = t178 + ((t180 AND v18) XOR (v7 AND v11));
      v19 = v52 + v17 + ((v20 AND (v11 XOR v8)) XOR (v11 AND v8)) + i32_rotl v18 5 + (- 1894007588);
      v20 = t181 + i32_rotl v19 5 + (- 1894007588); t182 = v20; v8 = i32_rotl v19 30; t183 = v8;
      v17 = i32_rotl v18 30; t184 = t176 + ((t182 AND (t183 XOR v17)) XOR (v8 AND v17));
      v19 = v62 + v11 + (((v17 XOR v7) AND v19) XOR (v17 AND v7)) + i32_rotl v20 5 + (- 1894007588);
      v22 = t184 + i32_rotl v19 5 + (- 1894007588); v7 = i32_rotl v22 30; t185 = t90 + v7; t186 = v58;
      v11 = i32_rotl v20 30; t187 = t186 + v11; t188 = v7; v18 = i32_rotl v19 30; t189 = t188 XOR v18;
      v17 = v68 + v17 + ((v19 AND (v11 XOR v8)) XOR (v11 AND v8)) + i32_rotl v22 5 + (- 1894007588);
      t190 = t187 + ((t189 AND v17) XOR (v7 AND v18));
      v19 = v63 + v8 + (((v18 XOR v11) AND v22) XOR (v18 AND v11)) + i32_rotl v17 5 + (- 1894007588);
      v20 = t190 + i32_rotl v19 5 + (- 1894007588); t191 = v20; v11 = i32_rotl v19 30; t192 = v11;
      v8 = i32_rotl v17 30; t193 = t185 + ((t191 AND (t192 XOR v8)) XOR (v11 AND v8));
      v7 = v73 + v18 + ((v19 AND (v8 XOR v7)) XOR (v8 AND v7)) + i32_rotl v20 5 + (- 1894007588);
      v17 = t193 + i32_rotl v7 5 + (- 1894007588); v18 = i32_rotl v17 30; t194 = t89 + v18;
      t195 = v74 + v11; v19 = i32_rotl v7 30; t196 = v19; v20 = i32_rotl v20 30
      in fn6_r60 v2 v4 v5 v6 v7 v8 v11 v17 v18 v19 v20 v63 v64 v65 v66 v69 v70 v71 v72 v73 v74 v75 v76
         v77 v78 v79 v80 v81 v82 t85 t87 t88 t194 t195 t196)"

definition fn6_r40 where
  "fn6_r40 (v2 :: i32) v4 v5 v6 v7 v8 v11 v17 v18 v19 v20 v43 v44 v49 v50 v51 v52 v55 v58 v60 v61 v62
  v63 v64 v65 v66 v67 v68 v69 v70 v71 v72 v73 v74 v75 v76 v77 v78 v79 v80 v81 v82 t85 t87 t88 t89 t90
  t91 t92 t161 t162 t163 =
     (let
      t164 = t162 + (((t163 XOR v11) AND v20) XOR (v8 AND v11));
      v19 = v43 + v18 + (((v11 XOR v17) AND v19) XOR (v11 AND v17)) + i32_rotl v20 5 + (- 1894007588);
      v20 = t164 + i32_rotl v19 5 + (- 1894007588); v17 = i32_rotl v20 30; t165 = v17;
      v18 = i32_rotl v19 30; t166 = t165 XOR v18;
      v11 = v49 + v11 + ((v19 AND (v7 XOR v8)) XOR (v7 AND v8)) + i32_rotl v20 5 + (- 1894007588);
      t167 = t161 + ((t166 AND v11) XOR (v17 AND v18));
      v19 = v44 + v8 + ((v20 AND (v18 XOR v7)) XOR (v18 AND v7)) + i32_rotl v11 5 + (- 1894007588);
      v20 = t167 + i32_rotl v19 5 + (- 1894007588); v7 = i32_rotl v20 30; t168 = t92 + v7;
      t169 = v55 + v17; t170 = v20; v8 = i32_rotl v19 30; t171 = v8; v11 = i32_rotl v11 30;
      t172 = t169 + ((t170 AND (t171 XOR v11)) XOR (v8 AND v11));
      v19 = v50 + v18 + (((v11 XOR v17) AND v19) XOR (v11 AND v17)) + i32_rotl v20 5 + (- 1894007588);
      v20 = t172 + i32_rotl v19 5 + (- 1894007588); v17 = i32_rotl v20 30; t173 = v17;
      v18 = i32_rotl v19 30; t174 = t173 XOR v18;
      v11 = v60 + v11 + ((v19 AND (v7 XOR v8)) XOR (v7 AND v8)) + i32_rotl v20 5 + (- 1894007588);
      t175 = t168 + ((t174 AND v11) XOR (v17 AND v18));
      v19 = v51 + v8 + (((v18 XOR v7) AND v20) XOR (v18 AND v7)) + i32_rotl v11 5 + (- 1894007588);
      v20 = t175 + i32_rotl v19 5 + (- 1894007588); v7 = i32_rotl v20 30; t176 = t91 + v7; t177 = v67;
      v8 = i32_rotl v11 30
      in fn6_r50 v2 v4 v5 v6 v7 v8 v17 v18 v19 v20 v52 v58 v61 v62 v63 v64 v65 v66 v68 v69 v70 v71 v72
         v73 v74 v75 v76 v77 v78 v79 v80 v81 v82 t85 t87 t88 t89 t90 t176 t177)"

definition fn6_r30 where
  "fn6_r30 (v2 :: i32) v4 v5 v6 v7 v8 v11 v17 v18 v19 v20 v38 v41 v42 v43 v44 v45 v46 v47 v49 v50 v51
  v52 v53 v54 v55 v58 v60 v61 v62 v63 v64 v65 v66 v67 v68 v69 v70 v71 v72 v73 v74 v75 v76 v77 v78 v79
  v80 v81 v82 t85 t87 t88 t89 t90 t91 t92 t93 t94 t147 t148 t149 =
     (let
      t150 = t148 + ((t149 XOR v7) XOR v11);
      v8 = v45 + v18 + ((v7 XOR v17) XOR v8) + i32_rotl v11 5 + 1859775393;
      v11 = t150 + i32_rotl v8 5 + 1859775393; v17 = i32_rotl v11 30; t151 = v17; v18 = i32_rotl v8 30;
      t152 = t151 XOR v18; v7 = v41 + v7 + ((v19 XOR v20) XOR v8) + i32_rotl v11 5 + 1859775393;
      t153 = t147 + (t152 XOR v7);
      v8 = v46 + v20 + ((v18 XOR v19) XOR v11) + i32_rotl v7 5 + 1859775393;
      v11 = t153 + i32_rotl v8 5 + 1859775393; v19 = i32_rotl v11 30; t154 = t94 + v19;
      t155 = v47 + v17; v20 = i32_rotl v8 30; t156 = v20; v7 = i32_rotl v7 30;
      t157 = t155 + ((t156 XOR v7) XOR v11);
      v8 = v42 + v18 + ((v7 XOR v17) XOR v8) + i32_rotl v11 5 + 1859775393;
      v11 = t157 + i32_rotl v8 5 + 1859775393; v17 = i32_rotl v11 30; t158 = v17; v18 = i32_rotl v8 30;
      t159 = t158 XOR v18; v22 = v38 + v7 + ((v19 XOR v20) XOR v8) + i32_rotl v11 5 + 1859775393;
      t160 = t154 + (t159 XOR v22);
      v19 = v53 + v20 + ((v18 XOR v19) XOR v11) + i32_rotl v22 5 + 1859775393;
      v20 = t160 + i32_rotl v19 5 + 1859775393; v7 = i32_rotl v20 30; t161 = t93 + v7;
      t162 = v54 + v17; v8 = i32_rotl v19 30; t163 = v8; v11 = i32_rotl v22 30
      in fn6_r40 v2 v4 v5 v6 v7 v8 v11 v17 v18 v19 v20 v43 v44 v49 v50 v51 v52 v55 v58 v60 v61 v62 v63
         v64 v65 v66 v67 v68 v69 v70 v71 v72 v73 v74 v75 v76 v77 v78 v79 v80 v81 v82 t85 t87 t88 t89
         t90 t91 t92 t161 t162 t163)"

definition fn6_r20 where
  "fn6_r20 (v2 :: i32) v4 v5 v6 v7 v8 v11 v17 v18 v19 v20 v22 v26 v32 v33 v34 v35 v36 v38 v40 v41 v42
  v43 v44 v45 v46 v47 v49 v50 v51 v52 v53 v54 v55 v58 v60 v61 v62 v63 v64 v65 v66 v67 v68 v69 v70 v71
  v72 v73 v74 v75 v76 v77 v78 v79 v80 v81 v82 t85 t87 t88 t89 t90 t91 t92 t93 t94 t95 t96 t133 t134
  t135 =
     (let
      t136 = t134 + ((t135 XOR v22) XOR v11);
      v7 = v18 + v7 + ((v22 XOR v32) XOR v8) + i32_rotl v11 5 + 1859775393;
      v8 = t136 + i32_rotl v7 5 + 1859775393; v11 = i32_rotl v8 30; t137 = v11; v18 = i32_rotl v7 30;
      t138 = t137 XOR v18; v7 = v33 + v22 + ((v17 XOR v20) XOR v7) + i32_rotl v8 5 + 1859775393;
      t139 = t133 + (t138 XOR v7);
      v8 = v19 + v20 + ((v18 XOR v17) XOR v8) + i32_rotl v7 5 + 1859775393;
      v17 = t139 + i32_rotl v8 5 + 1859775393; v19 = i32_rotl v17 30; t140 = t96 + v19;
      t141 = v26 + v11; v20 = i32_rotl v8 30; t142 = v20; v7 = i32_rotl v7 30;
      t143 = t141 + ((t142 XOR v7) XOR v17);
      v8 = v34 + v18 + ((v7 XOR v11) XOR v8) + i32_rotl v17 5 + 1859775393;
      v11 = t143 + i32_rotl v8 5 + 1859775393; v17 = i32_rotl v11 30; t144 = v17; v18 = i32_rotl v8 30;
      t145 = t144 XOR v18; v7 = v40 + v7 + ((v19 XOR v20) XOR v8) + i32_rotl v11 5 + 1859775393;
      t146 = t140 + (t145 XOR v7);
      v8 = v35 + v20 + ((v18 XOR v19) XOR v11) + i32_rotl v7 5 + 1859775393;
      v11 = t146 + i32_rotl v8 5 + 1859775393; v19 = i32_rotl v11 30; t147 = t95 + v19;
      t148 = v36 + v17; v20 = i32_rotl v8 30; t149 = v20; v7 = i32_rotl v7 30
      in fn6_r30 v2 v4 v5 v6 v7 v8 v11 v17 v18 v19 v20 v38 v41 v42 v43 v44 v45 v46 v47 v49 v50 v51 v52
         v53 v54 v55 v58 v60 v61 v62 v63 v64 v65 v66 v67 v68 v69 v70 v71 v72 v73 v74 v75 v76 v77 v78
         v79 v80 v81 v82 t85 t87 t88 t89 t90 t91 t92 t93 t94 t147 t148 t149)"

definition fn6_r10 where
  "fn6_r10 (v2 :: i32) v4 v5 v6 v7 v8 v9 v11 v16 v17 v18 v19 v20 v22 v24 v25 v26 v28 v29 v30 v33 v34 v35
  v36 v38 v40 v41 v42 v43 v44 v45 v46 v47 v49 v50 v51 v52 v53 v54 v55 v58 v60 v61 v62 v63 v64 v65 v66
  v67 v68 v69 v70 v71 v72 v73 v74 v75 v76 v77 v78 v79 v80 v81 v82 v83 t85 t87 t88 t89 t90 t91 t92 t93
  t94 t95 t96 t97 t98 t115 t116 =
     (let
      t117 = t116 + v11; t118 = v9; v14 = i32_rotl v30 30; t119 = t118 XOR v14;
      v24 = v24 + v16 + ((v30 AND (v11 XOR v7)) XOR v7) + i32_rotl v83 5 + 0x5a827999;
      t120 = t117 + ((t119 AND v24) XOR v14);
      v29 = v29 + v7 + ((v83 AND (v14 XOR v11)) XOR v11) + i32_rotl v24 5 + 0x5a827999;
      v30 = t120 + i32_rotl v29 5 + 0x5a827999; t121 = v30; v7 = i32_rotl v29 30; t122 = v7;
      v11 = i32_rotl v24 30; t123 = t115 + ((t121 AND (t122 XOR v11)) XOR v11);
      v9 = v20 + v14 + (((v11 XOR v9) AND v29) XOR v9) + i32_rotl v30 5 + 0x5a827999;
      v14 = t123 + i32_rotl v9 5 + 0x5a827999; v20 = i32_rotl v14 30; t124 = t98 + v20; t125 = v17;
      v32 = i32_rotl v30 30; t126 = t125 + v32; t127 = v20; v17 = i32_rotl v9 30; t128 = t127 XOR v17;
      v8 = v8 + v11 + ((v9 AND (v32 XOR v7)) XOR v7) + i32_rotl v14 5 + 0x5a827999;
      t129 = t126 + ((t128 AND v8) XOR v17);
      v11 = v28 + v7 + (((v17 XOR v32) AND v14) XOR v32) + i32_rotl v8 5 + 0x5a827999;
      v28 = t129 + i32_rotl v11 5 + 0x5a827999; t130 = v28; v32 = i32_rotl v11 30; t131 = v32;
      v7 = i32_rotl v8 30; t132 = t124 + ((t130 AND (t131 XOR v7)) XOR v7);
      v8 = v22 + v17 + ((v11 AND (v7 XOR v20)) XOR v20) + i32_rotl v28 5 + 0x5a827999;
      v11 = t132 + i32_rotl v8 5 + 0x5a827999; v17 = i32_rotl v11 30; t133 = t97 + v17;
      t134 = v25 + v32; v20 = i32_rotl v8 30; t135 = v20; v22 = i32_rotl v28 30
      in fn6_r20 v2 v4 v5 v6 v7 v8 v11 v17 v18 v19 v20 v22 v26 v32 v33 v34 v35 v36 v38 v40 v41 v42 v43
         v44 v45 v46 v47 v49 v50 v51 v52 v53 v54 v55 v58 v60 v61 v62 v63 v64 v65 v66 v67 v68 v69 v70
         v71 v72 v73 v74 v75 v76 v77 v78 v79 v80 v81 v82 t85 t87 t88 t89 t90 t91 t92 t93 t94 t95 t96
         t133 t134 t135)"

definition fn6_r0 where
  "fn6_r0 (v2 :: i32) v4 v5 v6 v7 v8 v10 v12 v13 v14 v15 v16 v17 v18 v19 v20 v21 v22 v23 v24 v25 v26 v28
  v29 v30 v31 v33 v34 v35 v36 v38 v40 v41 v42 v43 v44 v45 v46 v47 v49 v50 v51 v52 v53 v54 v55 v58 v60
  v61 v62 v63 v64 v65 v66 v67 v68 v69 v70 v71 v72 v73 v74 v75 v76 v77 v78 v79 v80 v81 v82 t85 t87 t88
  t89 t90 t91 t92 t93 t94 t95 t96 t97 t98 t99 t100 =
     (let
      v83 = i32_rotl v7 30; t101 = v83 + v13; t102 = v5; v13 = i32_rotl v6 30;
      t103 = t102 + (((v13 XOR v2) AND v7) XOR v2) + v16;
      v31 = v4 + (((v2 XOR v5) AND v6) XOR v5) + i32_rotl v7 5 + v31 + 0x5a827999;
      v84 = t103 + i32_rotl v31 5 + 0x5a827999; v7 = i32_rotl v84 30; t104 = v7; v16 = i32_rotl v31 30;
      t105 = t104 XOR v16;
      v23 = v2 + v23 + ((v31 AND (v83 XOR v13)) XOR v13) + i32_rotl v84 5 + 0x5a827999;
      t106 = t101 + ((t105 AND v23) XOR v16);
      v15 = v13 + v15 + ((v84 AND (v16 XOR v83)) XOR v83) + i32_rotl v23 5 + 0x5a827999;
      v31 = t106 + i32_rotl v15 5 + 0x5a827999; v83 = i32_rotl v31 30; t107 = t100 + v83;
      t108 = v7 + v12; t109 = v31; v9 = i32_rotl v15 30; t110 = v9; v13 = i32_rotl v23 30;
      t111 = t108 + ((t109 AND (t110 XOR v13)) XOR v13);
      v12 = v16 + v21 + (((v13 XOR v7) AND v15) XOR v7) + i32_rotl v31 5 + 0x5a827999;
      v15 = t111 + i32_rotl v12 5 + 0x5a827999; v7 = i32_rotl v15 30; t112 = v7; v16 = i32_rotl v12 30;
      t113 = t112 XOR v16;
      v13 = v13 + v10 + ((v12 AND (v83 XOR v9)) XOR v9) + i32_rotl v15 5 + 0x5a827999;
      t114 = t107 + ((t113 AND v13) XOR v16);
      v30 = v30 + v9 + (((v16 XOR v83) AND v15) XOR v83) + i32_rotl v13 5 + 0x5a827999;
      v83 = t114 + i32_rotl v30 5 + 0x5a827999; v9 = i32_rotl v83 30; t115 = t99 + v9; t116 = v14;
      v11 = i32_rotl v13 30
      in fn6_r10 v2 v4 v5 v6 v7 v8 v9 v11 v16 v17 v18 v19 v20 v22 v24 v25 v26 v28 v29 v30 v33 v34 v35
         v36 v38 v40 v41 v42 v43 v44 v45 v46 v47 v49 v50 v51 v52 v53 v54 v55 v58 v60 v61 v62 v63 v64
         v65 v66 v67 v68 v69 v70 v71 v72 v73 v74 v75 v76 v77 v78 v79 v80 v81 v82 v83 t85 t87 t88 t89
         t90 t91 t92 t93 t94 t95 t96 t97 t98 t115 t116)"

definition fn6_sched2 where
  "fn6_sched2 (v2 :: i32) v4 v5 v6 v7 v8 v9 v10 v11 v12 v13 v14 v15 v16 v17 v18 v19 v20 v21 v22 v23 v24
  v25 v26 v27 v28 v29 v30 v31 v32 v33 v34 v35 v36 v37 v38 v39 v40 v41 v42 v43 v44 v45 v46 v47 v48 v49
  v50 v51 v52 t6 =
     (let
      t59 = v52; t60 = v42 XOR v46; t61 = (v40 XOR v34) XOR v46;
      v53 = i32_rotl (((v39 XOR v33) XOR v45) XOR v42) 1; v54 = i32_rotl (t61 XOR v53) 1;
      t62 = t60 XOR v54; v55 = i32_rotl (((v41 XOR v45) XOR v53) XOR v44) 1;
      v56 = i32_rotl (t62 XOR v55) 1; t63 = t59 XOR v56; t64 = (v44 XOR v54) XOR v56;
      v57 = i32_rotl (((v43 XOR v53) XOR v55) XOR v52) 1; v58 = i32_rotl (t64 XOR v57) 1;
      t65 = t63 XOR v58; t66 = (v51 XOR v55) XOR v57; t67 = (v50 XOR v44) XOR v52;
      t68 = (v49 XOR v43) XOR v51; t69 = (v48 XOR v38) XOR v50; t70 = (v47 XOR v37) XOR v49;
      t71 = (v46 XOR v36) XOR v48; v59 = i32_rotl (((v45 XOR v35) XOR v47) XOR v54) 1;
      v60 = i32_rotl (t71 XOR v59) 1; v61 = i32_rotl (t70 XOR v60) 1; v62 = i32_rotl (t69 XOR v61) 1;
      v63 = i32_rotl (t68 XOR v62) 1; v64 = i32_rotl (t67 XOR v63) 1; v65 = i32_rotl (t66 XOR v64) 1;
      v66 = i32_rotl (t65 XOR v65) 1; t72 = v66; t73 = v56 XOR v60; t74 = (v54 XOR v48) XOR v60;
      v67 = i32_rotl (((v53 XOR v47) XOR v59) XOR v56) 1; v68 = i32_rotl (t74 XOR v67) 1;
      t75 = t73 XOR v68; v69 = i32_rotl (((v55 XOR v59) XOR v67) XOR v58) 1;
      v70 = i32_rotl (t75 XOR v69) 1; t76 = t72 XOR v70; t77 = (v58 XOR v68) XOR v70;
      v71 = i32_rotl (((v57 XOR v67) XOR v69) XOR v66) 1; v72 = i32_rotl (t77 XOR v71) 1;
      t78 = t76 XOR v72; t79 = (v65 XOR v69) XOR v71; t80 = (v64 XOR v58) XOR v66;
      t81 = (v63 XOR v57) XOR v65; t82 = (v62 XOR v52) XOR v64; t83 = (v61 XOR v51) XOR v63;
      t84 = (v60 XOR v50) XOR v62; v73 = i32_rotl (((v59 XOR v49) XOR v61) XOR v68) 1;
      v74 = i32_rotl (t84 XOR v73) 1; v75 = i32_rotl (t83 XOR v74) 1; v76 = i32_rotl (t82 XOR v75) 1;
      v77 = i32_rotl (t81 XOR v76) 1; v78 = i32_rotl (t80 XOR v77) 1; v79 = i32_rotl (t79 XOR v78) 1;
      t85 = t6 + i32_rotl (t78 XOR v79) 1; t86 = v69 XOR v73;
      v80 = i32_rotl (((v67 XOR v61) XOR v73) XOR v70) 1; v81 = i32_rotl ((t86 XOR v80) XOR v72) 1;
      t87 = v81; v82 = i32_rotl (((v68 XOR v62) XOR v74) XOR v80) 1; t88 = v82; t89 = v75; t90 = v64;
      t91 = v57; t92 = v56; t93 = v59; t94 = v48; t95 = v37; t96 = v27; t97 = v39; t98 = v32;
      t99 = v11; t100 = v9
      in fn6_r0 v2 v4 v5 v6 v7 v8 v10 v12 v13 v14 v15 v16 v17 v18 v19 v20 v21 v22 v23 v24 v25 v26 v28
         v29 v30 v31 v33 v34 v35 v36 v38 v40 v41 v42 v43 v44 v45 v46 v47 v49 v50 v51 v52 v53 v54 v55
         v58 v60 v61 v62 v63 v64 v65 v66 v67 v68 v69 v70 v71 v72 v73 v74 v75 v76 v77 v78 v79 v80 v81
         v82 t85 t87 t88 t89 t90 t91 t92 t93 t94 t95 t96 t97 t98 t99 t100)"

definition fn6_sched1 where
  "fn6_sched1 (v2 :: i32) v4 v5 v6 v7 v8 v9 v10 v11 v12 v13 v14 v15 v16 v17 v18 v19 v20 v21 v22 v23 v24
  v25 v26 v27 v29 v30 t6 t36 t37 t38 t39 t41 t42 t43 t44 =
     (let
      t45 = v23; v28 = t42; v31 = bswap32 v28; v28 = i32_rotl (((t45 XOR v31) XOR v30) XOR v20) 1;
      v32 = i32_rotl (t44 XOR v28) 1; v33 = i32_rotl (t43 XOR v32) 1; v34 = i32_rotl (t41 XOR v33) 1;
      v35 = i32_rotl (t39 XOR v34) 1; v36 = i32_rotl (t38 XOR v35) 1; v37 = i32_rotl (t37 XOR v36) 1;
      v38 = i32_rotl (t36 XOR v37) 1; t46 = v38; t47 = v25 XOR v32; t48 = (v20 XOR v29) XOR v32;
      v39 = i32_rotl (((v24 XOR v30) XOR v28) XOR v25) 1; v40 = i32_rotl (t48 XOR v39) 1;
      t49 = t47 XOR v40; v41 = i32_rotl (((v22 XOR v28) XOR v39) XOR v27) 1;
      v42 = i32_rotl (t49 XOR v41) 1; t50 = t46 XOR v42; t51 = (v27 XOR v40) XOR v42;
      v43 = i32_rotl (((v26 XOR v39) XOR v41) XOR v38) 1; v44 = i32_rotl (t51 XOR v43) 1;
      t52 = t50 XOR v44; t53 = (v37 XOR v41) XOR v43; t54 = (v36 XOR v27) XOR v38;
      t55 = (v35 XOR v26) XOR v37; t56 = (v34 XOR v19) XOR v36; t57 = (v33 XOR v18) XOR v35;
      t58 = (v32 XOR v17) XOR v34; v45 = i32_rotl (((v28 XOR v11) XOR v33) XOR v40) 1;
      v46 = i32_rotl (t58 XOR v45) 1; v47 = i32_rotl (t57 XOR v46) 1; v48 = i32_rotl (t56 XOR v47) 1;
      v49 = i32_rotl (t55 XOR v48) 1; v50 = i32_rotl (t54 XOR v49) 1; v51 = i32_rotl (t53 XOR v50) 1;
      v52 = i32_rotl (t52 XOR v51) 1
      in fn6_sched2 v2 v4 v5 v6 v7 v8 v9 v10 v11 v12 v13 v14 v15 v16 v17 v18 v19 v20 v21 v22 v23 v24
         v25 v26 v27 v28 v29 v30 v31 v32 v33 v34 v35 v36 v37 v38 v39 v40 v41 v42 v43 v44 v45 v46 v47
         v48 v49 v50 v51 v52 t6)"

definition fn6_load where
  "fn6_load m (v1 :: i32) v7 v6 v2 v5 v4 =
     do {
     t5 \<leftarrow> load32 m (unat (v1 + 36)); let t6 = v7; let v8 = t5; let v9 = bswap32 v8;
     t7 \<leftarrow> load32 m (unat (v1 + 28)); let t8 = v9; let v8 = t7; let v10 = bswap32 v8;
     t9 \<leftarrow> load32 m (unat (v1 + 60)); let t10 = t8 XOR v10; let v8 = t9; let v8 = bswap32 v8;
     t11 \<leftarrow> load32 m (unat (v1 + 24)); let t12 = t10 XOR v8; let v11 = t11;
     let v12 = bswap32 v11; t13 \<leftarrow> load32 m (unat (v1 + 16)); let t14 = v12; let v11 = t13;
     let v13 = bswap32 v11; t15 \<leftarrow> load32 m (unat (v1 + 48)); let t16 = t14 XOR v13;
     let v11 = t15; let v14 = bswap32 v11; t17 \<leftarrow> load32 m (unat (v1 + 12));
     let t18 = t16 XOR v14; let v11 = t17; let v15 = bswap32 v11;
     t19 \<leftarrow> load32 m (unat (v1 + 4)); let t20 = v15; let v11 = t19; let v16 = bswap32 v11;
     t21 \<leftarrow> load32 m (unat (v1 + 56)); let t22 = (t20 XOR v16) XOR v9; let v11 = t21;
     let v11 = bswap32 v11; let v17 = i32_rotl (t22 XOR v11) 1; let v18 = i32_rotl (t18 XOR v17) 1;
     let v19 = i32_rotl (t12 XOR v18) 1; t23 \<leftarrow> load32 m (unat (v1 + 20)); let t24 = v19;
     let t25 = v10; let v20 = t23; let v21 = bswap32 v20; t26 \<leftarrow> load32 m (unat (v1 + 52));
     let t27 = t25 XOR v21; let v20 = t26; let v20 = bswap32 v20;
     t28 \<leftarrow> load32 m (unat (v1 + 8)); let t29 = t27 XOR v20; let t30 = v13; let v22 = t28;
     let v23 = bswap32 v22; t31 \<leftarrow> load32 m (unat (v1 + 40)); let t32 = t30 XOR v23;
     let v22 = t31; let v24 = bswap32 v22; let v22 = i32_rotl ((t32 XOR v24) XOR v8) 1;
     let v25 = i32_rotl (t29 XOR v22) 1; let t33 = t24 XOR v25; let t34 = (v8 XOR v20) XOR v25;
     let v26 = i32_rotl (((v14 XOR v24) XOR v22) XOR v19) 1; let v27 = i32_rotl (t34 XOR v26) 1;
     t35 \<leftarrow> load32 m (unat (v1 + 44)); let t36 = t33 XOR v27;
     let t37 = (v18 XOR v22) XOR v26; let t38 = (v17 XOR v8) XOR v19; let t39 = (v11 XOR v14) XOR v18;
     let v28 = t35; let v29 = bswap32 v28; t40 \<leftarrow> load32 m (unat (v1 + 32));
     let t41 = (v29 XOR v9) XOR v17; let v28 = t40; let v30 = bswap32 v28;
     t42 \<leftarrow> load32 m (unat v1); let t43 = (v30 XOR v12) XOR v11;
     let t44 = (v21 XOR v15) XOR v29;
     Some (fn6_sched1 v2 v4 v5 v6 v7 v8 v9 v10 v11 v12 v13 v14 v15 v16 v17 v18 v19 v20 v21 v22 v23 v24
     v25 v26 v27 v29 v30 t6 t36 t37 t38 t39 t41 t42 t43 t44) }"

section \<open>The words the body computes\<close>

definition sha1_trace :: "(nat \<Rightarrow> i32) \<Rightarrow> (nat \<Rightarrow> i32) \<Rightarrow> (nat \<Rightarrow> i32) \<Rightarrow> (nat \<Rightarrow> i32) \<Rightarrow> bool" where
  "sha1_trace A R W L \<longleftrightarrow>
     (\<forall>t. R t = i32_rotl (A t) 30) \<and> (\<forall>t<16. W t = bswap32 (L t)) \<and>
     (\<forall>t. 16 \<le> t \<and> t < 80 \<longrightarrow>
        W t = i32_rotl (W (t - 3) XOR W (t - 8) XOR W (t - 14) XOR W (t - 16)) 1) \<and>
     (\<forall>t<80. A (t + 5) = i32_rotl (A (t + 4)) 5 + sha1_f t (A (t + 3)) (R (t + 2)) (R (t + 1)) +
        R t + sha1_k t + W t)"

lemma sha1_f_code:
  "t < 20 \<Longrightarrow> sha1_f t x y z = ((y XOR z) AND x) XOR z"
  "40 \<le> t \<Longrightarrow> t < 60 \<Longrightarrow> sha1_f t x y z = ((y XOR z) AND x) XOR (y AND z)"
  "20 \<le> t \<Longrightarrow> t < 40 \<Longrightarrow> sha1_f t x y z = (y XOR z) XOR x"
  "60 \<le> t \<Longrightarrow> sha1_f t x y z = (y XOR z) XOR x"
  by (simp_all add: sha1_f_def, (rule bit_word_eqI; auto simp: bit_simps)+)

lemma sha1_k_code:
  "t < 20 \<Longrightarrow> sha1_k t = 0x5a827999" "20 \<le> t \<Longrightarrow> t < 40 \<Longrightarrow> sha1_k t = 1859775393"
  "40 \<le> t \<Longrightarrow> t < 60 \<Longrightarrow> sha1_k t = - 1894007588" "60 \<le> t \<Longrightarrow> sha1_k t = - 899497514"
proof -
  have "(0x8f1bbcdc :: i32) = - 1894007588" "(0xca62c1d6 :: i32) = - 899497514" by code_simp+
  then show "t < 20 \<Longrightarrow> sha1_k t = 0x5a827999" "20 \<le> t \<Longrightarrow> t < 40 \<Longrightarrow> sha1_k t = 1859775393"
    "40 \<le> t \<Longrightarrow> t < 60 \<Longrightarrow> sha1_k t = - 1894007588" "60 \<le> t \<Longrightarrow> sha1_k t = - 899497514"
    by (simp_all only: sha1_k_def) simp_all
qed

lemma trace_load: "sha1_trace A R W L \<Longrightarrow> t < 16 \<Longrightarrow> bswap32 (L t) = W t"
  by (simp add: sha1_trace_def)

lemma trace_rot: "sha1_trace A R W L \<Longrightarrow> i32_rotl (A t) 30 = R t"
  by (simp add: sha1_trace_def)

lemma trace_word:
  assumes "sha1_trace A R W L" "j = t + 2" "k = t + 8" "l = t + 13" "t < 64"
  shows "i32_rotl (((W j XOR W t) XOR W k) XOR W l) 1 = W (t + 16)"
proof -
  have "W (t + 16) = i32_rotl (W (t + 13) XOR W (t + 8) XOR W (t + 2) XOR W t) 1"
    using assms(1,5) by (auto simp: sha1_trace_def add.commute)
  then show ?thesis unfolding assms(2-4) by (simp only: ac_simps)
qed

lemma trace_round:
  assumes "sha1_trace A R W L" "t < 80"
  shows "A (t + 5) = i32_rotl (A (t + 4)) 5 + sha1_f t (A (t + 3)) (R (t + 2)) (R (t + 1)) +
    R t + sha1_k t + W t"
  using assms by (simp add: sha1_trace_def)

lemma trace_ch:
  assumes "sha1_trace A R W L" "k = t + 1" "l = t + 2" "m = t + 3" "n = t + 4" "t < 20"
  shows "W t + R t + (((R l XOR R k) AND A m) XOR R k) + i32_rotl (A n) 5 + 0x5a827999 = A (t + 5)"
    "W t + R t + ((A m AND (R l XOR R k)) XOR R k) + i32_rotl (A n) 5 + 0x5a827999 = A (t + 5)"
    "R t + (((R l XOR R k) AND A m) XOR R k) + W t + i32_rotl (A n) 5 + 0x5a827999 = A (t + 5)"
    "R t + (((R l XOR R k) AND A m) XOR R k) + i32_rotl (A n) 5 + W t + 0x5a827999 = A (t + 5)"
    "R t + W t + (((R l XOR R k) AND A m) XOR R k) + i32_rotl (A n) 5 + 0x5a827999 = A (t + 5)"
    "R t + W t + ((A m AND (R l XOR R k)) XOR R k) + i32_rotl (A n) 5 + 0x5a827999 = A (t + 5)"
  using trace_round [OF assms(1), of t] assms(6) unfolding assms(2-5)
  by (simp_all add: sha1_f_code sha1_k_code ac_simps)

lemma trace_maj:
  assumes "sha1_trace A R W L" "k = t + 1" "l = t + 2" "m = t + 3" "n = t + 4" "40 \<le> t" "t < 60"
  shows "W t + R t + (((R l XOR R k) AND A m) XOR (R l AND R k)) + i32_rotl (A n) 5 + (- 1894007588) = A (t + 5)"
    "W t + R t + ((A m AND (R l XOR R k)) XOR (R l AND R k)) + i32_rotl (A n) 5 + (- 1894007588) = A (t + 5)"
  using trace_round [OF assms(1), of t] assms(6-) unfolding assms(2-5)
  by (simp_all add: sha1_f_code sha1_k_code ac_simps)

lemma trace_parity:
  assumes "sha1_trace A R W L" "k = t + 1" "l = t + 2" "m = t + 3" "n = t + 4"
  shows "20 \<le> t \<Longrightarrow> t < 40 \<Longrightarrow>
      W t + R t + ((R l XOR R k) XOR A m) + i32_rotl (A n) 5 + 1859775393 = A (t + 5)"
    "60 \<le> t \<Longrightarrow> t < 80 \<Longrightarrow>
      W t + R t + ((R l XOR R k) XOR A m) + i32_rotl (A n) 5 + (- 899497514) = A (t + 5)"
    "60 \<le> t \<Longrightarrow> t < 80 \<Longrightarrow>
      h + W t + R t + ((R l XOR R k) XOR A m) + i32_rotl (A n) 5 + (- 899497514) = A (t + 5) + h"
  using trace_round [OF assms(1), of t] unfolding assms(2-5)
  by (simp_all add: sha1_f_code sha1_k_code ac_simps)

lemmas trace_folds = trace_load trace_rot trace_word trace_ch trace_maj trace_parity

lemmas index_simps = arith_simps rel_simps one_plus_numeral numeral_plus_one add_0

lemma fn6_r70_trace:
  assumes "sha1_trace A R W L"
  shows "fn6_r70 (R 2) (R 0) (R 1) (A 3) (R 72) (A 73) (A 74) (R 71) (R 70) (R 74) (R 73) (W 56)
      (W 59) (W 62) (W 63) (W 58) (W 61) (W 64) (W 67) (W 70) (W 73) (W 76) (W 74) (W 69)
      (A 4 + W 79) (W 74 + R 74) (W 71 + R 71) (R 73) =
      (A 84 + A 4, A 83 + A 3, R 82 + R 2, R 81 + R 1, R 80 + R 0)"
  unfolding fn6_r70_def by (simp only: Let_def trace_folds [OF assms] index_simps cong: let_weak_cong)

lemma fn6_r60_trace:
  assumes "sha1_trace A R W L"
  shows "fn6_r60 (R 2) (R 0) (R 1) (A 3) (A 63) (R 60) (R 61) (A 64) (R 64) (R 63) (R 62) (W 56)
      (W 59) (W 62) (W 65) (W 60) (W 63) (W 68) (W 71) (W 58) (W 61) (W 64) (W 67) (W 70) (W 73)
      (W 76) (W 66) (W 74) (W 69) (A 4 + W 79) (W 74) (W 69) (W 64 + R 64) (W 61 + R 61) (R 63) =
      (A 84 + A 4, A 83 + A 3, R 82 + R 2, R 81 + R 1, R 80 + R 0)"
  unfolding fn6_r60_def by (simp only: Let_def trace_folds [OF assms] index_simps
      fn6_r70_trace [OF assms] cong: let_weak_cong)

lemma fn6_r50_trace:
  assumes "sha1_trace A R W L"
  shows "fn6_r50 (R 2) (R 0) (R 1) (A 3) (R 54) (R 52) (R 51) (R 50) (A 53) (A 54) (W 51) (W 57)
      (W 50) (W 53) (W 56) (W 59) (W 62) (W 65) (W 55) (W 60) (W 63) (W 68) (W 71) (W 58) (W 61)
      (W 64) (W 67) (W 70) (W 73) (W 76) (W 66) (W 74) (W 69) (A 4 + W 79) (W 74) (W 69) (W 64)
      (W 59) (W 54 + R 54) (W 52) =
      (A 84 + A 4, A 83 + A 3, R 82 + R 2, R 81 + R 1, R 80 + R 0)"
  unfolding fn6_r50_def by (simp only: Let_def trace_folds [OF assms] index_simps
      fn6_r60_trace [OF assms] cong: let_weak_cong)

lemma fn6_r40_trace:
  assumes "sha1_trace A R W L"
  shows "fn6_r40 (R 2) (R 0) (R 1) (A 3) (R 44) (R 43) (R 42) (R 41) (R 40) (A 43) (A 44) (W 40)
      (W 43) (W 42) (W 45) (W 48) (W 51) (W 46) (W 57) (W 47) (W 50) (W 53) (W 56) (W 59) (W 62)
      (W 65) (W 52) (W 55) (W 60) (W 63) (W 68) (W 71) (W 58) (W 61) (W 64) (W 67) (W 70) (W 73)
      (W 76) (W 66) (W 74) (W 69) (A 4 + W 79) (W 74) (W 69) (W 64) (W 59) (W 54) (W 49)
      (W 44 + R 44) (W 41 + R 41) (R 43) =
      (A 84 + A 4, A 83 + A 3, R 82 + R 2, R 81 + R 1, R 80 + R 0)"
  unfolding fn6_r40_def by (simp only: Let_def trace_folds [OF assms] index_simps
      fn6_r50_trace [OF assms] cong: let_weak_cong)

lemma fn6_r30_trace:
  assumes "sha1_trace A R W L"
  shows "fn6_r30 (R 2) (R 0) (R 1) (A 3) (R 32) (A 33) (A 34) (R 31) (R 30) (R 34) (R 33) (W 37)
      (W 32) (W 35) (W 40) (W 43) (W 30) (W 33) (W 36) (W 42) (W 45) (W 48) (W 51) (W 38) (W 41)
      (W 46) (W 57) (W 47) (W 50) (W 53) (W 56) (W 59) (W 62) (W 65) (W 52) (W 55) (W 60) (W 63)
      (W 68) (W 71) (W 58) (W 61) (W 64) (W 67) (W 70) (W 73) (W 76) (W 66) (W 74) (W 69)
      (A 4 + W 79) (W 74) (W 69) (W 64) (W 59) (W 54) (W 49) (W 44) (W 39) (W 34 + R 34)
      (W 31 + R 31) (R 33) =
      (A 84 + A 4, A 83 + A 3, R 82 + R 2, R 81 + R 1, R 80 + R 0)"
  unfolding fn6_r30_def by (simp only: Let_def trace_folds [OF assms] index_simps
      fn6_r40_trace [OF assms] cong: let_weak_cong)

lemma fn6_r20_trace:
  assumes "sha1_trace A R W L"
  shows "fn6_r20 (R 2) (R 0) (R 1) (A 3) (R 20) (A 23) (A 24) (R 24) (W 20) (W 23) (R 23) (R 22)
      (W 26) (R 21) (W 22) (W 25) (W 28) (W 31) (W 37) (W 27) (W 32) (W 35) (W 40) (W 43) (W 30)
      (W 33) (W 36) (W 42) (W 45) (W 48) (W 51) (W 38) (W 41) (W 46) (W 57) (W 47) (W 50) (W 53)
      (W 56) (W 59) (W 62) (W 65) (W 52) (W 55) (W 60) (W 63) (W 68) (W 71) (W 58) (W 61) (W 64)
      (W 67) (W 70) (W 73) (W 76) (W 66) (W 74) (W 69) (A 4 + W 79) (W 74) (W 69) (W 64) (W 59)
      (W 54) (W 49) (W 44) (W 39) (W 34) (W 29) (W 24 + R 24) (W 21 + R 21) (R 23) =
      (A 84 + A 4, A 83 + A 3, R 82 + R 2, R 81 + R 1, R 80 + R 0)"
  unfolding fn6_r20_def by (simp only: Let_def trace_folds [OF assms] index_simps
      fn6_r30_trace [OF assms] cong: let_weak_cong)

lemma fn6_r10_trace:
  assumes "sha1_trace A R W L"
  shows "fn6_r10 (R 2) (R 0) (R 1) (A 3) (R 11) (W 15) (R 14) (R 12) (R 10) (W 17) (W 20) (W 23)
      (W 13) (W 18) (W 10) (W 21) (W 26) (W 16) (W 11) (A 13) (W 22) (W 25) (W 28) (W 31) (W 37)
      (W 27) (W 32) (W 35) (W 40) (W 43) (W 30) (W 33) (W 36) (W 42) (W 45) (W 48) (W 51) (W 38)
      (W 41) (W 46) (W 57) (W 47) (W 50) (W 53) (W 56) (W 59) (W 62) (W 65) (W 52) (W 55) (W 60)
      (W 63) (W 68) (W 71) (W 58) (W 61) (W 64) (W 67) (W 70) (W 73) (W 76) (W 66) (W 74) (W 69)
      (A 14) (A 4 + W 79) (W 74) (W 69) (W 64) (W 59) (W 54) (W 49) (W 44) (W 39) (W 34) (W 29)
      (W 24) (W 19) (W 14 + R 14) (W 12) =
      (A 84 + A 4, A 83 + A 3, R 82 + R 2, R 81 + R 1, R 80 + R 0)"
  unfolding fn6_r10_def by (simp only: Let_def trace_folds [OF assms] index_simps
      fn6_r20_trace [OF assms] cong: let_weak_cong)

lemma fn6_r0_trace:
  assumes "sha1_trace A R W L"
  shows "fn6_r0 (R 2) (R 0) (R 1) (A 3) (A 4) (W 15) (W 7) (W 6) (W 4) (W 12) (W 3) (W 1) (W 17)
      (W 20) (W 23) (W 13) (W 5) (W 18) (W 2) (W 10) (W 21) (W 26) (W 16) (W 11) (W 8) (W 0) (W 22)
      (W 25) (W 28) (W 31) (W 37) (W 27) (W 32) (W 35) (W 40) (W 43) (W 30) (W 33) (W 36) (W 42)
      (W 45) (W 48) (W 51) (W 38) (W 41) (W 46) (W 57) (W 47) (W 50) (W 53) (W 56) (W 59) (W 62)
      (W 65) (W 52) (W 55) (W 60) (W 63) (W 68) (W 71) (W 58) (W 61) (W 64) (W 67) (W 70) (W 73)
      (W 76) (W 66) (W 74) (W 69) (A 4 + W 79) (W 74) (W 69) (W 64) (W 59) (W 54) (W 49) (W 44)
      (W 39) (W 34) (W 29) (W 24) (W 19) (W 14) (W 9) =
      (A 84 + A 4, A 83 + A 3, R 82 + R 2, R 81 + R 1, R 80 + R 0)"
  unfolding fn6_r0_def by (simp only: Let_def trace_folds [OF assms] index_simps
      fn6_r10_trace [OF assms] cong: let_weak_cong)

lemma fn6_sched2_trace:
  assumes "sha1_trace A R W L"
  shows "fn6_sched2 (R 2) (R 0) (R 1) (A 3) (A 4) (W 15) (W 9) (W 7) (W 14) (W 6) (W 4) (W 12) (W 3)
      (W 1) (W 17) (W 20) (W 23) (W 13) (W 5) (W 18) (W 2) (W 10) (W 21) (W 26) (W 29) (W 16)
      (W 11) (W 8) (W 0) (W 19) (W 22) (W 25) (W 28) (W 31) (W 34) (W 37) (W 24) (W 27) (W 32)
      (W 35) (W 40) (W 43) (W 30) (W 33) (W 36) (W 39) (W 42) (W 45) (W 48) (W 51) (A 4) =
      (A 84 + A 4, A 83 + A 3, R 82 + R 2, R 81 + R 1, R 80 + R 0)"
  unfolding fn6_sched2_def by (simp only: Let_def trace_folds [OF assms] index_simps
      fn6_r0_trace [OF assms] cong: let_weak_cong)

lemma fn6_sched1_trace:
  assumes "sha1_trace A R W L"
  shows "fn6_sched1 (R 2) (R 0) (R 1) (A 3) (A 4) (W 15) (W 9) (W 7) (W 14) (W 6) (W 4) (W 12) (W 3)
      (W 1) (W 17) (W 20) (W 23) (W 13) (W 5) (W 18) (W 2) (W 10) (W 21) (W 26) (W 29) (W 11) (W 8)
      (A 4) ((W 23 XOR W 21) XOR W 29) ((W 20 XOR W 18) XOR W 26) ((W 17 XOR W 15) XOR W 23)
      ((W 14 XOR W 12) XOR W 20) ((W 11 XOR W 9) XOR W 17) (L 0) ((W 8 XOR W 6) XOR W 14)
      ((W 5 XOR W 3) XOR W 11) =
      (A 84 + A 4, A 83 + A 3, R 82 + R 2, R 81 + R 1, R 80 + R 0)"
  unfolding fn6_sched1_def by (simp only: Let_def trace_folds [OF assms] index_simps
      fn6_sched2_trace [OF assms] cong: let_weak_cong)

lemma fn6_load_trace:
  assumes "sha1_trace A R W L"
    and loads: "\<And>k. k < 16 \<Longrightarrow> load32 m (unat (v1 + 4 * of_nat k)) = Some (L k)"
  shows "fn6_load m v1 (A 4) (A 3) (R 2) (R 1) (R 0) =
    Some (A 84 + A 4, A 83 + A 3, R 82 + R 2, R 81 + R 1, R 80 + R 0)"
proof -
  have l: "load32 m (unat v1) = Some (L 0)" "load32 m (unat (v1 + 4)) = Some (L 1)"
    "load32 m (unat (v1 + 8)) = Some (L 2)" "load32 m (unat (v1 + 12)) = Some (L 3)"
    "load32 m (unat (v1 + 16)) = Some (L 4)" "load32 m (unat (v1 + 20)) = Some (L 5)"
    "load32 m (unat (v1 + 24)) = Some (L 6)" "load32 m (unat (v1 + 28)) = Some (L 7)"
    "load32 m (unat (v1 + 32)) = Some (L 8)" "load32 m (unat (v1 + 36)) = Some (L 9)"
    "load32 m (unat (v1 + 40)) = Some (L 10)" "load32 m (unat (v1 + 44)) = Some (L 11)"
    "load32 m (unat (v1 + 48)) = Some (L 12)" "load32 m (unat (v1 + 52)) = Some (L 13)"
    "load32 m (unat (v1 + 56)) = Some (L 14)" "load32 m (unat (v1 + 60)) = Some (L 15)"
    using loads [of 0] loads [of 1] loads [of 2] loads [of 3] loads [of 4] loads [of 5]
      loads [of 6] loads [of 7] loads [of 8] loads [of 9] loads [of 10] loads [of 11]
      loads [of 12] loads [of 13] loads [of 14] loads [of 15] by simp_all
  have lt: "(0::nat) < 16" "(1::nat) < 16" by simp_all
  show ?thesis
    unfolding fn6_load_def
    by (simp only: l Option.bind.bind_lunit Let_def trace_folds [OF assms(1)] lt index_simps
        fn6_sched1_trace [OF assms(1)] cong: let_weak_cong)
qed

section \<open>One block\<close>

text \<open>The trace of a block: the code's words at index \<open>n + 4\<close> are the first word after \<open>n\<close> rounds.\<close>

fun trace_a :: "i32 list \<Rightarrow> sha1_state \<Rightarrow> nat \<Rightarrow> i32" where
  "trace_a ws (a, b, c, d, e) n =
     (if n = 0 then word_rotr 30 e else if n = 1 then word_rotr 30 d
      else if n = 2 then word_rotr 30 c else if n = 3 then b
      else fst (sha1_rounds ws (n - 4) (a, b, c, d, e)))"

lemma i32_rotl_eq [simp]:
  "i32_rotl x 1 = word_rotl 1 x" "i32_rotl x 5 = word_rotl 5 x" "i32_rotl x 30 = word_rotl 30 x"
  by (simp_all add: i32_rotl_def)

lemma sha1_rounds_trace:
  "sha1_rounds ws n h = (trace_a ws h (n + 4), trace_a ws h (n + 3), word_rotl 30 (trace_a ws h (n + 2)),
     word_rotl 30 (trace_a ws h (n + 1)), word_rotl 30 (trace_a ws h n))"
proof (induction n)
  case 0
  then show ?case by (cases h rule: sha1_digest.cases) (simp add: word_rot_lr)
next
  case (Suc n)
  have "fst (sha1_rounds ws (Suc n) h) = trace_a ws h (n + 5)"
    by (cases h rule: sha1_digest.cases) simp
  then show ?case using Suc by (simp add: numeral_eq_Suc)
qed

lemma trace_of_block:
  assumes "length ws = 16" "\<And>k. k < 16 \<Longrightarrow> ws ! k = bswap32 (L k)"
  shows "sha1_trace (trace_a (sha1_schedule ws) h) (\<lambda>n. word_rotl 30 (trace_a (sha1_schedule ws) h n))
    (\<lambda>t. sha1_schedule ws ! t) L"
proof -
  let ?A = "trace_a (sha1_schedule ws) h"
  have "?A (t + 5) = i32_rotl (?A (t + 4)) 5 +
      sha1_f t (?A (t + 3)) (word_rotl 30 (?A (t + 2))) (word_rotl 30 (?A (t + 1))) +
      word_rotl 30 (?A t) + sha1_k t + sha1_schedule ws ! t" for t
    using sha1_rounds_trace [of "sha1_schedule ws" "Suc t" h] sha1_rounds_trace [of "sha1_schedule ws" t h]
    by (simp add: numeral_eq_Suc)
  then show ?thesis
    using assms sha1_schedule_nth [OF _ _ assms(1)]
    by (simp add: sha1_trace_def sha1_schedule_block ac_simps)
qed

lemma fn6_load_compress:
  assumes "length ws = 16" "\<And>k. k < 16 \<Longrightarrow> ws ! k = bswap32 (L k)"
    "\<And>k. k < 16 \<Longrightarrow> load32 m (unat (v1 + 4 * of_nat k)) = Some (L k)"
  shows "fn6_load m v1 v7 v6 v2 v5 v4 = Some (sha1_compress (v7, v6, v2, v5, v4) ws)"
proof -
  let ?h = "(v7, v6, v2, v5, v4)"
  have "sha1_rounds (sha1_schedule ws) 0 ?h = ?h" "sha1_compress ?h ws = sha1_add (sha1_rounds (sha1_schedule ws) 80 ?h) ?h"
    by (simp_all add: sha1_compress_def)
  then show ?thesis
    using fn6_load_trace [OF trace_of_block [OF assms(1,2), where h = ?h] assms(3)]
    unfolding sha1_rounds_trace by simp
qed

section \<open>Blocks in memory\<close>

text \<open>
  \<open>fn6\<close> reads the state at \<open>v0\<close>, compresses \<open>v2\<close> blocks from \<open>v1\<close> on, one per turn of the
  loop \<open>l1\<close>, and writes the state back. The loop runs until \<open>v1\<close> reaches \<open>v3\<close>.
\<close>

partial_function (option) fn6_loop :: "mem \<Rightarrow> i32 \<Rightarrow> i32 \<Rightarrow> sha1_state \<Rightarrow> sha1_state option" where
  "fn6_loop m v1 v3 h =
     do { let (v7, v6, v2, v5, v4) = h;
          h' \<leftarrow> fn6_load m v1 v7 v6 v2 v5 v4;
          let v1 = v1 + 64;
          if v1 \<noteq> v3 then fn6_loop m v1 v3 h' else Some h' }"

definition fn6_put :: "mem \<Rightarrow> i32 \<Rightarrow> sha1_state \<Rightarrow> mem option" where
  "fn6_put m v0 h =
     do { let (v7, v6, v2, v5, v4) = h;
          m \<leftarrow> store32 m (unat v0 + 16) v4;
          m \<leftarrow> store32 m (unat v0 + 12) v5;
          m \<leftarrow> store32 m (unat v0 + 8) v2;
          m \<leftarrow> store32 m (unat v0 + 4) v6;
          store32 m (unat v0) v7 }"

definition fn6 :: "mem \<Rightarrow> i32 \<Rightarrow> i32 \<Rightarrow> i32 \<Rightarrow> mem option" where
  "fn6 m v0 v1 v2 =
     (if v2 = 0 then Some m else
      do { let v3 = v1 + push_bit 6 v2;
           v4 \<leftarrow> load32 m (unat v0 + 16);
           v5 \<leftarrow> load32 m (unat v0 + 12);
           v2 \<leftarrow> load32 m (unat v0 + 8);
           v6 \<leftarrow> load32 m (unat v0 + 4);
           v7 \<leftarrow> load32 m (unat v0);
           h \<leftarrow> fn6_loop m v1 v3 (v7, v6, v2, v5, v4);
           fn6_put m v0 h })"

text \<open>The state in memory: five little-endian words.\<close>

fun state_bytes :: "sha1_state \<Rightarrow> u8 list" where
  "state_bytes (a, b, c, d, e) = concat (map le_bytes4 [a, b, c, d, e])"

lemma length_state_bytes [simp]: "length (state_bytes h) = 20"
  by (cases h rule: state_bytes.cases) simp

lemma bswap32_bytes: "bswap32 (le32 b0 b1 b2 b3) = le32 b3 b2 b1 b0"
proof -
  let ?x = "le32 b0 b1 b2 b3"
  have m: "(- 0xff0100 :: i32) = 0xff00ff00" by code_simp
  have b: "bswap32 ?x = drop_bit 8 ((?x XOR word_rotr 16 ?x) AND 0xff00ff00) XOR word_rotr 8 ?x"
    by (simp add: bswap32_def i32_rotr_def m)
  have "ucast (bswap32 ?x) = b3" "ucast (drop_bit 8 (bswap32 ?x)) = b2"
    "ucast (drop_bit 16 (bswap32 ?x)) = b1" "ucast (drop_bit 24 (bswap32 ?x)) = b0"
    unfolding b by (rule eq_bits_u8; auto simp: bit_eval bit_word_rotr_iff bit_le32)+
  then show ?thesis using le32_bytes [of "bswap32 ?x"] by simp
qed

lemma be_word_bytes: "be_word [b0, b1, b2, b3] = le32 b3 b2 b1 b0"
  unfolding be_word_def le32_def by (simp add: push_bit_or ac_simps)

lemma load_le_bytes4:
  assumes "a + 3 < msize m" "bytes_at m a 4 = le_bytes4 w" shows "load32 m a = Some w"
proof -
  have "mbytes m (a + i) = le_bytes4 w ! i" if "i < 4" for i
    using that by (metis assms(2) nth_bytes_at)
  from this [of 0] this [of 1] this [of 2] this [of 3] show ?thesis
    using assms(1) by (simp add: load_in_bounds le_bytes4_def)
qed

lemma block_loads:
  assumes "unat (v1 :: i32) + 64 \<le> msize m" "msize m \<le> 4294967296" "k < 16"
  shows "\<exists>w. load32 m (unat (v1 + 4 * of_nat k)) = Some w \<and> block_words (bytes_at m (unat v1) 64) ! k = bswap32 w"
proof -
  have u: "unat (4 * of_nat k :: i32) = 4 * k"
    using assms(3) unat_of_nat_i32 [of "4 * k"] by simp
  have a: "unat (v1 + 4 * of_nat k) = unat v1 + 4 * k"
    using assms unat_plus_i32 [of v1 "4 * of_nat k"] by (simp add: u)
  have "take 4 (drop (4 * k) (bytes_at m (unat v1) 64)) = bytes_at m (unat v1 + 4 * k) 4"
    using assms(3) by (intro nth_equalityI) (auto simp: ac_simps)
  also have "\<dots> = (let b = (\<lambda>i. mbytes m (unat v1 + 4 * k + i)) in [b 0, b 1, b 2, b 3])"
    by (simp add: bytes_at_def upt_rec numeral_eq_Suc)
  finally have "block_words (bytes_at m (unat v1) 64) ! k =
      be_word (let b = (\<lambda>i. mbytes m (unat v1 + 4 * k + i)) in [b 0, b 1, b 2, b 3])"
    using assms(3) by (simp add: block_words_def)
  moreover have "unat v1 + 4 * k + 3 < msize m" using assms(1,3) by simp
  ultimately show ?thesis
    unfolding a by (simp add: load_in_bounds be_word_bytes bswap32_bytes)
qed

lemma fn6_load_block:
  assumes "unat (v1 :: i32) + 64 \<le> msize m" "msize m \<le> 4294967296"
  shows "fn6_load m v1 v7 v6 v2 v5 v4 =
    Some (sha1_compress (v7, v6, v2, v5, v4) (block_words (bytes_at m (unat v1) 64)))"
proof -
  define L where "L k = the (load32 m (unat (v1 + 4 * of_nat k)))" for k :: nat
  show ?thesis
    using block_loads [OF assms] by (intro fn6_load_compress [where L = L]) (force simp: L_def)+
qed

lemma fn6_loop_blocks:
  assumes "unat v1 + 64 * n \<le> msize m" "msize m \<le> 4294967296" "0 < n" "v3 = v1 + of_nat (64 * n)"
  shows "fn6_loop m v1 v3 h = Some (sha1_blocks n (bytes_at m (unat v1) (64 * n)) h)"
  using assms
proof (induction n arbitrary: v1 h)
  case (Suc n)
  obtain v7 v6 v2 v5 v4 where h: "h = (v7, v6, v2, v5, v4)" by (cases h rule: sha1_digest.cases)
  let ?h = "sha1_compress h (block_words (bytes_at m (unat v1) 64))"
  have load: "fn6_load m v1 v7 v6 v2 v5 v4 = Some ?h"
    using Suc.prems(1,2) unfolding h by (intro fn6_load_block) simp_all
  have take: "take 64 (bytes_at m (unat v1) (64 * Suc n)) = bytes_at m (unat v1) 64"
    "drop 64 (bytes_at m (unat v1) (64 * Suc n)) = bytes_at m (unat v1 + 64) (64 * n)"
    by (rule nth_equalityI; simp add: ac_simps)+
  show ?case
  proof (cases "n = 0")
    case True
    with Suc.prems(4) load take show ?thesis by (subst fn6_loop.simps) (simp add: h)
  next
    case False
    have u: "unat (of_nat (64 * n) :: i32) = 64 * n"
      by (rule unat_of_nat_i32) (use Suc.prems(1,2) in simp)
    with False have "(of_nat (64 * n) :: i32) \<noteq> 0" by (metis mult_eq_0_iff unsigned_0 zero_neq_numeral)
    moreover have v3: "v3 = (v1 + 64) + of_nat (64 * n)" using Suc.prems(4) by (simp add: algebra_simps)
    ultimately have "v1 + 64 \<noteq> v3" by simp
    moreover have v1: "unat (v1 + 64) = unat v1 + 64"
      using False Suc.prems(1,2) by (intro unat_plus_numeral_i32) simp
    moreover have "fn6_loop m (v1 + 64) v3 ?h = Some (sha1_blocks n (bytes_at m (unat (v1 + 64)) (64 * n)) ?h)"
      by (rule Suc.IH) (use False Suc.prems(1,2) v3 v1 in simp_all)
    ultimately show ?thesis using load take by (subst fn6_loop.simps) (simp add: h)
  qed
qed simp

lemma bytes_at_append: "bytes_at m a (j + k) = bytes_at m a j @ bytes_at m (a + j) k"
  by (rule nth_equalityI) (auto simp: nth_append)

lemma load_state:
  assumes "p + 20 \<le> msize m" "bytes_at m p 20 = state_bytes (a, b, c, d, e)"
  shows "load32 m p = Some a" "load32 m (p + 4) = Some b" "load32 m (p + 8) = Some c"
    "load32 m (p + 12) = Some d" "load32 m (p + 16) = Some e"
proof -
  have "bytes_at m p 20 = bytes_at m p 4 @ bytes_at m (p + 4) 4 @ bytes_at m (p + 8) 4 @
      bytes_at m (p + 12) 4 @ bytes_at m (p + 16) 4"
    using bytes_at_append [of m p 4 16] bytes_at_append [of m "p + 4" 4 12]
      bytes_at_append [of m "p + 8" 4 8] bytes_at_append [of m "p + 12" 4 4]
    by (simp add: add.assoc)
  then have "bytes_at m p 4 = le_bytes4 a" "bytes_at m (p + 4) 4 = le_bytes4 b"
    "bytes_at m (p + 8) 4 = le_bytes4 c" "bytes_at m (p + 12) 4 = le_bytes4 d"
    "bytes_at m (p + 16) 4 = le_bytes4 e"
    using assms(2) by (simp_all add: append_eq_append_conv)
  then show "load32 m p = Some a" "load32 m (p + 4) = Some b" "load32 m (p + 8) = Some c"
    "load32 m (p + 12) = Some d" "load32 m (p + 16) = Some e"
    using assms(1) by (auto intro!: load_le_bytes4 simp: add.assoc)
qed

lemma store_state:
  assumes "p + 20 \<le> msize m"
  shows "do { m \<leftarrow> store32 m (p + 16) e; m \<leftarrow> store32 m (p + 12) d; m \<leftarrow> store32 m (p + 8) c;
      m \<leftarrow> store32 m (p + 4) b; store32 m p a } = Some (put_bytes p (state_bytes (a, b, c, d, e)) m)"
  using assms by (simp add: store32_put_bytes put_bytes_append)

lemma fn6_spec:
  assumes "unat v0 + 20 \<le> msize m" "bytes_at m (unat v0) 20 = state_bytes h"
    "unat v1 + 64 * n \<le> msize m" "msize m \<le> 4294967296" "v2 = of_nat n" "n < 67108864"
  shows "fn6 m v0 v1 v2 = Some (put_bytes (unat v0)
    (state_bytes (sha1_blocks n (bytes_at m (unat v1) (64 * n)) h)) m)"
proof (cases "n = 0")
  case True
  with assms(2,5) show ?thesis by (simp add: fn6_def flip: assms(2))
next
  case False
  obtain a b c d e where h: "h = (a, b, c, d, e)" by (cases h rule: sha1_digest.cases)
  let ?h = "sha1_blocks n (bytes_at m (unat v1) (64 * n)) h"
  obtain a' b' c' d' e' where h': "?h = (a', b', c', d', e')" by (cases ?h rule: sha1_digest.cases)
  have "unat v2 = n" unfolding assms(5) by (rule unat_of_nat_i32) (use assms(6) in simp)
  with False have "v2 \<noteq> 0" by auto
  moreover have "push_bit 6 v2 = of_nat (64 * n)" by (simp add: assms(5) push_bit_eq_mult)
  moreover have "fn6_loop m v1 (v1 + of_nat (64 * n)) (a, b, c, d, e) = Some (a', b', c', d', e')"
    using fn6_loop_blocks [OF assms(3,4), of _ h] False h' unfolding h by simp
  ultimately show ?thesis
    unfolding fn6_def fn6_put_def h'
    using load_state [OF assms(1) assms(2) [unfolded h]] store_state [OF assms(1), of e' d' c' b' a']
    by simp
qed

text \<open>A memory for witnesses: the initial state at 0, then 172 bytes to hash.\<close>

definition sample_blocks :: mem where
  "sample_blocks = put_bytes 0 (state_bytes sha1_init) \<lparr>msize = 192, mbytes = of_nat\<rparr>"

section \<open>Properties\<close>

text \<open>
  C10. The unrolled loop body is the SHA-1 compression function: on any block that lies in the
  memory and any five state words, its 473 assignments compute what FIPS 180-4 prescribes, with
  the 80-word schedule and the 80 rounds written as recursions.
\<close>

theorem unrolled_body_is_sha1:
  assumes "unat (v1 :: i32) + 64 \<le> msize m" "msize m \<le> 4294967296"
  shows "fn6_load m v1 v7 v6 v2 v5 v4 =
    Some (sha1_compress (v7, v6, v2, v5, v4) (block_words (bytes_at m (unat v1) 64)))"
  by (rule fn6_load_block [OF assms])

theorem unrolled_body_is_sha1_witness:
  "fn6_load \<lparr>msize = 64, mbytes = of_nat\<rparr> 0 1 2 3 4 5 =
    Some (sha1_compress (1, 2, 3, 4, 5) (block_words (bytes_at \<lparr>msize = 64, mbytes = of_nat\<rparr> (unat (0 :: i32)) 64)))"
  by (rule unrolled_body_is_sha1) simp_all

text \<open>
  C12. \<open>fn6\<close> terminates on every run of blocks that lies in the memory, panics nowhere, and
  changes nothing but the twenty bytes of the state: they become the state after all the blocks,
  in order, from the state they held.
\<close>

theorem fn6_compresses_blocks:
  assumes "unat v0 + 20 \<le> msize m" "bytes_at m (unat v0) 20 = state_bytes h"
    "unat v1 + 64 * unat v2 \<le> msize m" "msize m \<le> 4294967296" "unat v2 < 67108864"
  shows "fn6 m v0 v1 v2 = Some (put_bytes (unat v0)
    (state_bytes (sha1_blocks (unat v2) (bytes_at m (unat v1) (64 * unat v2)) h)) m)"
  by (rule fn6_spec [OF assms(1-4) _ assms(5)]) simp

theorem fn6_compresses_blocks_witness:
  "fn6 sample_blocks 0 64 2 = Some (put_bytes (unat (0 :: i32))
    (state_bytes (sha1_blocks (unat (2 :: i32)) (bytes_at sample_blocks (unat (64 :: i32)) (64 * unat (2 :: i32))) sha1_init))
    sample_blocks)"
  by (rule fn6_compresses_blocks) (simp_all add: sample_blocks_def)

end
