(* ===== verification/Core_V5.thy ===== *)
theory Core_V5
  imports Core_Sha1 Core_V4
begin

text \<open>
  \<open>Xuuid_new_v5\<close> of \<open>src/go/internal/core/core.go\<close>. Its 160-byte stack frame holds the SHA-1
  state at +8, a copy of the block to compress at +32 and the block being filled at +96. The
  function is translated in the pieces its labels delimit: \<open>v5_start\<close> (up to \<open>l0\<close>), \<open>v5_long\<close>
  (\<open>l0\<close> to \<open>l1\<close>, where the first block is full), \<open>v5_pad\<close> (\<open>l1\<close> to \<open>l2\<close>) and \<open>v5_finish\<close>. The
  result: the caller's sixteen bytes are the SHA-1 of namespace and name, cut to sixteen and
  stamped with version 5.
\<close>

section \<open>The function\<close>

text \<open>The eight loads and stores by which the block at +96 is copied to +32, twice in the code.\<close>

definition v5_copy_block :: "nat \<Rightarrow> mem \<Rightarrow> mem option" where
  "v5_copy_block a m =
     do { t8 \<leftarrow> load64 m (a + 152);
          m \<leftarrow> store64 m (a + 88) t8;
          t9 \<leftarrow> load64 m (a + 144);
          m \<leftarrow> store64 m (a + 80) t9;
          t10 \<leftarrow> load64 m (a + 136);
          m \<leftarrow> store64 m (a + 72) t10;
          t11 \<leftarrow> load64 m (a + 128);
          m \<leftarrow> store64 m (a + 64) t11;
          t12 \<leftarrow> load64 m (a + 120);
          m \<leftarrow> store64 m (a + 56) t12;
          t13 \<leftarrow> load64 m (a + 112);
          m \<leftarrow> store64 m (a + 48) t13;
          t14 \<leftarrow> load64 m (a + 104);
          m \<leftarrow> store64 m (a + 40) t14;
          t15 \<leftarrow> load64 m (a + 96);
          store64 m (a + 32) t15 }"

text \<open>The frame is set up; returns the memory, the name's address \<open>v5\<close> and the bytes \<open>v1\<close> copied.\<close>

definition v5_start :: "mem \<Rightarrow> i32 \<Rightarrow> i32 \<Rightarrow> i32 \<Rightarrow> i32 \<Rightarrow> (mem \<times> i32 \<times> i32) option" where
  "v5_start m v4 v0 v1 v2 =
     do { let a = unat v4;
          t1 \<leftarrow> load64 m (unat v0 + 8);
          m \<leftarrow> store64 m (a + 104) t1;
          t2 \<leftarrow> load64 m (unat v0);
          m \<leftarrow> store64 m (a + 96) t2;
          m \<leftarrow> store64 m (a + 112) 0;
          m \<leftarrow> store64 m (a + 120) 0;
          m \<leftarrow> store64 m (a + 128) 0;
          m \<leftarrow> store64 m (a + 136) 0;
          m \<leftarrow> store64 m (a + 144) 0;
          m \<leftarrow> store64 m (a + 152) 0;
          t3 \<leftarrow> load32 m 65552;
          m \<leftarrow> store32 m (a + 24) t3;
          t4 \<leftarrow> load64 m 65544;
          m \<leftarrow> store64 m (a + 16) t4;
          t5 \<leftarrow> load64 m 65536;
          m \<leftarrow> store64 m (a + 8) t5;
          let v5 = (if v2 \<noteq> 0 then v1 else 1);
          let v1 = (if v2 < 48 then v2 else 48);
          if v1 = 0 then Some (m, v5, v1)
          else do { m \<leftarrow> memory_copy m (unat (v4 + 96 + 16)) (unat v5) (unat v1);
                    Some (m, v5, v1) } }"

text \<open>
  A full first block is compressed, then the whole blocks of the rest of the name, and its
  tail opens the next block. Returns the memory and the bytes \<open>v0\<close> in the block.
\<close>

definition v5_long :: "mem \<Rightarrow> i32 \<Rightarrow> i32 \<Rightarrow> i32 \<Rightarrow> i32 \<Rightarrow> (mem \<times> i32) option" where
  "v5_long m v4 v5 v1 v2 =
     (let v0 = v1 + 16; a = unat v4 in
      if v0 \<noteq> 64 then Some (m, v0)
      else do { m \<leftarrow> v5_copy_block a m;
                m \<leftarrow> fn6 m (v4 + 8) (v4 + 32) 1;
                let v5 = v5 + v1;
                let v1 = v2 - v1;
                m \<leftarrow> fn6 m (v4 + 8) v5 (drop_bit 6 v1);
                m \<leftarrow> store64 m (a + 152) 0;
                m \<leftarrow> store64 m (a + 144) 0;
                m \<leftarrow> store64 m (a + 136) 0;
                m \<leftarrow> store64 m (a + 128) 0;
                m \<leftarrow> store64 m (a + 120) 0;
                m \<leftarrow> store64 m (a + 112) 0;
                m \<leftarrow> store64 m (a + 104) 0;
                m \<leftarrow> store64 m (a + 96) 0;
                let v0 = v1 AND 63;
                if v0 = 0 then Some (m, v0)
                else do { m \<leftarrow> memory_copy m (unat (v4 + 96)) (unat (v5 + (v1 AND 0x7fffffc0))) (unat v0);
                          Some (m, v0) } })"

text \<open>The closing 0x80, and a block of its own for the length when it does not fit.\<close>

definition v5_pad :: "mem \<Rightarrow> i32 \<Rightarrow> i32 \<Rightarrow> mem option" where
  "v5_pad m v4 v0 =
     do { let a = unat v4;
          m \<leftarrow> store8 m (unat (v4 + 96 + v0)) 128;
          if v0 < 56 then Some m
          else do { m \<leftarrow> v5_copy_block a m;
                    m \<leftarrow> fn6 m (v4 + 8) (v4 + 32) 1;
                    m \<leftarrow> store64 m (a + 96) 0;
                    m \<leftarrow> store64 m (a + 104) 0;
                    m \<leftarrow> store64 m (a + 112) 0;
                    m \<leftarrow> store64 m (a + 120) 0;
                    m \<leftarrow> store64 m (a + 128) 0;
                    m \<leftarrow> store64 m (a + 136) 0;
                    store64 m (a + 144) 0 } }"

definition v5_length_word :: "i32 \<Rightarrow> i64" where
  "v5_length_word v2 =
     (let v6 = (ucast (v2 + 16) :: i64)
      in (drop_bit 5 v6 AND 0x7000000) OR
         ((push_bit 59 v6 OR (push_bit 43 v6 AND 0xff000000000000)) OR
          ((push_bit 27 v6 AND 0xff0000000000) OR (push_bit 11 v6 AND 0xff00000000))))"

definition v5_finish :: "mem \<Rightarrow> i32 \<Rightarrow> i32 \<Rightarrow> i32 \<Rightarrow> mem option" where
  "v5_finish m v4 v2 v3 =
     do { let a = unat v4;
          m \<leftarrow> store64 m (a + 152) (v5_length_word v2);
          m \<leftarrow> fn6 m (v4 + 8) (v4 + 96) 1;
          v1 \<leftarrow> load32 m (a + 12);
          v5 \<leftarrow> load32 m (a + 16);
          v2 \<leftarrow> load32 m (a + 8);
          v0 \<leftarrow> load32 m (a + 20);
          m \<leftarrow> store32 m (unat v3 + 12) (bswap32 v0);
          m \<leftarrow> store32 m (unat v3) (bswap32 v2);
          let v2 = (v5 AND 0x3fffffff) OR (- 0x80000000);
          m \<leftarrow> store32 m (unat v3 + 8) (bswap32 v2);
          let v2 = (v1 AND (- 61441)) OR 0x5000;
          store32 m (unat v3 + 4) (bswap32 v2) }"

definition Xuuid_new_v5 :: "core_module \<Rightarrow> i32 \<Rightarrow> i32 \<Rightarrow> i32 \<Rightarrow> i32 \<Rightarrow> (core_module \<times> i32) option" where
  "Xuuid_new_v5 md v0 v1 v2 v3 =
     do { let v4 = g0 md - 160;
          (m, v5, v1) \<leftarrow> v5_start (memory md) v4 v0 v1 v2;
          (m, v0) \<leftarrow> v5_long m v4 v5 v1 v2;
          m \<leftarrow> v5_pad m v4 v0;
          m \<leftarrow> v5_finish m v4 v2 v3;
          Some (md\<lparr>memory := m, g0 := v4 + 160\<rparr>, 0) }"

section \<open>The frame\<close>

text \<open>
  \<open>v5_frame m0 h blk m\<close>: the memory \<open>m\<close> in a call that started on \<open>m0\<close>, with the SHA-1 state
  \<open>h\<close> and the block \<open>blk\<close> in the frame at 65376 and everything above the stack unchanged.
\<close>

definition v5_frame :: "mem \<Rightarrow> sha1_state \<Rightarrow> u8 list \<Rightarrow> mem \<Rightarrow> bool" where
  "v5_frame m0 h blk m \<longleftrightarrow> same_above_stack m0 m \<and> bytes_at m 65384 20 = state_bytes h \<and>
     bytes_at m 65472 64 = blk \<and> 131072 \<le> msize m \<and> msize m \<le> 4294967296"

lemma load_put_bytes_other:
  "a + 8 \<le> b \<or> b + length bs \<le> a \<Longrightarrow> load64 (put_bytes b bs m) a = load64 m a"
  "a + 4 \<le> b \<or> b + length bs \<le> a \<Longrightarrow> load32 (put_bytes b bs m) a = load32 m a"
  by (auto simp: load64_def load32_def mbytes_put_bytes)

lemma put_bytes_append':
  "b = a + length xs \<Longrightarrow> put_bytes b ys (put_bytes a xs m) = put_bytes a (xs @ ys) m"
  by (rule mem.equality) (auto simp: fun_eq_iff put_bytes_def nth_append)

lemma bytes_at_words:
  "bytes_at m a 4 = [mbytes m a, mbytes m (a + 1), mbytes m (a + 2), mbytes m (a + 3)]"
  "bytes_at m a 8 = [mbytes m a, mbytes m (a + 1), mbytes m (a + 2), mbytes m (a + 3),
     mbytes m (a + 4), mbytes m (a + 5), mbytes m (a + 6), mbytes m (a + 7)]"
  by (rule nth_equalityI; auto simp: numeral_eq_Suc less_Suc_eq)+

lemma load64_bytes:
  "a + 7 < msize m \<Longrightarrow> \<exists>w. load64 m a = Some w \<and> le_bytes8 w = bytes_at m a 8"
  by (simp add: load_in_bounds le_bytes8_def bytes_at_words)

lemma load32_bytes:
  "a + 3 < msize m \<Longrightarrow> \<exists>w. load32 m a = Some w \<and> le_bytes4 w = bytes_at m a 4"
  by (simp add: load_in_bounds le_bytes4_def bytes_at_words)

lemma same_above_stack_put_low:
  "same_above_stack m0 m \<Longrightarrow> a + length bs \<le> 65536 \<Longrightarrow> same_above_stack m0 (put_bytes a bs m)"
  by (auto simp: same_above_stack_def mbytes_put_bytes)

lemma bytes_at_64:
  "bytes_at m a 64 = bytes_at m a 8 @ bytes_at m (a + 8) 8 @ bytes_at m (a + 16) 8 @
     bytes_at m (a + 24) 8 @ bytes_at m (a + 32) 8 @ bytes_at m (a + 40) 8 @
     bytes_at m (a + 48) 8 @ bytes_at m (a + 56) 8"
  using bytes_at_append [of m a 8 56] bytes_at_append [of m "a + 8" 8 48]
    bytes_at_append [of m "a + 16" 8 40] bytes_at_append [of m "a + 24" 8 32]
    bytes_at_append [of m "a + 32" 8 24] bytes_at_append [of m "a + 40" 8 16]
    bytes_at_append [of m "a + 48" 8 8]
  by (simp add: add.assoc)

lemma copy_block_spec:
  assumes "a + 160 \<le> msize m"
  shows "v5_copy_block a m = Some (put_bytes (a + 32) (bytes_at m (a + 96) 64) m)"
proof -
  have "\<exists>w. load64 m (a + k) = Some w \<and> le_bytes8 w = bytes_at m (a + k) 8" if "k + 8 \<le> 160" for k
    using that assms by (intro load64_bytes) simp
  note ld = this
  obtain w0 w1 w2 w3 w4 w5 w6 w7 where
    "load64 m (a + 96) = Some w0 \<and> le_bytes8 w0 = bytes_at m (a + 96) 8"
    "load64 m (a + 104) = Some w1 \<and> le_bytes8 w1 = bytes_at m (a + 104) 8"
    "load64 m (a + 112) = Some w2 \<and> le_bytes8 w2 = bytes_at m (a + 112) 8"
    "load64 m (a + 120) = Some w3 \<and> le_bytes8 w3 = bytes_at m (a + 120) 8"
    "load64 m (a + 128) = Some w4 \<and> le_bytes8 w4 = bytes_at m (a + 128) 8"
    "load64 m (a + 136) = Some w5 \<and> le_bytes8 w5 = bytes_at m (a + 136) 8"
    "load64 m (a + 144) = Some w6 \<and> le_bytes8 w6 = bytes_at m (a + 144) 8"
    "load64 m (a + 152) = Some w7 \<and> le_bytes8 w7 = bytes_at m (a + 152) 8"
    using ld [of 96] ld [of 104] ld [of 112] ld [of 120] ld [of 128] ld [of 136] ld [of 144] ld [of 152]
    by auto
  then show ?thesis
    using assms bytes_at_64 [of m "a + 96"]
    by (simp add: v5_copy_block_def store64_put_bytes load_put_bytes_other put_bytes_append add.assoc)
qed

text \<open>Steps on a frame.\<close>

lemma frame_put:
  assumes "v5_frame m0 h blk m" "k + length bs \<le> 64"
  shows "v5_frame m0 h (take k blk @ bs @ drop (k + length bs) blk) (put_bytes (65472 + k) bs m)"
proof -
  have "bytes_at (put_bytes (65472 + k) bs m) 65472 64 = take k blk @ bs @ drop (k + length bs) blk"
    using assms by (intro nth_equalityI) (auto simp: v5_frame_def mbytes_put_bytes nth_append)
  then show ?thesis
    using assms by (simp add: v5_frame_def same_above_stack_put_low bytes_at_put_bytes_other)
qed

lemma frame_block:
  assumes "v5_frame m0 h blk m" "length bs + k = 64"
  shows "v5_frame m0 h (take k blk @ bs) (put_bytes (65472 + k) bs m)"
  using frame_put [OF assms(1), of k bs] assms by (auto simp: v5_frame_def)

lemma frame_copy:
  assumes "v5_frame m0 h blk m"
  shows "v5_copy_block 65376 m = Some (put_bytes 65408 blk m)" "v5_frame m0 h blk (put_bytes 65408 blk m)"
  using assms copy_block_spec [of 65376 m]
  by (auto simp: v5_frame_def same_above_stack_put_low bytes_at_put_bytes_other)

lemma frame_hash:
  assumes "v5_frame m0 h blk m" "unat p + 64 * n \<le> msize m" "n < 67108864"
    "bytes_at m (unat p) (64 * n) = data"
  shows "\<exists>m'. fn6 m 65384 p (of_nat n) = Some m' \<and> v5_frame m0 (sha1_blocks n data h) blk m'"
proof -
  have "fn6 m 65384 p (of_nat n) = Some (put_bytes 65384 (state_bytes (sha1_blocks n data h)) m)"
    using assms fn6_spec [of 65384 m h p n] by (simp add: v5_frame_def)
  then show ?thesis
    using assms(1) by (simp add: v5_frame_def same_above_stack_put_low bytes_at_put_bytes_other)
qed

section \<open>The pieces\<close>

lemma data0_state: "take 20 data0 = state_bytes sha1_init"
  by (simp add: data0_def sha1_init_def le_bytes4_def)

lemma data0_loads:
  assumes "bytes_at m 65536 23 = data0" "131072 \<le> msize m"
  shows "\<exists>t3 t4 t5. load32 m 65552 = Some t3 \<and> load64 m 65544 = Some t4 \<and> load64 m 65536 = Some t5 \<and>
    le_bytes8 t5 @ le_bytes8 t4 @ le_bytes4 t3 = state_bytes sha1_init"
proof -
  have "bytes_at m 65536 20 = take 20 data0"
    unfolding assms(1) [symmetric] by (rule nth_equalityI) simp_all
  moreover have "bytes_at m 65536 20 = bytes_at m 65536 8 @ bytes_at m 65544 8 @ bytes_at m 65552 4"
    using bytes_at_append [of m 65536 8 12] bytes_at_append [of m 65544 8 4] by simp
  ultimately show ?thesis
    using load32_bytes [of 65552 m] load64_bytes [of 65544 m] load64_bytes [of 65536 m] assms(2) data0_state
    by fastforce
qed

lemma v5_start_spec:
  assumes ok: "bytes_at m 65536 23 = data0" "131072 \<le> msize m" "msize m \<le> 4294967296"
    and ns: "131072 \<le> unat v0" "unat v0 + 16 \<le> msize m"
    and name: "len = 0 \<or> 131072 \<le> unat v1 \<and> unat v1 + len \<le> msize m" "unat v2 = len"
  defines "p \<equiv> if v2 \<noteq> 0 then v1 else 1"
  shows "\<exists>m'. v5_start m 65376 v0 v1 v2 = Some (m', p, of_nat (min 48 len)) \<and>
    v5_frame m sha1_init
      (bytes_at m (unat v0) 16 @ bytes_at m (unat p) (min 48 len) @ replicate (48 - min 48 len) 0) m'"
proof -
  obtain t1 t2 where t: "load64 m (unat v0 + 8) = Some t1" "load64 m (unat v0) = Some t2"
      "le_bytes8 t2 @ le_bytes8 t1 = bytes_at m (unat v0) 16"
    using load64_bytes [of "unat v0 + 8" m] load64_bytes [of "unat v0" m]
      bytes_at_append [of m "unat v0" 8 8] ns(2) by auto
  obtain t3 t4 t5 where d: "load32 m 65552 = Some t3" "load64 m 65544 = Some t4" "load64 m 65536 = Some t5"
      "le_bytes8 t5 @ le_bytes8 t4 @ le_bytes4 t3 = state_bytes sha1_init"
    using data0_loads [OF ok(1,2)] by blast
  define blk where "blk = bytes_at m (unat v0) 16 @ replicate 48 0"
  have blk: "le_bytes8 t2 @ le_bytes8 t1 @ le_bytes8 0 @ le_bytes8 0 @ le_bytes8 0 @ le_bytes8 0 @
      le_bytes8 0 @ le_bytes8 0 = blk"
    unfolding blk_def t(3) [symmetric] by (simp add: le_bytes8_0 flip: replicate_add)
  define m1 where "m1 = put_bytes 65384 (state_bytes sha1_init) (put_bytes 65472 blk m)"
  have frame: "v5_frame m sha1_init blk m1"
    using ok by (simp add: v5_frame_def m1_def same_above_stack_put_low bytes_at_put_bytes_other blk_def)
  have min: "(if v2 < 48 then v2 else 48) = of_nat (min 48 len)"
    using name(2) by (auto simp: word_less_nat_alt min_def)
  have zero: "(of_nat (min 48 len) = (0 :: i32)) = (len = 0)" "unat (of_nat (min 48 len) :: i32) = min 48 len"
  proof -
    show u: "unat (of_nat (min 48 len) :: i32) = min 48 len" by (rule unat_of_nat_i32) simp
    show "(of_nat (min 48 len) = (0 :: i32)) = (len = 0)"
      unfolding word_unat_eq_iff u by (simp add: min_def)
  qed
  have run: "v5_start m 65376 v0 v1 v2 = (if len = 0 then Some (m1, p, of_nat (min 48 len))
      else do { m \<leftarrow> memory_copy m1 65488 (unat p) (min 48 len); Some (m, p, of_nat (min 48 len)) })"
    unfolding v5_start_def min p_def [symmetric] Let_def
    using ok ns zero t d blk
    by (simp add: store64_put_bytes store32_put_bytes load_put_bytes_other put_bytes_append put_bytes_append' m1_def)
  show ?thesis
  proof (cases "len = 0")
    case True
    with run frame show ?thesis by (simp add: blk_def bytes_at_def)
  next
    case False
    then have p: "131072 \<le> unat p" "unat p + min 48 len \<le> msize m"
      using name by (auto simp: p_def)
    then have "bytes_at m1 (unat p) (min 48 len) = bytes_at m (unat p) (min 48 len)"
      by (intro bytes_at_cong) (simp add: m1_def mbytes_put_bytes blk_def)
    moreover have "memory_copy m1 65488 (unat p) (min 48 len) =
        Some (put_bytes 65488 (bytes_at m1 (unat p) (min 48 len)) m1)"
      using p ok by (intro memory_copy_in_bounds) (auto simp: m1_def)
    moreover have "put_bytes 65488 (bytes_at m (unat p) (min 48 len)) m1 =
        put_bytes 65488 (bytes_at m (unat p) (min 48 len) @ replicate (48 - min 48 len) 0) m1"
      by (rule mem.equality) (auto simp: fun_eq_iff mbytes_put_bytes nth_append m1_def blk_def)
    ultimately show ?thesis
      using False run frame_block [OF frame, of "bytes_at m (unat p) (min 48 len) @ replicate (48 - min 48 len) 0" 16]
      by (simp add: blk_def)
  qed
qed

lemma v5_pad_spec:
  assumes frame: "v5_frame m0 h (rest @ replicate (64 - length rest) 0) m" "length rest < 64"
  shows "\<exists>m' h' blk. v5_pad m 65376 (of_nat (length rest)) = Some m' \<and> v5_frame m0 h' blk m' \<and>
    (\<forall>tl. length tl = 8 \<longrightarrow> sha1_blocks 1 (take 56 blk @ tl) h' =
       sha1_blocks (if length rest \<le> 55 then 1 else 2)
         (rest @ [0x80] @ replicate ((119 - length rest) mod 64) 0 @ tl) h)"
proof -
  let ?r = "length rest" and ?blk = "rest @ [0x80] @ replicate (63 - length rest) 0"
  let ?m = "put_bytes (65472 + ?r) ([0x80] @ replicate (63 - ?r) 0) m"
  have u: "unat (of_nat ?r :: i32) = ?r" using frame(2) by (intro unat_of_nat_i32) simp
  have lt: "(of_nat ?r :: i32) < 56 \<longleftrightarrow> ?r \<le> 55" by (simp add: word_less_nat_alt u less_Suc_eq_le [symmetric])
  have "unat (65472 + of_nat ?r :: i32) = 65472 + ?r"
    using frame(2) unat_plus_i32 [of 65472 "of_nat ?r"] by (simp add: u)
  moreover have zeros: "mbytes m x = 0" if "65472 + ?r < x" "x < 65536" for x
  proof -
    have "bytes_at m 65472 64 ! (x - 65472) = 0"
      using that frame by (auto simp: v5_frame_def nth_append)
    then show ?thesis using that by simp
  qed
  moreover have "65536 \<le> msize m" using frame(1) by (simp add: v5_frame_def)
  ultimately have st: "store8 m (unat (65376 + 96 + of_nat ?r :: i32)) 128 = Some ?m"
    using frame(2)
    by (auto simp: store8_def v5_frame_def fun_eq_iff put_bytes_def nth_Cons' intro!: mem.equality)
  have f: "v5_frame m0 h ?blk ?m"
    using frame_block [OF frame(1), of "[0x80] @ replicate (63 - ?r) 0" ?r] frame(2) by simp
  show ?thesis
  proof (cases "?r \<le> 55")
    case True
    then have "take 56 ?blk @ tl = rest @ [0x80] @ replicate ((119 - ?r) mod 64) 0 @ tl" for tl
      using pad_zeros [OF frame(2)] by (simp add: Suc_diff_le take_Cons' min_def)
    with True have "sha1_blocks 1 (take 56 ?blk @ tl) h = sha1_blocks (if ?r \<le> 55 then 1 else 2)
        (rest @ [0x80] @ replicate ((119 - ?r) mod 64) 0 @ tl) h" for tl by simp
    moreover have "v5_pad m 65376 (of_nat ?r) = Some ?m" using True st lt by (simp add: v5_pad_def)
    ultimately show ?thesis using f by blast
  next
    case False
    then have blk: "rest @ [0x80] @ replicate ((119 - ?r) mod 64) 0 @ tl = ?blk @ replicate 56 0 @ tl" for tl
      using pad_zeros [OF frame(2)] frame(2) by (simp flip: replicate_add)
    obtain m' where m': "fn6 (put_bytes 65408 ?blk ?m) 65384 65408 1 = Some m'"
        "v5_frame m0 (sha1_blocks 1 ?blk h) ?blk m'"
      using frame_hash [OF frame_copy(2) [OF f], of 65408 1 ?blk] frame(2) f
      by (auto simp: v5_frame_def)
    let ?m' = "put_bytes 65472 (replicate 56 0) m'"
    have "v5_frame m0 (sha1_blocks 1 ?blk h) (replicate 56 0 @ drop 56 ?blk) ?m'"
        using frame_put [OF m'(2), of 0 "replicate 56 0"] by simp
    moreover have "v5_pad m 65376 (of_nat ?r) = Some ?m'"
      using False st lt frame_copy(1) [OF f] m'
      by (simp add: v5_pad_def v5_frame_def store64_put_bytes le_bytes8_0 put_bytes_append' flip: replicate_add)
    moreover have "sha1_blocks 2 (?blk @ replicate 56 0 @ tl) h = sha1_blocks 1 (replicate 56 0 @ tl) (sha1_blocks 1 ?blk h)" for tl
    proof -
      have "length ?blk = 64 * 1" using frame(2) by simp
      then show ?thesis using sha1_blocks_append [of ?blk 1 1] by (simp only: one_add_one)
    qed
    then have "sha1_blocks 1 (take 56 (replicate 56 0 @ drop 56 ?blk) @ tl) (sha1_blocks 1 ?blk h) =
        sha1_blocks (if ?r \<le> 55 then 1 else 2)
          (rest @ [0x80] @ replicate ((119 - ?r) mod 64) 0 @ tl) h" for tl
      unfolding blk using False by simp
    ultimately show ?thesis by blast
  qed
qed

lemma sha1_blocks_prefix: "length xs = 64 * n \<Longrightarrow> sha1_blocks n (xs @ ys) h = sha1_blocks n xs h"
  using sha1_blocks_append [of xs n 0 ys h] sha1_blocks_append [of xs n 0 "[]" h] by simp

text \<open>The word arithmetic of the long case, for a name of \<open>len\<close> bytes.\<close>

lemma v5_counts:
  assumes "unat (v2 :: i32) = len" "48 \<le> len" "len < 2147483648"
  shows "drop_bit 6 (v2 - 48) = of_nat ((len - 48) div 64)"
    "(v2 - 48) AND 63 = of_nat ((len - 48) mod 64)"
    "(v2 - 48) AND 0x7fffffc0 = of_nat (64 * ((len - 48) div 64))"
proof -
  have u: "unat (v2 - 48) = len - 48" using assms by (simp add: unat_sub word_le_nat_alt)
  show d: "drop_bit 6 (v2 - 48) = of_nat ((len - 48) div 64)"
    by (rule eq_of_natI) (simp add: unat_drop_bit u)
  have "(63 :: i32) = mask 6" by (simp add: mask_eq_exp_minus_1)
  then have "(v2 - 48) AND 63 = take_bit 6 (v2 - 48)" by (simp add: take_bit_eq_mask)
  then show "(v2 - 48) AND 63 = of_nat ((len - 48) mod 64)"
    by (intro eq_of_natI) (simp add: unat_take_bit u)
  have "take_bit 31 (v2 - 48) = v2 - 48"
    using assms(3) by (simp add: word_unat_eq_iff unat_take_bit u)
  then have high: "bit (v2 - 48) n \<Longrightarrow> n < 31" for n by (metis bit_take_bit_iff)
  have "(0x7fffffc0 :: i32) = push_bit 6 (mask 25)" by (simp add: mask_eq_exp_minus_1 push_bit_eq_mult)
  moreover have "(v2 - 48) AND push_bit 6 (mask 25) = push_bit 6 (drop_bit 6 (v2 - 48))"
    by (rule bit_word_eqI) (auto simp: bit_simps dest: high)
  ultimately have "(v2 - 48) AND 0x7fffffc0 = push_bit 6 (drop_bit 6 (v2 - 48))" by metis
  then show "(v2 - 48) AND 0x7fffffc0 = of_nat (64 * ((len - 48) div 64))"
    unfolding d by (simp add: push_bit_eq_mult)
qed

lemma v5_long_spec:
  assumes frame: "v5_frame m0 sha1_init (ns @ take 48 name @ replicate (48 - min 48 len) 0) m"
    and len: "unat v2 = len" "len < 2147483648" "length ns = 16"
    and name: "name = bytes_at m0 (unat p) len" "0 < len \<longrightarrow> 131072 \<le> unat p"
      "unat p + len \<le> msize m0" "unat p + len < 4294967296"
  defines "msg \<equiv> ns @ name"
  shows "\<exists>m'. v5_long m 65376 p (of_nat (min 48 len)) v2 = Some (m', of_nat (length msg mod 64)) \<and>
    v5_frame m0 (sha1_blocks (length msg div 64) msg sha1_init)
      (drop (64 * (length msg div 64)) msg @ replicate (64 - length msg mod 64) 0) m'"
proof (cases "len < 48")
  case True
  have "unat (of_nat len :: i32) = len" by (rule unat_of_nat_i32) (use True in simp)
  then have u: "unat (of_nat len + 16 :: i32) = len + 16"
    using True by (simp add: unat_plus_numeral_i32)
  have "(of_nat len + 16 :: i32) \<noteq> 64"
  proof
    assume "(of_nat len + 16 :: i32) = 64"
    with u True show False by simp
  qed
  moreover have "length msg = len + 16" "name = take 48 name" using len(3) name(1) True by (simp_all add: msg_def)
  ultimately show ?thesis
    using True frame by (simp add: v5_long_def msg_def min_def add.commute)
next
  case False
  define k where "k = (len - 48) div 64"
  define r where "r = (len - 48) mod 64"
  have kr: "len - 48 = 64 * k + r" "r < 64" by (simp_all add: k_def r_def)
  have kl: "len = 48 + 64 * k + r" using kr(1) False by simp
  have k: "k < 67108864" using kl len(2) by simp
  have L: "length msg = 64 * Suc k + r" using False kr(1) len(3) name(1) by (simp add: msg_def)
  then have q: "length msg div 64 = Suc k" "length msg mod 64 = r"
    using kr(2) by (simp_all del: mult_Suc_right)
  define blk where "blk = ns @ take 48 name"
  have blk: "length blk = 64" using False len(3) name(1) by (simp add: blk_def)
  have f0: "v5_frame m0 sha1_init blk m" using frame False by (simp add: blk_def)
  have above: "bytes_at m' a n = bytes_at m0 a n" if "v5_frame m0 h b m'" "131072 \<le> a" for m' h b a n
    using that by (intro bytes_at_cong) (simp add: v5_frame_def same_above_stack_def)
  have size: "msize m' = msize m0" if "v5_frame m0 h b m'" for m' h b
    using that by (simp add: v5_frame_def same_above_stack_def)
  obtain m1 where m1: "fn6 (put_bytes 65408 blk m) 65384 65408 1 = Some m1"
      "v5_frame m0 (sha1_blocks 1 blk sha1_init) blk m1"
    using frame_hash [OF frame_copy(2) [OF f0], of 65408 1 blk] blk f0 by (auto simp: v5_frame_def)
  have p: "unat (p + 48) = unat p + 48"
    using False name(4) by (intro unat_plus_numeral_i32) simp
  define data where "data = bytes_at m0 (unat p + 48) (64 * k)"
  obtain m2 where m2: "fn6 m1 65384 (p + 48) (of_nat k) = Some m2"
      "v5_frame m0 (sha1_blocks k data (sha1_blocks 1 blk sha1_init)) blk m2"
    using frame_hash [OF m1(2), of "p + 48" k data] above [OF m1(2)] size [OF m1(2)] name k kl False
    by (auto simp: p data_def)
  have f3: "v5_frame m0 (sha1_blocks k data (sha1_blocks 1 blk sha1_init)) (replicate 64 0) (put_bytes 65472 (replicate 64 0) m2)"
    using frame_block [OF m2(2), of "replicate 64 0" 0] by simp
  define rest where "rest = bytes_at m0 (unat p + 48 + 64 * k) r"
  have "bytes_at m0 (unat p) len = bytes_at m0 (unat p) 48 @ data @ rest"
    using bytes_at_append [of m0 "unat p" 48 "64 * k + r"] bytes_at_append [of m0 "unat p + 48" "64 * k" r]
    by (simp add: data_def rest_def kl add.assoc)
  then have name': "name = take 48 name @ data @ rest" unfolding name(1) by simp
  have msg: "msg = (blk @ data) @ rest" using name' by (simp add: msg_def blk_def)
  have h: "sha1_blocks (Suc k) msg sha1_init = sha1_blocks k data (sha1_blocks 1 blk sha1_init)"
    using sha1_blocks_prefix [of "blk @ data" "Suc k" rest sha1_init] sha1_blocks_append [of blk 1 k data sha1_init] blk
    unfolding msg by (simp add: data_def)
  have d: "drop (64 * Suc k) msg = rest" unfolding msg using blk by (simp add: data_def)
  have run: "v5_long m 65376 p (of_nat (min 48 len)) v2 =
      (if r = 0 then Some (put_bytes 65472 (replicate 64 0) m2, 0)
       else do { m \<leftarrow> memory_copy (put_bytes 65472 (replicate 64 0) m2) 65472 (unat p + 48 + 64 * k) r;
                 Some (m, of_nat r) })"
  proof -
    have a: "unat (p + 48 + of_nat (64 * k)) = unat p + 48 + 64 * k"
      using unat_of_nat_i32 [of "64 * k"] unat_plus_i32 [of "p + 48" "of_nat (64 * k)"] name(4) kr False
      by (simp add: p)
    have r: "unat (of_nat r :: i32) = r" "(of_nat r = (0 :: i32)) = (r = 0)"
      using unat_of_nat_i32 [of r] kr(2) by (auto simp: word_unat_eq_iff)
    show ?thesis
      using False v5_counts [OF len(1) _ len(2)] frame_copy(1) [OF f0] m1(1) m2 a r
      by (simp add: v5_long_def Let_def k_def r_def v5_frame_def store64_put_bytes le_bytes8_0 put_bytes_append
          flip: replicate_add)
  qed
  show ?thesis
  proof (cases "r = 0")
    case True
    with run f3 h d q show ?thesis by (simp add: rest_def bytes_at_def)
  next
    case False
    have a: "131072 \<le> unat p + 48 + 64 * k" "unat p + 48 + 64 * k + r \<le> msize m0"
      using \<open>\<not> len < 48\<close> name kr by auto
    then have "memory_copy (put_bytes 65472 (replicate 64 0) m2) 65472 (unat p + 48 + 64 * k) r =
        Some (put_bytes 65472 rest (put_bytes 65472 (replicate 64 0) m2))"
      using above [OF f3 a(1)] size [OF f3] f3 kr(2) by (simp add: memory_copy_in_bounds rest_def v5_frame_def)
    then show ?thesis
      using run False h d q frame_put [OF f3, of 0 rest] kr(2) by (simp add: rest_def)
  qed
qed

text \<open>The length in bits, big-endian.\<close>

lemma length_word_bytes:
  assumes "unat (v2 + 16) = n"
  shows "le_bytes8 (v5_length_word v2) = be64_bytes (of_nat (8 * n))"
proof -
  define v6 :: i64 where "v6 = ucast (v2 + 16)"
  have "unat v6 = n"
    using assms unat_i32_less [of "v2 + 16"] by (simp add: v6_def unsigned_ucast_eq take_bit_nat_eq_self)
  then have n: "of_nat (8 * n) = push_bit 3 v6" by (auto simp: push_bit_eq_mult)
  have high: "bit v6 k = False" if "32 \<le> k" for k
    using that by (simp add: v6_def bit_simps bit_i32_high)
  show ?thesis
    unfolding n v5_length_word_def Let_def v6_def [symmetric] le_bytes8_def be64_bytes_def list.inject
    by (intro conjI TrueI refl; rule eq_bits_u8; simp add: bit_eval high)
qed

lemma bswap32_be_bytes: "le_bytes4 (bswap32 w) = be32_bytes w"
  using bswap32_bytes [of "ucast w" "ucast (drop_bit 8 w)" "ucast (drop_bit 16 w)" "ucast (drop_bit 24 w)"]
  by (simp add: le_bytes4_def be32_bytes_def)

lemma stamp_words:
  "be32_bytes a @ be32_bytes ((b AND - 61441) OR 0x5000) @ be32_bytes ((c AND 0x3fffffff) OR - 0x80000000) @
     be32_bytes d = stamp 5 (take 16 (sha1_digest (a, b, c, d, e)))"
proof -
  have m: "(- 61441 :: i32) = 0xffff0fff" "(- 0x80000000 :: i32) = 0x80000000" by code_simp+
  show ?thesis
    unfolding m by (simp add: be32_bytes_def stamp_def) (intro conjI; (rule eq_bits_u8; simp add: bit_eval)?)
qed

lemma v5_finish_spec:
  assumes frame: "v5_frame m0 h blk m" and n: "unat (v2 + 16) = n"
    and v3: "131072 \<le> unat v3" "unat v3 + 16 \<le> msize m0"
  shows "\<exists>m'. v5_finish m 65376 v2 v3 = Some m' \<and> same_above_stack (put_bytes (unat v3)
    (stamp 5 (take 16 (sha1_digest (sha1_blocks 1 (take 56 blk @ be64_bytes (of_nat (8 * n))) h)))) m0) m'"
proof -
  let ?len = "be64_bytes (of_nat (8 * n))"
  let ?m = "put_bytes 65528 ?len m"
  have size: "131072 \<le> msize m" "msize m = msize m0"
    using frame by (simp_all add: v5_frame_def same_above_stack_def)
  have st: "store64 m 65528 (v5_length_word v2) = Some ?m"
    using size by (simp add: store64_put_bytes length_word_bytes [OF n])
  have f: "v5_frame m0 h (take 56 blk @ ?len) ?m"
    using frame_block [OF frame, of ?len 56] by simp
  let ?h = "sha1_blocks 1 (take 56 blk @ ?len) h"
  obtain a b c d e where h: "?h = (a, b, c, d, e)" by (cases ?h rule: sha1_digest.cases)
  obtain m1 where m1: "fn6 ?m 65384 65472 1 = Some m1" "v5_frame m0 ?h (take 56 blk @ ?len) m1"
    using frame_hash [OF f, of 65472 1 "take 56 blk @ ?len"] f by (auto simp: v5_frame_def)
  have size1: "msize m1 = msize m0" "131072 \<le> msize m1"
    using m1(2) by (simp_all add: v5_frame_def same_above_stack_def)
  have ld: "load32 m1 65384 = Some a" "load32 m1 65388 = Some b" "load32 m1 65392 = Some c"
    "load32 m1 65396 = Some d"
    using load_state [of 65384 m1 a b c d e] m1(2) size1 unfolding h by (simp_all add: v5_frame_def)
  have "v5_finish m 65376 v2 v3 = Some (put_bytes (unat v3) (stamp 5 (take 16 (sha1_digest ?h))) m1)"
    unfolding h stamp_words [symmetric]
    using st m1(1) ld v3 size1
    by (simp add: v5_finish_def store32_put_bytes bswap32_be_bytes put_bytes_append put_bytes_append')
  then show ?thesis
    using m1(2) by (auto simp: v5_frame_def same_above_stack_def mbytes_put_bytes)
qed

section \<open>The whole function\<close>

text \<open>
  The result as the specification states it: a well-formed module, arguments above the core's
  own data, and a name no Go slice exceeds on a 32-bit guest.
\<close>

lemma new_v5_spec:
  assumes ok: "core_ok md" and args: "arg_ok md v0 16" "arg_ok md v3 16"
    and name: "unat v2 = 0 \<or> arg_ok md v1 (unat v2)" "unat v1 + unat v2 < 4294967296" "unat v2 < 2147483648"
  shows "\<exists>md'. Xuuid_new_v5 md v0 v1 v2 v3 = Some (md', 0) \<and>
    core_same (md\<lparr>memory := put_bytes (unat v3)
      (stamp 5 (take 16 (sha1 (bytes_at (memory md) (unat v0) 16 @ bytes_at (memory md) (unat v1) (unat v2)))))
      (memory md)\<rparr>) md'"
proof -
  let ?m = "memory md" and ?len = "unat v2"
  define p where "p = (if v2 \<noteq> 0 then v1 else 1)"
  define ns where "ns = bytes_at ?m (unat v0) 16"
  define nm where "nm = bytes_at ?m (unat p) ?len"
  have nm: "nm = bytes_at ?m (unat v1) ?len" by (auto simp: nm_def p_def bytes_at_def)
  define msg where "msg = ns @ nm"
  have size: "131072 \<le> msize ?m" "msize ?m \<le> 4294967296" and g: "g0 md = 65536"
    and data: "bytes_at ?m 65536 23 = data0" using ok by (simp_all add: core_ok_def)
  have p: "0 < ?len \<longrightarrow> 131072 \<le> unat p" "unat p + ?len \<le> msize ?m" "unat p + ?len < 4294967296"
    using name size by (auto simp: p_def arg_ok_def unsigned_eq_0_iff)
  have L: "length msg = ?len + 16" by (simp add: msg_def ns_def nm_def)
  define rest where "rest = drop (64 * (length msg div 64)) msg"
  have rest: "length rest = length msg mod 64" by (simp add: rest_def minus_mult_div_eq_mod)
  define h where "h = sha1_blocks (length msg div 64) msg sha1_init"
  have take_nm: "take 48 nm = bytes_at ?m (unat p) (min 48 ?len)"
    unfolding nm_def by (rule nth_equalityI) simp_all
  obtain m1 where m1: "v5_start ?m 65376 v0 v1 v2 = Some (m1, p, of_nat (min 48 ?len))"
      "v5_frame ?m sha1_init (ns @ take 48 nm @ replicate (48 - min 48 ?len) 0) m1"
    using v5_start_spec [OF data size, of v0 ?len v1 v2] args(1) name(1)
    unfolding p_def [symmetric] take_nm ns_def by (auto simp: arg_ok_def)
  obtain m2 where m2: "v5_long m1 65376 p (of_nat (min 48 ?len)) v2 = Some (m2, of_nat (length rest))"
      "v5_frame ?m h (rest @ replicate (64 - length rest) 0) m2"
    using v5_long_spec [OF m1(2) refl name(3) _ nm_def p] unfolding rest unfolding h_def rest_def msg_def
    by (auto simp: ns_def)
  obtain m3 h' blk where m3: "v5_pad m2 65376 (of_nat (length rest)) = Some m3" "v5_frame ?m h' blk m3"
      "\<And>tl. length tl = 8 \<Longrightarrow> sha1_blocks 1 (take 56 blk @ tl) h' =
         sha1_blocks (if length rest \<le> 55 then 1 else 2)
           (rest @ [0x80] @ replicate ((119 - length rest) mod 64) 0 @ tl) h"
    using v5_pad_spec [OF m2(2)] rest by fastforce
  have len: "unat (v2 + 16) = length msg"
    using name(3) L by (simp add: unat_plus_numeral_i32)
  have pad: "sha1_pad msg = take (64 * (length msg div 64)) msg @
      (rest @ [0x80] @ replicate ((119 - length rest) mod 64) 0 @ be64_bytes (of_nat (8 * length msg)))"
    unfolding rest by (simp add: sha1_pad_def rest_def)
  have q: "length (take (64 * (length msg div 64)) msg) = 64 * (length msg div 64)"
    by (simp add: min_absorb2)
  have h: "h = sha1_blocks (length msg div 64) (take (64 * (length msg div 64)) msg) sha1_init"
    using sha1_blocks_prefix [OF q, of "drop (64 * (length msg div 64)) msg" sha1_init] by (simp add: h_def)
  have "length (sha1_pad msg) div 64 = length msg div 64 + (if length rest \<le> 55 then 1 else 2)"
    unfolding length_sha1_pad rest by simp
  then have "sha1_blocks (length (sha1_pad msg) div 64) (sha1_pad msg) sha1_init =
      sha1_blocks 1 (take 56 blk @ be64_bytes (of_nat (8 * length msg))) h'"
    unfolding pad h m3(3) [OF length_be_bytes(2)] by (simp only: sha1_blocks_append [OF q])
  then have sha: "sha1 msg = sha1_digest (sha1_blocks 1 (take 56 blk @ be64_bytes (of_nat (8 * length msg))) h')"
    by (simp add: sha1_def)
  obtain m4 where m4: "v5_finish m3 65376 v2 v3 = Some m4"
      "same_above_stack (put_bytes (unat v3) (stamp 5 (take 16 (sha1 msg))) ?m) m4"
    using v5_finish_spec [OF m3(2) len, of v3] args(2) unfolding sha by (auto simp: arg_ok_def)
  show ?thesis
    using m1(1) m2(1) m3(1) m4 g
    by (simp add: Xuuid_new_v5_def core_same_def msg_def ns_def nm)
qed

section \<open>Property\<close>

text \<open>
  C9. \<open>Xuuid_new_v5\<close> is the SHA-1 of the sixteen bytes at \<open>v0\<close> and the \<open>v2\<close> bytes at \<open>v1\<close>, for
  names of any length below 2^31, on every path through its buffering (a name that fits the
  first block, one that fills it exactly, whole blocks in between, a tail of 56 bytes or more
  that pushes the length into a block of its own): it returns 0, writes the stamped digest at
  \<open>v3\<close>, and above its stack changes nothing else.
\<close>

theorem core_v5_is_sha1:
  assumes "core_ok md" "arg_ok md v0 16" "arg_ok md v3 16"
    "unat v2 = 0 \<or> arg_ok md v1 (unat v2)" "unat v1 + unat v2 < 4294967296" "unat v2 < 2147483648"
  shows "\<exists>md'. Xuuid_new_v5 md v0 v1 v2 v3 = Some (md', 0) \<and>
    core_same (md\<lparr>memory := put_bytes (unat v3)
      (stamp 5 (take 16 (sha1 (bytes_at (memory md) (unat v0) 16 @ bytes_at (memory md) (unat v1) (unat v2)))))
      (memory md)\<rparr>) md'"
  by (rule new_v5_spec [OF assms])

theorem core_v5_is_sha1_witness:
  "\<exists>md'. Xuuid_new_v5 (sample_module (replicate 16 7)) 131072 131104 100 131088 = Some (md', 0) \<and>
    core_same ((sample_module (replicate 16 7))\<lparr>memory := put_bytes (unat (131088 :: i32))
      (stamp 5 (take 16 (sha1 (bytes_at (memory (sample_module (replicate 16 7))) (unat (131072 :: i32)) 16 @
        bytes_at (memory (sample_module (replicate 16 7))) (unat (131104 :: i32)) (unat (100 :: i32))))))
      (memory (sample_module (replicate 16 7)))\<rparr>) md'"
  using sample_module_ok(1) [of "replicate 16 7"]
  by (intro core_v5_is_sha1) (simp_all add: arg_ok_def sample_module_def)

end
