(* ===== verification/Host_V5.thy ===== *)
theory Host_V5
  imports Host_Api Core_V5
begin

text \<open>
  Version 5 above the core: \<open>v5\<close> and \<open>newV5\<close> of \<open>src/go/core.go\<close>, its limit on names and
  \<open>NewV5\<close>, \<open>NewV5String\<close> of \<open>src/go/uuidgen.go\<close>. A name that fits the base scratch runs on an
  acquired instance, a longer one on an instance made for it and dropped.
\<close>

section \<open>The calls\<close>

definition MaxV5Name :: "nat \<Rightarrow> nat" where
  "MaxV5Name maxint = min (2 ^ 31 - 1) (hostMaxPages maxint * pageSize - 2 * pageSize - 32)"

definition checkV5Name :: "nat \<Rightarrow> nat \<Rightarrow> go_error option" where
  "checkV5Name maxint n = (if n > MaxV5Name maxint then Some (GotName n) else None)"

definition v5NameOffset :: i32 where "v5NameOffset = 32"

definition i_v5 :: "uuid \<Rightarrow> u8 list \<Rightarrow> inst \<Rightarrow> ((uuid \<times> i32) \<times> inst) option" where
  "i_v5 ns name i =
     do { m \<leftarrow> copy_in (memory (im i)) (unat (scratch i)) ns;
          m \<leftarrow> copy_in m (unat (scratch i + v5NameOffset)) name;
          let s = scratch i;
          (md, rc) \<leftarrow> Xuuid_new_v5 ((im i)\<lparr>memory := m\<rparr>) s (s + v5NameOffset) (of_nat (length name)) (s + 16);
          out \<leftarrow> copy_uuid (memory md) (unat (scratch i + 16));
          Some ((out, rc), i\<lparr>im := md\<rparr>) }"

text \<open>\<open>newV5\<close>. A nil error beside a zero UUID, should \<open>checkV5Name\<close> pass, is \<open>Inr\<close> of the zero UUID.\<close>

definition newV5 :: "config \<Rightarrow> sched \<Rightarrow> uuid \<Rightarrow> u8 list \<Rightarrow> package \<Rightarrow> (uuid go \<times> package) option" where
  "newV5 cfg sc ns name p =
     (let need = length name + unat v5NameOffset;
          answer = (\<lambda>(out, rc). if rc \<noteq> 0 then Inl (FailedCode ''uuid_new_v5'' rc) else Inr out)
      in if need \<le> basePages * pageSize
         then do { (r, p) \<leftarrow> with_instance cfg sc (pure_call (i_v5 ns name)) p; Some (answer r, p) }
         else case scratchPagesFor (c_maxint cfg) need of
             None \<Rightarrow> Some (case checkV5Name (c_maxint cfg) (length name) of
                              Some e \<Rightarrow> Inl e | None \<Rightarrow> Inr (replicate 16 0), p)
           | Some pgs \<Rightarrow>
               do { made \<leftarrow> newInstanceWith (c_maxint cfg) pgs OsSource;
                    case made of
                      None \<Rightarrow> Some (Inl (TooLongForHost (length name)), p)
                    | Some i \<Rightarrow> do { (r, i) \<leftarrow> i_v5 ns name i;
                                      Some (answer r, p\<lparr>instancesCreated := instancesCreated p + 1\<rparr>) } })"

definition NewV5 :: "config \<Rightarrow> sched \<Rightarrow> uuid \<Rightarrow> u8 list \<Rightarrow> package \<Rightarrow> (uuid go \<times> package) option" where
  "NewV5 cfg sc ns name p =
     (case checkV5Name (c_maxint cfg) (length name) of
        Some err \<Rightarrow> Some (Inl err, p)
      | None \<Rightarrow> newV5 cfg sc ns name p)"

text \<open>A Go string is its bytes.\<close>

definition NewV5String :: "config \<Rightarrow> sched \<Rightarrow> uuid \<Rightarrow> u8 list \<Rightarrow> package \<Rightarrow> (uuid go \<times> package) option" where
  "NewV5String cfg sc ns name p = NewV5 cfg sc ns name p"

section \<open>What they answer\<close>

text \<open>The UUID a namespace and a name have: RFC 9562, section 5.5.\<close>

definition v5_uuid :: "uuid \<Rightarrow> u8 list \<Rightarrow> uuid" where
  "v5_uuid ns name = stamp 5 (take 16 (sha1 (ns @ name)))"

lemma length_sha1 [simp]: "length (sha1 msg) = 20"
  by (simp add: sha1_def)

lemma length_v5_uuid [simp]: "length (v5_uuid ns name) = 16"
  by (simp add: v5_uuid_def stamp_def)

lemma i_v5_spec:
  assumes ok: "inst_ok maxint i" and len: "length ns = 16" "32 + length name \<le> pages i * 65536" "length name < 2147483648"
  shows "\<exists>i'. i_v5 ns name i = Some ((v5_uuid ns name, 0), i') \<and> quiet maxint i i'"
proof -
  let ?m = "memory (im i)"
  let ?m1 = "put_bytes 131104 name (put_bytes 131072 ns ?m)"
  let ?md = "(im i)\<lparr>memory := ?m1\<rparr>"
  have i: "core_ok (im i)" "scratch i = 131072" "msize ?m = (pages i + 2) * 65536" "1 \<le> pages i"
    using ok by (simp_all add: inst_ok_def)
  then have size: "131104 + length name \<le> msize ?m" "131104 \<le> msize ?m" using len(2) by simp_all
  have u: "unat (of_nat (length name) :: i32) = length name"
    using len(3) by (intro unat_of_nat_i32) simp
  have above: "mbytes ?m1 a = mbytes ?m a" if "a < 131072" for a
    using that by (simp add: mbytes_put_bytes)
  have g: "g0 (im i) = 65536" using i(1) by (simp add: core_ok_def)
  have core: "core_ok ?md"
    by (rule core_ok_frame [OF i(1)]) (use g above in simp_all)
  have copies: "copy_in ?m 131072 ns = Some (put_bytes 131072 ns ?m)"
    "copy_in (put_bytes 131072 ns ?m) 131104 name = Some ?m1"
    using size len(1) by (simp_all add: mem_simps)
  have args: "bytes_at ?m1 131072 16 = ns" "bytes_at ?m1 131104 (length name) = name"
    using len(1) by (simp_all add: bytes_at_put_bytes_other)
  obtain md' where md': "Xuuid_new_v5 ?md 131072 131104 (of_nat (length name)) 131088 = Some (md', 0)"
      "core_same (?md\<lparr>memory := put_bytes 131088 (v5_uuid ns name) ?m1\<rparr>) md'"
    using new_v5_spec [OF core, of 131072 131088 "of_nat (length name)" 131104] size len(3) args
    unfolding v5_uuid_def by (auto simp: arg_ok_def u)
  have same: "g0 md' = g0 (im i)" "msize (memory md') = msize ?m"
    "\<And>a. 65536 \<le> a \<Longrightarrow> mbytes (memory md') a = mbytes (put_bytes 131088 (v5_uuid ns name) ?m1) a"
    using md'(2) by (simp_all add: core_same_def same_above_stack_def)
  then have low: "mbytes (memory md') a = mbytes ?m a" if "65536 \<le> a" "a < 131072" for a
    using that by (simp add: mbytes_put_bytes)
  have "core_ok md'"
    by (rule core_ok_frame [OF i(1)]) (use g same low in simp_all)
  moreover have "stream_word md' = stream_word (im i)" using low by (intro stream_word_frame) simp
  ultimately have "quiet maxint i (i\<lparr>im := md'\<rparr>)"
    using ok same(2) by (simp add: quiet_def inst_ok_def)
  moreover have "bytes_at (memory md') 131088 16 = v5_uuid ns name"
    by (rule nth_equalityI) (simp_all add: same(3) mbytes_put_bytes)
  then have "copy_uuid (memory md') 131088 = Some (v5_uuid ns name)"
    using size same(2) by (simp add: copy_uuid_def mem_simps)
  ultimately show ?thesis
    using i(2) copies md'(1) by (simp add: i_v5_def v5NameOffset_def)
qed

text \<open>Every name within the limit has an instance to run on, also the longest one a 32-bit host takes.\<close>

lemma v5_name_fits:
  assumes "host_ok maxint" "n \<le> MaxV5Name maxint"
  shows "n < 2147483648" "scratchPagesFor maxint (n + 32) = Some ((n + 32 + 65535) div 65536)"
    "(n + 32 + 65535) div 65536 + 2 \<le> hostMaxPages maxint" "n + 32 \<le> (n + 32 + 65535) div 65536 * 65536"
proof -
  define q where "q = (n + 32 + 65535) div 65536"
  have q: "q * 65536 \<le> n + 32 + 65535" "n + 32 + 65535 < q * 65536 + 65536"
    using div_mult_mod_eq [of "n + 32 + 65535" 65536] mod_less_divisor [of 65536 "n + 32 + 65535"]
    by (simp_all only: q_def [symmetric])
  show "n < 2147483648" using assms(2) by (simp add: MaxV5Name_def)
  have h: "3 \<le> hostMaxPages maxint" using hostMaxPages_bounds(3) [OF assms(1)] by simp
  then have "n + 32 \<le> (hostMaxPages maxint - 2) * 65536"
    using assms(2) mult_le_mono1 [of 3 "hostMaxPages maxint" 65536]
    by (simp add: MaxV5Name_def pageSize_def diff_mult_distrib) linarith
  with q have "q \<le> hostMaxPages maxint - 2" by linarith
  with h show fits: "(n + 32 + 65535) div 65536 + 2 \<le> hostMaxPages maxint" unfolding q_def [symmetric] by linarith
  then show "scratchPagesFor maxint (n + 32) = Some ((n + 32 + 65535) div 65536)"
    by (simp only: scratchPagesFor_spec Let_def if_True)
  show "n + 32 \<le> (n + 32 + 65535) div 65536 * 65536" unfolding q_def [symmetric] using q by linarith
qed

lemma newV5_returns:
  assumes ok: "package_ok cfg p" and len: "length ns = 16" "length name \<le> MaxV5Name (c_maxint cfg)"
  shows "answers cfg p (newV5 cfg sc ns name p) (Inr (v5_uuid ns name))"
proof -
  have host: "host_ok (c_maxint cfg)" using ok by (simp add: package_ok_def)
  note fits = v5_name_fits [OF host len(2)]
  show ?thesis
  proof (cases "length name + 32 \<le> 65536")
    case True
    have "answers cfg p (with_instance cfg sc (pure_call (i_v5 ns name)) p) (v5_uuid ns name, 0)"
    proof (rule pure_call_answers [OF ok])
      fix i assume i: "inst_ok (c_maxint cfg) i"
      then have "1 \<le> pages i" by (simp add: inst_ok_def)
      with True have "32 + length name \<le> pages i * 65536" by simp
      with i len(1) fits(1) show "\<exists>i'. i_v5 ns name i = Some ((v5_uuid ns name, 0), i') \<and> quiet (c_maxint cfg) i i'"
        by (intro i_v5_spec)
    qed
    with True show ?thesis
      by (auto simp: newV5_def answers_def v5NameOffset_def basePages_def pageSize_def)
  next
    case False
    let ?pgs = "(length name + 32 + 65535) div 65536"
    have pgs: "1 \<le> ?pgs" "?pgs \<le> 4294967295"
      using fits(3,4) hostMaxPages_bounds(1) [of "c_maxint cfg"] by linarith+
    obtain i where i: "newInstanceWith (c_maxint cfg) ?pgs OsSource = Some (Some i)" "inst_ok (c_maxint cfg) i" "pages i = ?pgs"
      using newInstanceWith_spec [OF pgs, of OsSource "c_maxint cfg"] fits(3) by (auto simp: src_ok_def)
    obtain i' where "i_v5 ns name i = Some ((v5_uuid ns name, 0), i')"
      using i_v5_spec [OF i(2) len(1) _ fits(1)] fits(4) i(3) by (auto simp: add.commute)
    with False i(1) fits(2) ok show ?thesis
      by (simp add: newV5_def answers_def v5NameOffset_def basePages_def pageSize_def package_ok_def stream_of_def)
  qed
qed

section \<open>Properties\<close>

text \<open>
  C13. Version 5 works for every namespace and every name within \<open>MaxV5Name\<close>, on any scheduler
  choice and whatever path the length takes (an acquired instance or one made for the name):
  the answer is the SHA-1 of namespace and name, cut to sixteen bytes and stamped with version
  5 and the RFC variant; the call never panics, never fails, never returns a zero UUID beside a
  nil error, and leaves the version 7 stream and the operating system's state alone.
\<close>

theorem new_v5_hashes_name:
  assumes "package_ok cfg p" "length ns = 16" "length name \<le> MaxV5Name (c_maxint cfg)"
  shows "\<exists>q. NewV5 cfg sc ns name p = Some (Inr (stamp 5 (take 16 (sha1 (ns @ name)))), q) \<and>
    package_ok cfg q \<and> stream_of q = stream_of p \<and> env q = env p"
  using newV5_returns [OF assms, of sc] assms(3) by (auto simp: NewV5_def checkV5Name_def answers_def v5_uuid_def)

theorem new_v5_hashes_name_witness:
  "\<exists>q. NewV5 sample_config Free (replicate 16 7) [104, 105] (init_package \<lparr>reads = [], clock = []\<rparr>) =
    Some (Inr (stamp 5 (take 16 (sha1 (replicate 16 7 @ [104, 105])))), q) \<and> package_ok sample_config q \<and>
    stream_of q = stream_of (init_package \<lparr>reads = [], clock = []\<rparr>) \<and> env q = env (init_package \<lparr>reads = [], clock = []\<rparr>)"
  by (rule new_v5_hashes_name)
    (simp_all add: init_package_ok MaxV5Name_def sample_config_def host_ok_def hostMaxPages_def pageSize_def)

text \<open>
  A longer name is refused with \<open>ErrNameTooLong\<close> before anything is touched or allocated, in
  both spellings of the function; the limit is what the guest can address, so it never lets a
  name through that the instance could not hold.
\<close>

theorem long_names_refused:
  assumes "MaxV5Name (c_maxint cfg) < length name"
  shows "NewV5 cfg sc ns name p = Some (Inl (GotName (length name)), p) \<and>
    NewV5String cfg sc ns name p = Some (Inl (GotName (length name)), p) \<and>
    sentinel_of (GotName (length name)) = Some ErrNameTooLong"
  using assms by (simp add: NewV5_def NewV5String_def checkV5Name_def)

theorem long_names_refused_witness:
  "NewV5 sample_config Free (replicate 16 7) (replicate 2147483648 0) (init_package \<lparr>reads = [], clock = []\<rparr>) =
      Some (Inl (GotName (length (replicate 2147483648 (0 :: u8)))), init_package \<lparr>reads = [], clock = []\<rparr>) \<and>
    NewV5String sample_config Free (replicate 16 7) (replicate 2147483648 0) (init_package \<lparr>reads = [], clock = []\<rparr>) =
      Some (Inl (GotName (length (replicate 2147483648 (0 :: u8)))), init_package \<lparr>reads = [], clock = []\<rparr>) \<and>
    sentinel_of (GotName (length (replicate 2147483648 (0 :: u8)))) = Some ErrNameTooLong"
  by (rule long_names_refused) (simp add: MaxV5Name_def sample_config_def)

text \<open>
  C15. The limit itself: it is at most what Go's \<open>len\<close> holds in 32 bits and whatever the host's
  \<open>int\<close>, a name of that length and the 32 bytes before it fit the pages a guest can have, so the
  two fallbacks of \<open>newV5\<close> (no pages, no instance) are never reached. The next length is
  refused by one of the two bounds the limit is the smaller of.
\<close>

theorem name_limit_exact:
  assumes "host_ok maxint"
  shows "(\<exists>pgs. scratchPagesFor maxint (n + 32) = Some pgs) \<and> n < 2 ^ 31 \<longleftrightarrow> n \<le> MaxV5Name maxint"
proof
  assume "n \<le> MaxV5Name maxint"
  then show "(\<exists>pgs. scratchPagesFor maxint (n + 32) = Some pgs) \<and> n < 2 ^ 31"
    using v5_name_fits(1,2) [OF assms] by simp
next
  assume fits: "(\<exists>pgs. scratchPagesFor maxint (n + 32) = Some pgs) \<and> n < 2 ^ 31"
  define q where "q = (n + 32 + 65535) div 65536"
  have "q + 2 \<le> hostMaxPages maxint"
    using fits unfolding scratchPagesFor_spec Let_def q_def [symmetric] by (auto split: if_splits)
  then have "(q + 2) * 65536 \<le> hostMaxPages maxint * 65536" by simp
  moreover have "n + 32 \<le> q * 65536"
    using div_mult_mod_eq [of "n + 32 + 65535" 65536] mod_less_divisor [of 65536 "n + 32 + 65535"]
    unfolding q_def by linarith
  ultimately show "n \<le> MaxV5Name maxint" using fits by (simp add: MaxV5Name_def pageSize_def)
qed

theorem name_limit_exact_witness:
  "(\<exists>pgs. scratchPagesFor 2147483647 (2147287007 + 32) = Some pgs) \<and> (2147287007 :: nat) < 2 ^ 31 \<longleftrightarrow>
    2147287007 \<le> MaxV5Name 2147483647"
  by (rule name_limit_exact) (simp add: host_ok_def)

end
