(* ===== verification/Host_Concurrency.thy ===== *)
theory Host_Concurrency
  imports Host_Contract Host_V5
begin

text \<open>
  Goroutines calling the package at the same time (\<open>src/go/core.go\<close>, \<open>src/go/core_pool.go\<close>,
  \<open>src/go/core_tinygo.go\<close>). Every version 7 call locks the primary and waits for it; a stateless
  call takes the primary only when \<open>TryLock\<close> finds it free and a pooled instance otherwise, and
  under TinyGo waits like the others. The steps of any number of goroutines interleave in any
  order; what a call does while it holds its instance is one step, since nobody else can reach
  that instance.
\<close>

section \<open>Calls\<close>

text \<open>The calls between \<open>acquire\<close> and \<open>release\<close>, with their arguments; only the instance is kept.\<close>

datatype stateless_call = SV4 | SV5 uuid "u8 list" | SVersion uuid i32 | SVariant uuid | SIsRfc uuid i32 i32
  | SMillis uuid | SMillisIn uuid i32 | SGetTimestamp uuid i32 | SToSql uuid | SToRfc uuid | SPacked

definition keep_inst :: "('a \<times> inst) option \<Rightarrow> os_env \<Rightarrow> (inst \<times> os_env) option" where
  "keep_inst r e = do { (_, i) \<leftarrow> r; Some (i, e) }"

fun run_stateless :: "config \<Rightarrow> stateless_call \<Rightarrow> inst \<Rightarrow> os_env \<Rightarrow> (inst \<times> os_env) option" where
  "run_stateless cfg SV4 i e = do { (_, i, e) \<leftarrow> i_newV4 (c_ctr cfg) i e; Some (i, e) }"
| "run_stateless cfg (SV5 ns name) i e = keep_inst (i_v5 ns name i) e"
| "run_stateless cfg (SVersion uid layout) i e = keep_inst (i_version uid layout i) e"
| "run_stateless cfg (SVariant uid) i e = keep_inst (i_variant uid i) e"
| "run_stateless cfg (SIsRfc uid v layout) i e = keep_inst (i_isRfc uid v layout i) e"
| "run_stateless cfg (SMillis uid) i e = keep_inst (i_v7UnixMillis uid i) e"
| "run_stateless cfg (SMillisIn uid layout) i e = keep_inst (i_v7UnixMillisIn uid layout i) e"
| "run_stateless cfg (SGetTimestamp uid layout) i e = keep_inst (i_getTimestamp uid layout i) e"
| "run_stateless cfg (SToSql uid) i e = keep_inst (i_v7ToSqlOrder uid i) e"
| "run_stateless cfg (SToRfc uid) i e = keep_inst (i_v7ToRfcOrder uid i) e"
| "run_stateless cfg SPacked i e = Some (i, e)"

text \<open>A UUID argument is a \<open>[16]byte\<close>, and only a name that fits the base scratch is acquired for.\<close>

fun stateless_ok :: "stateless_call \<Rightarrow> bool" where
  "stateless_ok SV4 \<longleftrightarrow> True"
| "stateless_ok (SV5 ns name) \<longleftrightarrow> length ns = 16 \<and> length name + 32 \<le> 65536"
| "stateless_ok (SVersion uid layout) \<longleftrightarrow> length uid = 16"
| "stateless_ok (SVariant uid) \<longleftrightarrow> length uid = 16"
| "stateless_ok (SIsRfc uid v layout) \<longleftrightarrow> length uid = 16"
| "stateless_ok (SMillis uid) \<longleftrightarrow> length uid = 16"
| "stateless_ok (SMillisIn uid layout) \<longleftrightarrow> length uid = 16"
| "stateless_ok (SGetTimestamp uid layout) \<longleftrightarrow> length uid = 16"
| "stateless_ok (SToSql uid) \<longleftrightarrow> length uid = 16"
| "stateless_ok (SToRfc uid) \<longleftrightarrow> length uid = 16"
| "stateless_ok SPacked \<longleftrightarrow> True"

text \<open>
  The requests whose arguments pass the checks made before the lock is taken; the others return
  their error, or nothing for an empty destination, without it.
\<close>

fun reaches_lock :: "v7_request \<Rightarrow> bool" where
  "reaches_lock (One ms) \<longleftrightarrow> True"
| "reaches_lock (AtTime t) \<longleftrightarrow> v7Epoch \<le> t \<and> t < v7PastCap"
| "reaches_lock (Batch n ms) \<longleftrightarrow> 0 < n \<and> n \<le> int MaxV7Batch"
| "reaches_lock (FillU dst ms) \<longleftrightarrow> dst \<noteq> [] \<and> length dst \<le> MaxV7Batch"
| "reaches_lock (FillB dst ms) \<longleftrightarrow> dst \<noteq> [] \<and> length dst mod 16 = 0 \<and> length dst div 16 \<le> MaxV7Batch"
| "reaches_lock (Aside sc) \<longleftrightarrow> False"

fun is_aside :: "v7_request \<Rightarrow> bool" where
  "is_aside (Aside sc) \<longleftrightarrow> True"
| "is_aside _ \<longleftrightarrow> False"

section \<open>Worlds and their steps\<close>

text \<open>
  A goroutine is outside the package, waits for the primary's lock, holds it in a version 7
  call, or runs a stateless call on an instance, with the flag \<open>acquire\<close> returned.
\<close>

datatype pc = Idle | Waits v7_request | Owns v7_request | Uses stateless_call inst bool

record world =
  pk :: package
  owner :: "nat option"
  pcs :: "nat \<Rightarrow> pc"
  hist :: "event list"

definition init_world :: "os_env \<Rightarrow> world" where
  "init_world e = \<lparr>pk = init_package e, owner = None, pcs = (\<lambda>_. Idle), hist = []\<rparr>"

text \<open>What \<open>TryLock\<close> answers: the primary's lock is free exactly when nobody owns it.\<close>

definition try_lock :: "nat option \<Rightarrow> nat option \<Rightarrow> sched" where
  "try_lock own k = (if own = None then Free else Busy k)"

inductive go_step :: "config \<Rightarrow> world \<Rightarrow> world \<Rightarrow> bool" for cfg where
  refuse: "pcs w g = Idle \<Longrightarrow> request_ok r \<Longrightarrow> \<not> is_aside r \<Longrightarrow> \<not> reaches_lock r \<Longrightarrow>
    mint cfg r (pk w) = Some (res, q) \<Longrightarrow>
    go_step cfg w (w\<lparr>pk := q, hist := hist w @ [\<lparr>request = r, outcome = res, reserved = False\<rparr>]\<rparr>)"
| call: "pcs w g = Idle \<Longrightarrow> request_ok r \<Longrightarrow> reaches_lock r \<Longrightarrow> primary cfg (pk w) = Some (i, q) \<Longrightarrow>
    go_step cfg w (w\<lparr>pk := q, pcs := (pcs w)(g := Waits r)\<rparr>)"
| lock: "pcs w g = Waits r \<Longrightarrow> owner w = None \<Longrightarrow>
    go_step cfg w (w\<lparr>pcs := (pcs w)(g := Owns r), owner := Some g\<rparr>)"
| finish: "pcs w g = Owns r \<Longrightarrow> mint cfg r (pk w) = Some (res, q) \<Longrightarrow>
    go_step cfg w (w\<lparr>pk := q, pcs := (pcs w)(g := Idle), owner := None,
      hist := hist w @ [\<lparr>request = r, outcome = res, reserved = (stream_of q \<noteq> stream_of (pk w))\<rparr>]\<rparr>)"
| acquire: "pcs w g = Idle \<Longrightarrow> stateless_ok c \<Longrightarrow> c_tinygo cfg \<longrightarrow> owner w = None \<Longrightarrow>
    acquire cfg (try_lock (owner w) k) (pk w) = Some (i, pooled, q) \<Longrightarrow>
    go_step cfg w (w\<lparr>pk := q, pcs := (pcs w)(g := Uses c i pooled), owner := if pooled then owner w else Some g\<rparr>)"
| release: "pcs w g = Uses c i pooled \<Longrightarrow> run_stateless cfg c i (env (pk w)) = Some (i', e) \<Longrightarrow>
    go_step cfg w (w\<lparr>pk := release cfg i' pooled ((pk w)\<lparr>env := e\<rparr>), pcs := (pcs w)(g := Idle),
      owner := if pooled then owner w else None\<rparr>)"

inductive reachable :: "config \<Rightarrow> os_env \<Rightarrow> world \<Rightarrow> bool" for cfg e where
  start: "reachable cfg e (init_world e)"
| step: "reachable cfg e w \<Longrightarrow> go_step cfg w w' \<Longrightarrow> reachable cfg e w'"

text \<open>The goroutines that hold the primary, and those inside the package.\<close>

definition holds_primary :: "world \<Rightarrow> nat \<Rightarrow> bool" where
  "holds_primary w g \<longleftrightarrow> (\<exists>r. pcs w g = Owns r) \<or> (\<exists>c i. pcs w g = Uses c i False)"

definition active :: "world \<Rightarrow> nat set" where
  "active w = {g. pcs w g \<noteq> Idle}"

section \<open>One step\<close>

lemma run_stateless_quiet:
  assumes i: "inst_ok (c_maxint cfg) i" and "stateless_ok c" "c \<noteq> SV4"
  shows "\<exists>i'. run_stateless cfg c i e = Some (i', e) \<and> quiet (c_maxint cfg) i i'"
  using assms(2,3)
proof (induction c rule: stateless_ok.induct)
  case (2 ns name)
  have "1 \<le> pages i" using i by (simp add: inst_ok_def)
  with 2 have "length ns = 16" "32 + length name \<le> pages i * 65536" "length name < 2147483648" by auto
  from i_v5_spec [OF i this] show ?case by (auto simp: keep_inst_def)
next
  case (3 uid layout)
  with i_version_spec [OF i, of uid layout] show ?case by (auto simp: keep_inst_def)
next
  case (4 uid)
  with i_variant_spec [OF i, of uid] show ?case by (auto simp: keep_inst_def)
next
  case (5 uid v layout)
  with i_isRfc_spec [OF i, of uid v layout] show ?case by (auto simp: keep_inst_def)
next
  case (6 uid)
  with i_v7UnixMillis_spec [OF i, of uid] show ?case by (auto simp: keep_inst_def)
next
  case (7 uid layout)
  with i_v7UnixMillisIn_spec [OF i, of uid layout] show ?case by (auto simp: keep_inst_def)
next
  case (8 uid layout)
  with i_getTimestamp_spec [OF i, of uid layout] show ?case by (auto simp: keep_inst_def)
next
  case (9 uid)
  with i_v7ToSqlOrder_spec [OF i, of uid] show ?case by (auto simp: keep_inst_def)
next
  case (10 uid)
  with i_v7ToRfcOrder_spec [OF i, of uid] show ?case by (auto simp: keep_inst_def)
qed (use i in \<open>simp_all add: quiet_def\<close>)

lemma run_stateless_settled:
  assumes i: "inst_ok (c_maxint cfg) i" and "stateless_ok c"
  shows "\<exists>i' e'. run_stateless cfg c i e = Some (i', e') \<and> settled (c_maxint cfg) i i'"
proof (cases "c = SV4")
  case True
  show ?thesis
    by (rule i_newV4_spec [OF i, of "c_ctr cfg" e]) (simp add: True settled_def)
next
  case False
  from run_stateless_quiet [OF assms False, of e] show ?thesis by (auto intro: quiet_settled)
qed

text \<open>What \<open>acquire\<close> gives and \<open>release\<close> takes back, in either build.\<close>

lemma primary_cases:
  assumes "package_ok cfg p"
  obtains i q where "primary cfg p = Some (i, q)" "package_ok cfg q" "prim q = Some i"
    "stream_of q = stream_of p" "inst_ok (c_maxint cfg) i" "prim p \<noteq> None \<Longrightarrow> q = p"
proof -
  obtain i q where q: "primary cfg p = Some (i, q)" "inst_ok (c_maxint cfg) i" "package_ok cfg q" "prim q = Some i"
    "stream_of q = stream_of p" using primary_ok [OF assms] by metis
  moreover have "q = p" if "prim p \<noteq> None" using that q(1) by (auto simp: primary_def)
  ultimately show thesis using that by blast
qed

lemma acquire_gives:
  assumes "package_ok cfg p" "c_tinygo cfg \<longrightarrow> own = None"
  obtains i q where "acquire cfg (try_lock own k) p = Some (i, own \<noteq> None, q)" "package_ok cfg q"
    "stream_of q = stream_of p" "inst_ok (c_maxint cfg) i" "own = None \<Longrightarrow> prim q = Some i"
    "own \<noteq> None \<Longrightarrow> base_inst cfg i" "prim p \<noteq> None \<Longrightarrow> prim q = prim p" "prim q \<noteq> None"
proof (rule primary_cases [OF assms(1)])
  fix i q assume q: "primary cfg p = Some (i, q)" "package_ok cfg q" "prim q = Some i"
    "stream_of q = stream_of p" "inst_ok (c_maxint cfg) i" "prim p \<noteq> None \<Longrightarrow> q = p"
  show thesis
  proof (cases own)
    case None
    show thesis
      by (rule that [of i q])
        (use None q in \<open>auto simp: acquire_def acquire_tinygo_def acquire_pool_def try_lock_def\<close>)
  next
    case (Some g)
    obtain j q' where j: "pool_get cfg k q = Some (j, q')" "base_inst cfg j" "package_ok cfg q'" "prim q' = prim q"
      using pool_get_ok [OF q(2)] by metis
    show thesis
      by (rule that [of j q'])
        (use Some q j assms(2) in \<open>auto simp: acquire_def acquire_pool_def try_lock_def stream_of_def base_inst_def\<close>)
  qed
qed

lemma acquire_some:
  assumes "package_ok cfg p" "c_tinygo cfg \<longrightarrow> own = None"
  shows "\<exists>i q. acquire cfg (try_lock own k) p = Some (i, own \<noteq> None, q)"
  by (rule acquire_gives [OF assms, of k]) blast

lemma acquire_pooled:
  "package_ok cfg p \<Longrightarrow> \<not> c_tinygo cfg \<Longrightarrow> \<exists>i q. acquire cfg (try_lock (Some g) k) p = Some (i, True, q)"
  using acquire_some [of cfg p "Some g" k] by simp

lemma release_takes:
  assumes "package_ok cfg p" "settled (c_maxint cfg) i i'" "if pooled then base_inst cfg i else prim p = Some i"
    "pooled \<longrightarrow> \<not> c_tinygo cfg"
  shows "package_ok cfg (release cfg i' pooled p)" "stream_of (release cfg i' pooled p) = stream_of p"
    "prim (release cfg i' pooled p) = (if pooled then prim p else Some i')"
  using assms
  by (auto simp: release_def release_tinygo_def release_pool_def package_ok_def settled_def base_inst_def stream_of_def)

section \<open>The invariant\<close>

text \<open>A history by itself: what \<open>Host_Contract\<close> proves of sequential histories, with events appended.\<close>

definition history_ok :: "nat \<Rightarrow> event list \<Rightarrow> bool" where
  "history_ok S evs \<longleftrightarrow> stream_inv S (newest 0 evs) \<and> increasing (stream_output evs) \<and>
     (\<forall>u\<in>set (stream_output evs). \<exists>b h. h \<le> S \<and> stream_values b h [u]) \<and>
     (\<forall>j<length evs. event_ok (newest 0 (take j evs)) (evs ! j))"

lemma newest_snoc: "newest N (evs @ [e]) = (if reserved e then max (newest N evs) (millis_of e) else newest N evs)"
  by (induction evs arbitrary: N) simp_all

lemma stream_output_snoc: "stream_output (evs @ [e]) = stream_output evs @ (if reserved e then values_of e else [])"
  by (simp add: stream_output_def)

lemma history_snoc:
  assumes "history_ok S evs" "stream_step S r res S'"
  shows "history_ok S' (evs @ [\<lparr>request = r, outcome = res, reserved = (S' \<noteq> S)\<rparr>])" (is "history_ok S' (evs @ [?e])")
proof -
  have h: "stream_inv S (newest 0 evs)" "increasing (stream_output evs)"
    "\<forall>u\<in>set (stream_output evs). \<exists>b h. h \<le> S \<and> stream_values b h [u]"
    "\<forall>j<length evs. event_ok (newest 0 (take j evs)) (evs ! j)"
    using assms(1) by (simp_all add: history_ok_def)
  have inv: "stream_inv S' (newest 0 (evs @ [?e]))"
    using stream_step_inv [OF assms(2) h(1)] by (auto simp: newest_snoc millis_of_def split: if_splits)
  have events: "\<forall>j<length (evs @ [?e]). event_ok (newest 0 (take j (evs @ [?e]))) ((evs @ [?e]) ! j)"
    using h(4) stream_step_event [OF assms(2) h(1)] by (auto simp: nth_append less_Suc_eq)
  show ?thesis
  proof (cases "S' = S")
    case True
    with h inv events show ?thesis by (simp add: history_ok_def stream_output_snoc)
  next
    case False
    with assms(2) obtain k us where call: "v7_call k S (request_millis r) 0 us S'" "res = Inr us"
      by (cases rule: stream_step_cases) auto
    obtain b where b: "S < S'" "S < b" "stream_values b S' us" "increasing us"
      using v7_call_order [OF call(1) False] by blast
    have out: "stream_output (evs @ [?e]) = stream_output evs @ us"
      using False by (simp add: stream_output_snoc values_of_def call(2))
    have before: "be_nat u < be_nat v" if "u \<in> set (stream_output evs)" "v \<in> set us" for u v
    proof -
      obtain b' h' where "h' \<le> S" "stream_values b' h' [u]" using h(3) \<open>u \<in> set (stream_output evs)\<close> by blast
      with b that(2) show ?thesis using stream_values_less [of b' h' "[u]" b S' us u v] by simp
    qed
    have "\<exists>b h. h \<le> S' \<and> stream_values b h [u]" if "u \<in> set (stream_output evs @ us)" for u
    proof (cases "u \<in> set us")
      case True
      then show ?thesis using b(3) by (intro exI [of _ b] exI [of _ S']) (simp add: stream_values_def)
    next
      case False
      with that h(3) obtain b' h' where "h' \<le> S" "stream_values b' h' [u]" by auto
      with b(1) show ?thesis by (intro exI [of _ b'] exI [of _ h']) simp
    qed
    with inv events h(2) b(4) before show ?thesis
      unfolding history_ok_def out by (auto simp: increasing_def sorted_wrt_append)
  qed
qed

fun pc_ok :: "config \<Rightarrow> package \<Rightarrow> pc \<Rightarrow> bool" where
  "pc_ok cfg p Idle \<longleftrightarrow> True"
| "pc_ok cfg p (Waits r) \<longleftrightarrow> request_ok r"
| "pc_ok cfg p (Owns r) \<longleftrightarrow> request_ok r"
| "pc_ok cfg p (Uses c i pooled) \<longleftrightarrow> stateless_ok c \<and> inst_ok (c_maxint cfg) i \<and>
     (if pooled then base_inst cfg i \<and> \<not> c_tinygo cfg else prim p = Some i)"

definition world_ok :: "config \<Rightarrow> world \<Rightarrow> bool" where
  "world_ok cfg w \<longleftrightarrow> package_ok cfg (pk w) \<and> history_ok (stream_of (pk w)) (hist w) \<and>
     (\<forall>g. owner w = Some g \<longleftrightarrow> holds_primary w g) \<and> (\<forall>g. pc_ok cfg (pk w) (pcs w g))"

lemma init_world_ok: "host_ok (c_maxint cfg) \<Longrightarrow> world_ok cfg (init_world e)"
  using init_package_ok(1) [of cfg e] init_package_ok(2) [of e]
  by (simp add: world_ok_def init_world_def holds_primary_def history_ok_def stream_inv_unused
      stream_output_def increasing_def)

lemma refused_untouched:
  assumes "\<not> is_aside r" "\<not> reaches_lock r"
  shows "\<exists>res. mint cfg r p = Some (res, p)"
  using assms
  by (cases r) (auto simp: NewV7AtTime_def NewV7BatchAt_def FillV7At_def fillUUIDs_def FillV7BytesAt_def
      fillBytes_def MaxV7Batch_def filled_def not_less)

text \<open>A goroutine's state stays right when the package keeps its primary, or nobody else relies on it.\<close>

lemma pc_ok_frame: "pc_ok cfg p c \<Longrightarrow> prim p = None \<or> prim q = prim p \<Longrightarrow> pc_ok cfg q c"
  by (cases c) (auto split: if_splits)

lemma history_quiet:
  assumes "history_ok S evs" "stream_step S r res S"
  shows "history_ok S (evs @ [\<lparr>request = r, outcome = res, reserved = False\<rparr>])"
  using history_snoc [OF assms] by simp

lemma go_step_ok:
  assumes "go_step cfg w w'" "world_ok cfg w"
  shows "world_ok cfg w'"
proof -
  have ok: "package_ok cfg (pk w)" "history_ok (stream_of (pk w)) (hist w)"
    "\<And>g. owner w = Some g \<longleftrightarrow> holds_primary w g" "\<And>g. pc_ok cfg (pk w) (pcs w g)"
    and inv: "stream_inv (stream_of (pk w)) (newest 0 (hist w))"
    using assms(2) by (simp_all add: world_ok_def history_ok_def)
  from assms(1) show ?thesis
  proof (cases rule: go_step.cases)
    case (refuse g r res q)
    obtain res' where "mint cfg r (pk w) = Some (res', pk w)" using refused_untouched [OF refuse(4,5)] by blast
    with refuse(6) have q: "q = pk w" by simp
    have "stream_step (stream_of (pk w)) r res (stream_of (pk w))"
      using mint_returns [OF ok(1) inv refuse(3)] refuse(6) unfolding q by auto
    then show ?thesis
      using ok history_quiet [OF ok(2)] unfolding refuse(1) q
      by (simp add: world_ok_def holds_primary_def)
  next
    case (call g r i q)
    obtain j q' where "primary cfg (pk w) = Some (j, q')" "package_ok cfg q'" "stream_of q' = stream_of (pk w)"
      "prim (pk w) \<noteq> None \<Longrightarrow> q' = pk w" using primary_cases [OF ok(1)] by metis
    with call(5) have q: "package_ok cfg q" "stream_of q = stream_of (pk w)" "prim (pk w) = None \<or> prim q = prim (pk w)"
      by (cases "prim (pk w)"; auto)+
    show ?thesis
      using ok q call(2,3) pc_ok_frame [OF ok(4) q(3)] unfolding call(1)
      by (auto simp: world_ok_def holds_primary_def)
  next
    case (lock g r)
    then show ?thesis using ok lock(2,3) ok(4) [of g]
      by (auto simp: world_ok_def holds_primary_def)
  next
    case (finish g r res q)
    have own: "owner w = Some g" using ok(3) [of g] finish(2) by (auto simp: holds_primary_def)
    have r: "request_ok r" using ok(4) [of g] finish(2) by simp
    have q: "package_ok cfg q" "stream_step (stream_of (pk w)) r res (stream_of q)"
      using mint_returns [OF ok(1) inv r] finish(3) by auto
    have others: "pc_ok cfg q (pcs w h)" if "h \<noteq> g" for h
    proof -
      have "\<not> holds_primary w h" using ok(3) [of h] own that by auto
      then show ?thesis using ok(4) [of h] by (cases "pcs w h") (auto simp: holds_primary_def split: if_splits)
    qed
    have none: "\<not> holds_primary w h" if "h \<noteq> g" for h using ok(3) [of h] own that by auto
    show ?thesis
      using q history_snoc [OF ok(2) q(2)] others none unfolding finish(1)
      by (auto simp: world_ok_def holds_primary_def)
  next
    case (acquire g c k i pooled q)
    obtain j q' where j: "acquire cfg (try_lock (owner w) k) (pk w) = Some (j, owner w \<noteq> None, q')" "package_ok cfg q'"
      "stream_of q' = stream_of (pk w)" "inst_ok (c_maxint cfg) j" "owner w = None \<Longrightarrow> prim q' = Some j"
      "owner w \<noteq> None \<Longrightarrow> base_inst cfg j" "prim (pk w) \<noteq> None \<Longrightarrow> prim q' = prim (pk w)"
      using acquire_gives [OF ok(1) acquire(4), of k] by metis
    then have q: "i = j" "q = q'" "pooled = (owner w \<noteq> None)" using acquire(5) by simp_all
    have others: "pc_ok cfg q (pcs w h)" for h
      unfolding q using j(7) by (intro pc_ok_frame [OF ok(4)]) blast
    have "\<not> holds_primary w h" if "owner w = None" for h using ok(3) [of h] that by simp
    then show ?thesis
      using j ok others acquire(2,3,4) unfolding acquire(1) q
      by (cases "owner w") (auto simp: world_ok_def holds_primary_def)
  next
    case (release g c i pooled i' e)
    have u: "stateless_ok c" "inst_ok (c_maxint cfg) i" "if pooled then base_inst cfg i \<and> \<not> c_tinygo cfg else prim (pk w) = Some i"
      using ok(4) [of g] release(2) by simp_all
    let ?p = "(pk w)\<lparr>env := e\<rparr>"
    have p: "package_ok cfg ?p" "stream_of ?p = stream_of (pk w)" using ok(1) by (simp_all add: package_ok_def stream_of_def)
    have s: "settled (c_maxint cfg) i i'" using run_stateless_settled [OF u(2,1), of "env (pk w)"] release(3) by auto
    have q: "package_ok cfg (Host_Package.release cfg i' pooled ?p)"
      "stream_of (Host_Package.release cfg i' pooled ?p) = stream_of (pk w)"
      "prim (Host_Package.release cfg i' pooled ?p) = (if pooled then prim (pk w) else Some i')"
      using release_takes [OF p(1) s, of pooled] u(3) p(2) by (auto split: if_splits)
    have own: "owner w = Some g" if "\<not> pooled" using that ok(3) [of g] release(2) by (auto simp: holds_primary_def)
    have others: "pc_ok cfg (Host_Package.release cfg i' pooled ?p) (pcs w h)" if "h \<noteq> g" for h
    proof (cases pooled)
      case True
      then show ?thesis using q(3) by (intro pc_ok_frame [OF ok(4)]) simp
    next
      case False
      then have "\<not> holds_primary w h" using ok(3) [of h] own that by auto
      then show ?thesis using ok(4) [of h] by (cases "pcs w h") (auto simp: holds_primary_def split: if_splits)
    qed
    have "\<not> holds_primary w h" if "\<not> pooled" "h \<noteq> g" for h using ok(3) [of h] own that by auto
    then show ?thesis
      using q ok(2,3) others release(2) unfolding release(1)
      by (auto simp: world_ok_def holds_primary_def)
  qed
qed

lemma reachable_ok: "reachable cfg e w \<Longrightarrow> host_ok (c_maxint cfg) \<Longrightarrow> world_ok cfg w"
  by (induction rule: reachable.induct) (auto simp: init_world_ok intro: go_step_ok)

section \<open>Progress\<close>

text \<open>
  \<open>work\<close> counts the steps left to the goroutines inside the package; \<open>pending\<close> are the version 7
  calls without a result yet.
\<close>

fun weight :: "pc \<Rightarrow> nat" where
  "weight Idle = 0"
| "weight (Waits r) = 2"
| "weight (Owns r) = 1"
| "weight (Uses c i pooled) = 1"

definition work :: "nat set \<Rightarrow> world \<Rightarrow> nat" where
  "work A w = (\<Sum>g\<in>A. weight (pcs w g))"

definition pending :: "world \<Rightarrow> nat set" where
  "pending w = {g. (\<exists>r. pcs w g = Waits r) \<or> (\<exists>r. pcs w g = Owns r)}"

lemma work_less:
  assumes "finite A" "g \<in> A" "pcs w' = (pcs w)(g := c)" "weight c < weight (pcs w g)"
  shows "work A w' < work A w"
  unfolding work_def using assms by (intro sum_strict_mono_ex1) auto

lemma reachable_finite: "reachable cfg e w \<Longrightarrow> finite (active w)"
proof (induction rule: reachable.induct)
  case start
  then show ?case by (simp add: active_def init_world_def)
next
  case (step w w')
  from step.hyps(2) have "\<exists>g c. pcs w' = (pcs w)(g := c)"
    by (cases rule: go_step.cases) (auto intro: fun_upd_triv [symmetric])
  then obtain g c where "pcs w' = (pcs w)(g := c)" by blast
  then have "active w' \<subseteq> insert g (active w)" by (auto simp: active_def)
  with step.IH show ?case by (meson finite_insert finite_subset)
qed

text \<open>Somebody inside the package can always move on: the owner of the lock, or else anyone.\<close>

lemma finish_step:
  assumes "world_ok cfg w" "pcs w g = Owns r"
  shows "\<exists>w'. go_step cfg w w' \<and> pcs w' = (pcs w)(g := Idle) \<and> length (hist w') = Suc (length (hist w))"
proof -
  have "package_ok cfg (pk w)" "stream_inv (stream_of (pk w)) (newest 0 (hist w))" "request_ok r"
    using assms by (auto simp: world_ok_def history_ok_def dest: spec [where x = g])
  then obtain res q where "mint cfg r (pk w) = Some (res, q)" using mint_returns by blast
  from go_step.finish [OF assms(2) this] show ?thesis by fastforce
qed

lemma release_step:
  assumes "world_ok cfg w" "pcs w g = Uses c i pooled"
  shows "\<exists>w'. go_step cfg w w' \<and> pcs w' = (pcs w)(g := Idle) \<and> hist w' = hist w \<and> stream_of (pk w') = stream_of (pk w)"
proof -
  have ok: "package_ok cfg (pk w)" "inst_ok (c_maxint cfg) i" "stateless_ok c"
    "if pooled then base_inst cfg i \<and> \<not> c_tinygo cfg else prim (pk w) = Some i"
    using assms by (auto simp: world_ok_def dest: spec [where x = g])
  then obtain i' e where run: "run_stateless cfg c i (env (pk w)) = Some (i', e)" "settled (c_maxint cfg) i i'"
    using run_stateless_settled by blast
  have "stream_of (release cfg i' pooled ((pk w)\<lparr>env := e\<rparr>)) = stream_of (pk w)"
    using release_takes(2) [of cfg "(pk w)\<lparr>env := e\<rparr>" i i' pooled] ok run(2)
    by (auto simp: package_ok_def stream_of_def split: if_splits)
  with go_step.release [OF assms(2) run(1)] show ?thesis by fastforce
qed

lemma some_step:
  assumes "world_ok cfg w" "active w \<noteq> {}"
  obtains w' g c where "go_step cfg w w'" "pcs w' = (pcs w)(g := c)" "weight c < weight (pcs w g)" "g \<in> active w"
    "(c = Idle \<and> g \<in> pending w \<and> length (hist w') = Suc (length (hist w))) \<or>
     (c = Idle \<and> g \<notin> pending w \<and> hist w' = hist w) \<or> (\<exists>r. c = Owns r \<and> g \<in> pending w \<and> hist w' = hist w)"
proof (cases "owner w")
  case None
  then have free: "\<not> holds_primary w h" for h using assms(1) by (auto simp: world_ok_def)
  obtain g where g: "pcs w g \<noteq> Idle" using assms(2) by (auto simp: active_def)
  show thesis
  proof (cases "pcs w g")
    case (Waits r)
    with g show thesis
      by (intro that [OF go_step.lock [OF Waits None], of g "Owns r"]) (auto simp: active_def pending_def)
  next
    case (Uses c i pooled)
    obtain w' where "go_step cfg w w'" "pcs w' = (pcs w)(g := Idle)" "hist w' = hist w"
      using release_step [OF assms(1) Uses] by blast
    with Uses g show thesis by (intro that [of w' g Idle]) (auto simp: active_def pending_def)
  qed (use g free [of g] in \<open>auto simp: holds_primary_def\<close>)
next
  case (Some g)
  then have "holds_primary w g" using assms(1) unfolding world_ok_def by blast
  then consider r where "pcs w g = Owns r" | c i where "pcs w g = Uses c i False" by (auto simp: holds_primary_def)
  then show thesis
  proof cases
    case 1
    obtain w' where "go_step cfg w w'" "pcs w' = (pcs w)(g := Idle)" "length (hist w') = Suc (length (hist w))"
      using finish_step [OF assms(1) 1] by blast
    with 1 show thesis by (intro that [of w' g Idle]) (auto simp: active_def pending_def)
  next
    case 2
    obtain w' where "go_step cfg w w'" "pcs w' = (pcs w)(g := Idle)" "hist w' = hist w"
      using release_step [OF assms(1) 2] by blast
    with 2 show thesis by (intro that [of w' g Idle]) (auto simp: active_def pending_def)
  qed
qed

lemma world_drains:
  assumes "world_ok cfg w" "finite A" "active w \<subseteq> A"
  shows "\<exists>w'. rtranclp (go_step cfg) w w' \<and> active w' = {} \<and> length (hist w') = length (hist w) + card (pending w)"
  using assms
proof (induction "work A w" arbitrary: w rule: less_induct)
  case less
  show ?case
  proof (cases "active w = {}")
    case True
    then have "pending w = {}" by (auto simp: active_def pending_def)
    with True show ?thesis by auto
  next
    case False
    obtain w1 g c where w1: "go_step cfg w w1" "pcs w1 = (pcs w)(g := c)" "weight c < weight (pcs w g)" "g \<in> active w"
      "(c = Idle \<and> g \<in> pending w \<and> length (hist w1) = Suc (length (hist w))) \<or>
       (c = Idle \<and> g \<notin> pending w \<and> hist w1 = hist w) \<or> (\<exists>r. c = Owns r \<and> g \<in> pending w \<and> hist w1 = hist w)"
      using some_step [OF less.prems(1) False] by metis
    have sub: "active w1 \<subseteq> A" using w1(2,4) less.prems(3) by (auto simp: active_def split: if_splits)
    have fin: "finite (pending w)"
      using less.prems(2,3) by (rule_tac finite_subset [of _ A]) (auto simp: pending_def active_def)
    have count: "length (hist w1) + card (pending w1) = length (hist w) + card (pending w)"
      using w1(5)
    proof (elim disjE conjE exE)
      assume "c = Idle" "g \<in> pending w" "length (hist w1) = Suc (length (hist w))"
      moreover from this have "pending w1 = pending w - {g}" using w1(2) by (auto simp: pending_def)
      ultimately show ?thesis using fin card_Suc_Diff1 [of "pending w" g] by simp
    next
      assume "c = Idle" "g \<notin> pending w" "hist w1 = hist w"
      moreover from this have "pending w1 = pending w" using w1(2) by (auto simp: pending_def split: if_splits)
      ultimately show ?thesis by simp
    next
      fix r assume "c = Owns r" "g \<in> pending w" "hist w1 = hist w"
      moreover from this have "pending w1 = pending w" using w1(2) by (auto simp: pending_def split: if_splits)
      ultimately show ?thesis by simp
    qed
    have "work A w1 < work A w" using w1(2-4) less.prems(2,3) by (intro work_less) auto
    from less.hyps [OF this go_step_ok [OF w1(1) less.prems(1)] less.prems(2) sub]
    obtain w' where "rtranclp (go_step cfg) w1 w'" "active w' = {}"
      "length (hist w') = length (hist w1) + card (pending w1)" by blast
    with count w1(1) show ?thesis by (metis converse_rtranclp_into_rtranclp)
  qed
qed

text \<open>
  A world for witnesses: goroutine 0 holds the primary's lock in a version 7 call, 1 runs a
  stateless call on a pooled instance meanwhile, 2 waits for the lock.
\<close>

lemma contended_world:
  obtains w i where "reachable sample_config sample_env w" "pcs w 0 = Owns (One 90000)" "pcs w 1 = Uses SV4 i True"
    "pcs w 2 = Waits (One 5)" "pcs w 3 = Idle" "hist w = []"
proof -
  let ?w = "init_world sample_env"
  have ok: "world_ok sample_config v" if "reachable sample_config sample_env v" for v
    using reachable_ok [OF that] by simp
  note r0 = reachable.start [of sample_config sample_env]
  obtain i q where q: "primary sample_config (pk ?w) = Some (i, q)"
    using ok [OF r0] primary_cases by (metis world_ok_def)
  let ?w1 = "?w\<lparr>pk := q, pcs := (pcs ?w)(0 := Waits (One 90000))\<rparr>"
  have r1: "reachable sample_config sample_env ?w1"
    by (rule reachable.step [OF r0 go_step.call [OF _ _ _ q]]) (simp_all add: init_world_def)
  let ?w2 = "?w1\<lparr>pcs := (pcs ?w1)(0 := Owns (One 90000)), owner := Some 0\<rparr>"
  have r2: "reachable sample_config sample_env ?w2"
    by (rule reachable.step [OF r1 go_step.lock]) (simp_all add: init_world_def)
  have "package_ok sample_config q" using ok [OF r2] by (simp add: world_ok_def)
  moreover have tiny: "\<not> c_tinygo sample_config" by (simp add: sample_config_def)
  ultimately obtain j q' where j: "acquire sample_config (try_lock (Some 0) None) q = Some (j, True, q')"
    using acquire_pooled by blast
  let ?w3 = "?w2\<lparr>pk := q', pcs := (pcs ?w2)(1 := Uses SV4 j True), owner := if True then owner ?w2 else Some 1\<rparr>"
  have r3: "reachable sample_config sample_env ?w3"
    by (rule reachable.step [OF r2 go_step.acquire [where k = None]]) (use j tiny in \<open>simp_all add: init_world_def\<close>)
  have "package_ok sample_config q'" using ok [OF r3] by (simp add: world_ok_def)
  then obtain k q'' where k: "primary sample_config q' = Some (k, q'')" by (rule primary_cases)
  let ?w4 = "?w3\<lparr>pk := q'', pcs := (pcs ?w3)(2 := Waits (One 5))\<rparr>"
  have r4: "reachable sample_config sample_env ?w4"
    by (rule reachable.step [OF r3 go_step.call]) (use k in \<open>simp_all add: init_world_def\<close>)
  show thesis by (rule that [OF r4]) (simp_all add: init_world_def)
qed

section \<open>Properties\<close>

text \<open>
  C23. However goroutines interleave, at most one of them holds the primary, in a version 7 call
  or in a stateless one that found the lock free, and it is the one the lock says; the instance
  it works on is the package's primary.
\<close>

theorem primary_is_exclusive:
  assumes "reachable cfg e w" "host_ok (c_maxint cfg)"
  shows "(holds_primary w g \<longleftrightarrow> owner w = Some g) \<and> (holds_primary w g \<longrightarrow> holds_primary w h \<longrightarrow> g = h) \<and>
    (pcs w g = Uses c i False \<longrightarrow> prim (pk w) = Some i)"
proof -
  have ok: "owner w = Some k \<longleftrightarrow> holds_primary w k" "pc_ok cfg (pk w) (pcs w k)" for k
    using reachable_ok [OF assms] unfolding world_ok_def by blast+
  have "g = h" if "holds_primary w g" "holds_primary w h"
  proof -
    have "owner w = Some g" "owner w = Some h" using ok(1) that by blast+
    then show ?thesis by simp
  qed
  moreover have "prim (pk w) = Some i" if "pcs w g = Uses c i False" using ok(2) [of g] that by simp
  ultimately show ?thesis using ok(1) by blast
qed

theorem primary_is_exclusive_witness:
  "\<exists>w i. reachable sample_config sample_env w \<and> holds_primary w 0 \<and> \<not> holds_primary w 1 \<and> owner w = Some 0 \<and>
    pcs w 1 = Uses SV4 i True"
proof (rule contended_world)
  fix w i assume w: "reachable sample_config sample_env w" "pcs w 0 = Owns (One 90000)" "pcs w 1 = Uses SV4 i True"
  then have "holds_primary w 0" by (simp add: holds_primary_def)
  with w primary_is_exclusive [OF w(1) sample_config_ok, of 0 1] show ?thesis by auto
qed

text \<open>
  C24. The comment of the pool: its instances never run a version 7 call, so their counters are
  never used. In every reachable world every instance in the pool, and every pooled instance a
  stateless call is working on, is well-formed, still base-sized and has an unused stream, and
  the package as a whole is well-formed.
\<close>

theorem pooled_streams_unused:
  assumes "reachable cfg e w" "host_ok (c_maxint cfg)"
  shows "package_ok cfg (pk w) \<and> (\<forall>i\<in>set (pool (pk w)). base_inst cfg i) \<and>
    (pcs w g = Uses c i True \<longrightarrow> base_inst cfg i \<and> stream_word (im i) = 0)"
proof -
  have ok: "package_ok cfg (pk w)" "pc_ok cfg (pk w) (pcs w g)"
    using reachable_ok [OF assms] by (simp_all add: world_ok_def)
  then show ?thesis by (auto simp: package_ok_def base_inst_def)
qed

theorem pooled_streams_unused_witness:
  "\<exists>w i. reachable sample_config sample_env w \<and> pcs w 1 = Uses SV4 i True \<and> package_ok sample_config (pk w) \<and>
    stream_word (im i) = 0"
proof (rule contended_world)
  fix w i assume w: "reachable sample_config sample_env w" "pcs w 1 = Uses SV4 i True"
  with pooled_streams_unused [OF w(1) sample_config_ok, of 1 SV4 i] show ?thesis by blast
qed

text \<open>
  C2. The ordering contract under concurrency: in every interleaving of any number of
  goroutines, the values minted in the stream, taken in the order their calls held the lock, are
  strictly increasing, so no two calls ever share a value; each event keeps the contract of a
  sequential call, with the timestamps the documentation gives, measured against the newest
  timestamp reserved before it.
\<close>

theorem concurrent_ordering:
  assumes "reachable cfg e w" "host_ok (c_maxint cfg)"
  shows "increasing (stream_output (hist w)) \<and> distinct (stream_output (hist w)) \<and>
    (\<forall>j<length (hist w). event_ok (newest 0 (take j (hist w))) (hist w ! j))"
proof -
  have "history_ok (stream_of (pk w)) (hist w)" using reachable_ok [OF assms] by (simp add: world_ok_def)
  moreover have "distinct us" if "increasing us" for us
    using that by (induction us) (auto simp: increasing_def)
  ultimately show ?thesis by (simp add: history_ok_def)
qed

theorem concurrent_ordering_witness:
  "\<exists>w. reachable sample_config sample_env w \<and> length (hist w) = 1 \<and> increasing (stream_output (hist w)) \<and>
    event_ok 0 (hist w ! 0)"
proof (rule contended_world)
  fix w i assume w: "reachable sample_config sample_env w" "pcs w 0 = Owns (One 90000)" "hist w = []"
  obtain w' where w': "go_step sample_config w w'" "length (hist w') = Suc (length (hist w))"
    using finish_step [OF reachable_ok [OF w(1) sample_config_ok] w(2)] by blast
  have "reachable sample_config sample_env w'" by (rule reachable.step [OF w(1) w'(1)])
  then show ?thesis using w'(2) w(3) concurrent_ordering [OF _ sample_config_ok, of sample_env w']
    by (intro exI [of _ w']) auto
qed

text \<open>
  C26. No call is ever stuck: from every reachable world, whatever the goroutines are doing, there
  is a way on in which every one of them leaves the package, and then each version 7 call that
  was waiting for the lock or holding it has exactly one result in the history.
\<close>

theorem calls_complete:
  assumes "reachable cfg e w" "host_ok (c_maxint cfg)"
  shows "\<exists>w'. rtranclp (go_step cfg) w w' \<and> (\<forall>g. pcs w' g = Idle) \<and> owner w' = None \<and>
    length (hist w') = length (hist w) + card (pending w)"
proof -
  obtain w' where w': "rtranclp (go_step cfg) w w'" "active w' = {}" "length (hist w') = length (hist w) + card (pending w)"
    using world_drains [OF reachable_ok [OF assms] reachable_finite [OF assms(1)] subset_refl] by blast
  have "world_ok cfg w'"
    using w'(1) reachable_ok [OF assms] by (induction rule: rtranclp_induct) (auto intro: go_step_ok)
  moreover have "pcs w' g = Idle" for g using w'(2) by (auto simp: active_def)
  ultimately have "owner w' = None" by (cases "owner w'") (auto simp: world_ok_def holds_primary_def)
  with w' \<open>\<And>g. pcs w' g = Idle\<close> show ?thesis by blast
qed

theorem calls_complete_witness:
  "\<exists>w w'. reachable sample_config sample_env w \<and> 0 \<in> pending w \<and> 2 \<in> pending w \<and> rtranclp (go_step sample_config) w w' \<and>
    (\<forall>g. pcs w' g = Idle) \<and> length (hist w') = length (hist w) + card (pending w)"
proof (rule contended_world)
  fix w i assume w: "reachable sample_config sample_env w" "pcs w 0 = Owns (One 90000)" "pcs w 2 = Waits (One 5)"
  then have "0 \<in> pending w" "2 \<in> pending w" by (simp_all add: pending_def)
  with w(1) calls_complete [OF w(1) sample_config_ok] show ?thesis by blast
qed

text \<open>
  C27. A stateless call does not wait for the primary where instances are pooled. In every
  reachable world of such a build, whoever holds the lock and whichever instance the pool hands
  out (\<open>k\<close>), a goroutine outside the package can start a stateless call, with a pooled instance
  exactly when somebody holds the lock, and its next step completes it; the two steps, with
  nobody else moving, change neither the history nor the stream. In a TinyGo build the same holds
  while nobody owns the primary; while somebody does, the call waits: no step starts it.
\<close>

theorem stateless_never_waits:
  assumes "reachable cfg e w" "host_ok (c_maxint cfg)" "pcs w g = Idle" "stateless_ok c"
  shows "if c_tinygo cfg \<and> owner w \<noteq> None
    then \<forall>w1. go_step cfg w w1 \<longrightarrow> (\<forall>d i pooled. pcs w1 g \<noteq> Uses d i pooled)
    else \<exists>i q w1 w2. acquire cfg (try_lock (owner w) k) (pk w) = Some (i, owner w \<noteq> None, q) \<and>
      go_step cfg w w1 \<and> pk w1 = q \<and> pcs w1 = (pcs w)(g := Uses c i (owner w \<noteq> None)) \<and>
      go_step cfg w1 w2 \<and> pcs w2 = pcs w \<and> hist w2 = hist w \<and> stream_of (pk w2) = stream_of (pk w)"
proof (cases "c_tinygo cfg \<and> owner w \<noteq> None")
  case True
  have "pcs w1 g \<noteq> Uses d i pooled" if "go_step cfg w w1" for w1 d i pooled
    using that by (cases rule: go_step.cases) (use True assms(3) in \<open>auto split: if_splits\<close>)
  with True show ?thesis by simp
next
  case False
  have ok: "world_ok cfg w" by (rule reachable_ok [OF assms(1,2)])
  then have p: "package_ok cfg (pk w)" "c_tinygo cfg \<longrightarrow> owner w = None"
    using False by (simp add: world_ok_def, blast)
  obtain i q where q: "acquire cfg (try_lock (owner w) k) (pk w) = Some (i, owner w \<noteq> None, q)" "stream_of q = stream_of (pk w)"
    by (rule acquire_gives [OF p, of k]) blast
  let ?w1 = "w\<lparr>pk := q, pcs := (pcs w)(g := Uses c i (owner w \<noteq> None)),
    owner := if owner w \<noteq> None then owner w else Some g\<rparr>"
  have w1: "go_step cfg w ?w1" by (rule go_step.acquire [OF assms(3,4) p(2) q(1)])
  obtain w2 where "go_step cfg ?w1 w2" "pcs w2 = (pcs ?w1)(g := Idle)" "hist w2 = hist ?w1" "stream_of (pk w2) = stream_of q"
    using release_step [OF go_step_ok [OF w1 ok], of g c i "owner w \<noteq> None"] by auto
  moreover from this(2) have "pcs w2 = pcs w" using assms(3) by (simp add: fun_eq_iff)
  ultimately show ?thesis using False q w1
    by (simp only: if_False) (intro exI [of _ i] exI [of _ q] exI [of _ ?w1] exI [of _ w2], simp)
qed

theorem stateless_never_waits_witness:
  "\<exists>w w1 w2 i. reachable sample_config sample_env w \<and> owner w = Some 0 \<and> go_step sample_config w w1 \<and>
    pcs w1 3 = Uses (SVariant (replicate 16 0)) i True \<and> go_step sample_config w1 w2 \<and> pcs w2 3 = Idle \<and>
    stream_of (pk w2) = stream_of (pk w)"
proof (rule contended_world)
  fix w i assume w: "reachable sample_config sample_env w" "pcs w 0 = Owns (One 90000)" "pcs w 3 = Idle"
  have "owner w = Some 0"
    using reachable_ok [OF w(1) sample_config_ok] w(2) by (auto simp: world_ok_def holds_primary_def)
  moreover have "\<not> c_tinygo sample_config" by (simp add: sample_config_def)
  ultimately show ?thesis
    using w(1,3) stateless_never_waits [OF w(1) sample_config_ok w(3), of "SVariant (replicate 16 0)" None] by fastforce
qed

end
