(* ===== verification/Host_Source.thy ===== *)
theory Host_Source
  imports Host_Concurrency
begin

text \<open>
  Which random source an instance has (\<open>src/go/random.go\<close>, \<open>src/go/random_aes.go\<close>,
  \<open>src/go/random_noaes.go\<close>, \<open>src/go/fips.go\<close>, \<open>src/go/fips_tinygo.go\<close>): the choice made by build
  tags, processor and FIPS mode when an instance is created, and that no call of the package
  ever changes it.
\<close>

section \<open>The choice\<close>

text \<open>
  A build fixes \<open>runtime.GOARCH\<close> and the tags; the processor's features are those of
  \<open>golang.org/x/sys/cpu\<close>; \<open>crypto/fips140.Enabled()\<close> is a flag. \<open>acceleratedOverride\<close> is nil
  (\<open>None\<close>) in production and the tests' function otherwise.
\<close>

record build =
  GOARCH :: string
  purego :: bool
  tinygo :: bool

record cpu =
  X86_HasAES :: bool
  X86_HasSSE41 :: bool
  X86_HasSSSE3 :: bool
  ARM64_HasAES :: bool
  S390X_HasAES :: bool
  S390X_HasAESCBC :: bool

text \<open>The build tag of \<open>random_aes.go\<close>; \<open>random_noaes.go\<close> has its negation.\<close>

definition aes_file :: "build \<Rightarrow> bool" where
  "aes_file b \<longleftrightarrow> (GOARCH b = ''amd64'' \<or> GOARCH b = ''arm64'' \<or> GOARCH b = ''s390x'') \<and>
     \<not> purego b \<and> \<not> tinygo b"

definition accelerated_aes :: "bool option \<Rightarrow> build \<Rightarrow> cpu \<Rightarrow> bool" where
  "accelerated_aes acceleratedOverride b c =
     (if acceleratedOverride \<noteq> None then the acceleratedOverride
      else if GOARCH b = ''amd64'' then X86_HasAES c \<and> X86_HasSSE41 c \<and> X86_HasSSSE3 c
      else if GOARCH b = ''arm64'' then ARM64_HasAES c
      else if GOARCH b = ''s390x'' then S390X_HasAES c \<and> S390X_HasAESCBC c
      else False)"

definition accelerated_noaes :: "bool option \<Rightarrow> bool" where
  "accelerated_noaes acceleratedOverride =
     (if acceleratedOverride \<noteq> None then the acceleratedOverride else False)"

definition accelerated :: "bool option \<Rightarrow> build \<Rightarrow> cpu \<Rightarrow> bool" where
  "accelerated acceleratedOverride b c =
     (if aes_file b then accelerated_aes acceleratedOverride b c
      else accelerated_noaes acceleratedOverride)"

definition fipsEnabled_go :: "bool \<Rightarrow> bool" where
  "fipsEnabled_go fips140_Enabled = fips140_Enabled"

definition fipsEnabled_tinygo :: bool where
  "fipsEnabled_tinygo = False"

definition fipsEnabled :: "build \<Rightarrow> bool \<Rightarrow> bool" where
  "fipsEnabled b fips140_Enabled = (if tinygo b then fipsEnabled_tinygo else fipsEnabled_go fips140_Enabled)"

definition newStream_noaes :: "source option" where
  "newStream_noaes = None"

text \<open>
  The configuration of \<open>Host_Package\<close> a build runs under: where \<open>newStream\<close> is the one of
  \<open>random_noaes.go\<close> no override brings the AES stream, which \<open>c_accelerated\<close> records.
\<close>

definition config_of :: "nat \<Rightarrow> keystream \<Rightarrow> bool option \<Rightarrow> build \<Rightarrow> cpu \<Rightarrow> bool \<Rightarrow> config" where
  "config_of maxint ctr acceleratedOverride b c fips140_Enabled =
     \<lparr>c_maxint = maxint, c_accelerated = aes_file b \<and> accelerated acceleratedOverride b c,
      c_fips = fipsEnabled b fips140_Enabled, c_tinygo = tinygo b, c_ctr = ctr\<rparr>"

definition newSource_of :: "bool option \<Rightarrow> build \<Rightarrow> cpu \<Rightarrow> bool \<Rightarrow> source" where
  "newSource_of acceleratedOverride b c fips140_Enabled =
     (case (if aes_file b
            then newStream (accelerated acceleratedOverride b c) (fipsEnabled b fips140_Enabled)
            else newStream_noaes) of
        Some s \<Rightarrow> s
      | None \<Rightarrow> OsSource)"

lemma newSource_config_of:
  "newSource (c_accelerated (config_of maxint ctr ov b c f)) (c_fips (config_of maxint ctr ov b c f)) =
     newSource_of ov b c f"
  by (simp add: config_of_def newSource_of_def newSource_def newStream_def newStream_noaes_def)

lemma newSource_of_os:
  "newSource_of ov b c f = OsSource \<longleftrightarrow> \<not> (aes_file b \<and> accelerated ov b c \<and> \<not> fipsEnabled b f)"
  by (simp add: newSource_of_def newStream_def newStream_noaes_def)

section \<open>A draw keeps the kind of its source\<close>

definition is_os :: "source \<Rightarrow> bool" where
  "is_os sr \<longleftrightarrow> sr = OsSource"

lemma fill_kind: "fill ctr dst s = Some (code, out, s') \<Longrightarrow> is_os (fst s') = is_os (fst s)"
  by (cases s rule: source_inv.cases)
    (auto simp: is_os_def split: prod.splits bind_splits)

lemma host_draw_kind:
  "source_inv s \<Longrightarrow> host_draw ctr bs s = (code, out, s') \<Longrightarrow> is_os (fst s') = is_os (fst s)"
  using host_draw_fill fill_kind by blast

text \<open>
  The random_get contract again, with the kind of source in the invariant: every lemma on the
  core's generators now says that they keep it.
\<close>

interpretation kinded: wasi_random "Xrandom_get ctr" "host_draw ctr"
  "\<lambda>s. source_inv s \<and> is_os (fst s) = k" for ctr k
proof unfold_locales
  fix s bs code out s'
  assume "source_inv s \<and> is_os (fst s) = k" "host_draw ctr bs s = (code, out, s')"
  then show "length out = length bs" "source_inv s' \<and> is_os (fst s') = k"
    using host.draw_length host.draw_inv host_draw_kind by blast+
next
  fix s m code out s' and p n :: i32
  assume "source_inv s \<and> is_os (fst s) = k" "host_draw ctr (bytes_at m (unat p) (unat n)) s = (code, out, s')"
    "unat p + unat n \<le> msize m" "unat p + unat n < 2147483648"
  then show "Xrandom_get ctr p n m s = Some (code, put_bytes (unat p) out m, s')"
    using host.random_get by blast
qed

section \<open>Calls on an instance\<close>

text \<open>\<open>same_kind i i'\<close>: the instance still has a source of the kind it was created with.\<close>

definition same_kind :: "inst \<Rightarrow> inst \<Rightarrow> bool" where
  "same_kind i i' \<longleftrightarrow> is_os (src i') = is_os (src i)"

lemma i_newV4_kind:
  assumes "inst_ok maxint i" "i_newV4 ctr i e = Some (r, i', e')"
  shows "same_kind i i'"
proof -
  obtain code r sr e'' i'' out where "host_draw ctr (replicate 16 0) (src i, e) = (code, r, sr, e'')"
    "i_newV4 ctr i e = Some ((out, if code = 0 then 0 else 1), i'', e'')" "src i'' = sr"
    using i_newV4_spec [OF assms(1), of ctr e] by metis
  moreover have "source_inv (src i, e)" using assms(1) by (simp add: inst_ok_def)
  ultimately show ?thesis using assms(2) host_draw_kind by (fastforce simp: same_kind_def)
qed

lemma i_newV7_kind:
  assumes "inst_ok maxint i" "i_newV7 ctr v0 i e = Some (r, i', e')"
  shows "same_kind i i'"
proof -
  obtain code u sr e'' where d: "host_draw ctr (replicate 11 0) (src i, e) = (code, u, sr, e'')"
    by (metis prod_cases4)
  have "source_inv (src i, e)" using assms(1) by (simp add: inst_ok_def)
  then show ?thesis using i_newV7_result [OF assms(1) d, of v0] host_draw_kind [OF _ d] assms(2)
    by (auto simp: same_kind_def split: if_splits)
qed

lemma i_newV7Batch_kind:
  assumes "inst_ok maxint i" "host_ok maxint" "i_newV7Batch maxint ctr v0 v1 dst i e = Some (r, i', e')"
    "0 < unat v1" "unat v1 \<le> 2 ^ 26" "length dst = 16 * unat v1"
  shows "same_kind i i'"
proof -
  obtain code u sr e'' where d: "draw_chunks (host_draw ctr) (replicate (6 * unat v1 + 4) 0) (src i, e) = (code, u, sr, e'')"
    by (metis prod_cases4)
  have "is_os sr = is_os (src i)"
    using kinded.draw_chunks_props [OF _ d, of "is_os (src i)"] assms(1) by (simp add: inst_ok_def)
  then show ?thesis using i_newV7Batch_result [OF assms(1,2,4-6) d, of v0] assms(3)
    by (auto simp: same_kind_def split: if_splits)
qed

text \<open>Of the stateless calls only version 4 draws; the others leave the source as it is.\<close>

lemma run_stateless_kind:
  assumes "inst_ok (c_maxint cfg) i" "stateless_ok c" "run_stateless cfg c i e = Some (i', e')"
  shows "same_kind i i'"
proof (cases "c = SV4")
  case True
  with assms(3) obtain r where "i_newV4 (c_ctr cfg) i e = Some (r, i', e')"
    by (auto split: bind_splits)
  then show ?thesis by (rule i_newV4_kind [OF assms(1)])
next
  case False
  then show ?thesis using run_stateless_quiet [OF assms(1,2), of e] assms(3)
    by (auto simp: quiet_def same_kind_def)
qed

section \<open>The package\<close>

text \<open>
  \<open>sourced cfg i\<close>: the instance's source is of the kind \<open>newSource\<close> chooses; \<open>all_sourced\<close>:
  every instance of the package is.
\<close>

definition sourced :: "config \<Rightarrow> inst \<Rightarrow> bool" where
  "sourced cfg i \<longleftrightarrow> is_os (src i) = is_os (newSource (c_accelerated cfg) (c_fips cfg))"

definition all_sourced :: "config \<Rightarrow> package \<Rightarrow> bool" where
  "all_sourced cfg p \<longleftrightarrow> (\<forall>i. prim p = Some i \<longrightarrow> sourced cfg i) \<and> (\<forall>i\<in>set (pool p). sourced cfg i)"

lemma sourced_kind: "same_kind i i' \<Longrightarrow> sourced cfg i' = sourced cfg i"
  by (simp add: same_kind_def sourced_def)

lemma makeInstance_sourced:
  "makeInstance cfg p = Some (i, q) \<Longrightarrow> sourced cfg i \<and> prim q = prim p \<and> pool q = pool p"
  by (auto simp: makeInstance_def newInstance_def newInstanceWith_def sourced_def Let_def
      split: option.splits bind_splits prod.splits if_splits)

lemma primary_sourced:
  "primary cfg p = Some (i, q) \<Longrightarrow> all_sourced cfg p \<Longrightarrow> sourced cfg i \<and> all_sourced cfg q"
  by (auto simp: primary_def all_sourced_def split: option.splits bind_splits dest!: makeInstance_sourced)

lemma pool_get_sourced:
  "pool_get cfg g p = Some (i, q) \<Longrightarrow> all_sourced cfg p \<Longrightarrow> sourced cfg i \<and> all_sourced cfg q"
  using set_take_subset [of _ "pool p"] set_drop_subset [of _ "pool p"]
  by (auto simp: pool_get_def all_sourced_def subset_iff split: option.splits if_splits
      dest!: makeInstance_sourced)

lemma acquire_sourced:
  "acquire cfg sc p = Some (i, pooled, q) \<Longrightarrow> all_sourced cfg p \<Longrightarrow> sourced cfg i \<and> all_sourced cfg q"
  by (auto simp: acquire_def acquire_tinygo_def acquire_pool_def split: if_splits sched.splits bind_splits
      dest!: primary_sourced pool_get_sourced)

lemma acquire_inst_ok:
  "package_ok cfg p \<Longrightarrow> acquire cfg sc p = Some (i, pooled, q) \<Longrightarrow> inst_ok (c_maxint cfg) i"
  using pooled.acquired [of cfg p sc] pooled.held_inst tinygo.acquired [of cfg p sc] tinygo.held_inst
  by (fastforce simp: acquire_def split: if_splits)

lemma release_sourced:
  "all_sourced cfg p \<Longrightarrow> sourced cfg i \<Longrightarrow> all_sourced cfg (release cfg i pooled p)"
  by (auto simp: release_def release_tinygo_def release_pool_def all_sourced_def)

lemma all_sourced_env [simp]: "all_sourced cfg (p\<lparr>env := e\<rparr>) = all_sourced cfg p"
  by (simp add: all_sourced_def)

lemma p_newV4_sourced:
  assumes "package_ok cfg p" "all_sourced cfg p" "p_newV4 cfg sc p = Some (r, q)"
  shows "all_sourced cfg q"
proof -
  obtain i pooled p1 i' e where a: "acquire cfg sc p = Some (i, pooled, p1)"
    "i_newV4 (c_ctr cfg) i (env p1) = Some (r, i', e)" "q = release cfg i' pooled (p1\<lparr>env := e\<rparr>)"
    using assms(3) by (auto simp: p_newV4_def stateless_def split: bind_splits)
  have "inst_ok (c_maxint cfg) i" by (rule acquire_inst_ok [OF assms(1) a(1)])
  then have "same_kind i i'" using a(2) by (rule i_newV4_kind)
  then show ?thesis using acquire_sourced [OF a(1) assms(2)] a(3) release_sourced [of cfg "p1\<lparr>env := e\<rparr>" i' pooled]
    by (simp add: sourced_kind)
qed

lemma p_newV7_sourced:
  assumes "package_ok cfg p" "all_sourced cfg p" "p_newV7 cfg ms p = Some (r, q)"
  shows "all_sourced cfg q"
proof -
  obtain i p1 i' e where a: "primary cfg p = Some (i, p1)"
    "i_newV7 (c_ctr cfg) ms i (env p1) = Some (r, i', e)" "q = p1\<lparr>prim := Some i', env := e\<rparr>"
    using assms(3) by (auto simp: p_newV7_def split: bind_splits)
  have "inst_ok (c_maxint cfg) i" using primary_ok [OF assms(1)] a(1) by (metis Pair_inject option.inject)
  from i_newV7_kind [OF this a(2)] show ?thesis
    using primary_sourced [OF a(1) assms(2)] a(3) by (simp add: sourced_kind all_sourced_def)
qed

lemma p_newV7Batch_sourced:
  assumes "package_ok cfg p" "all_sourced cfg p" "p_newV7Batch cfg ms n dst p = Some (r, q)"
    "0 < unat n" "unat n \<le> 2 ^ 26" "length dst = 16 * unat n"
  shows "all_sourced cfg q"
proof -
  obtain i p1 i' e where a: "primary cfg p = Some (i, p1)"
    "i_newV7Batch (c_maxint cfg) (c_ctr cfg) ms n dst i (env p1) = Some (r, i', e)"
    "q = p1\<lparr>prim := Some i', env := e\<rparr>"
    using assms(3) by (auto simp: p_newV7Batch_def split: bind_splits)
  have "inst_ok (c_maxint cfg) i" using primary_ok [OF assms(1)] a(1) by (metis Pair_inject option.inject)
  from i_newV7Batch_kind [OF this _ a(2) assms(4-6)] show ?thesis
    using primary_sourced [OF a(1) assms(2)] a(3) assms(1) by (simp add: sourced_kind all_sourced_def package_ok_def)
qed

lemma mint_sourced:
  assumes "package_ok cfg p" "all_sourced cfg p" "mint cfg r p = Some (res, q)" "request_ok r"
  shows "all_sourced cfg q"
proof -
  have n: "unat (of_nat n :: i32) = n" if "n \<le> MaxV7Batch" for n
    using that by (simp add: MaxV7Batch_def unat_of_nat_i32)
  have fill: "all_sourced cfg q" if "FillV7At cfg dst ms p = Some (x, q)" "\<forall>u\<in>set dst. length u = 16" for dst ms x q
    using that assms(1,2) n [of "length dst"] length_concat_16 [OF that(2)]
    by (auto simp: FillV7At_def fillUUIDs_def MaxV7Batch_def split: if_splits bind_splits
        dest!: p_newV7Batch_sourced)
  have fillb: "all_sourced cfg q" if "FillV7BytesAt cfg dst ms p = Some (x, q)" for dst ms x q
    using that assms(1,2) n [of "length dst div 16"] dvd_div_eq_0_iff [of 16 "length dst"]
    by (auto simp: FillV7BytesAt_def fillBytes_def MaxV7Batch_def Let_def split: if_splits bind_splits
        dest!: p_newV7Batch_sourced)
  have one: "all_sourced cfg q" if "NewV7At cfg ms p = Some (x, q)" for ms x q
    using that assms(1,2) by (auto simp: NewV7At_def split: bind_splits dest: p_newV7_sourced)
  show ?thesis
    using assms(3)
  proof (cases r)
    case (One ms)
    then show ?thesis using assms(3) one by (auto split: bind_splits)
  next
    case (AtTime t)
    then show ?thesis using assms(2,3) one by (auto simp: NewV7AtTime_def split: bind_splits if_splits)
  next
    case (Batch n ms)
    then show ?thesis using assms(2,3) fill by (auto simp: NewV7BatchAt_def zero_uuid_def split: bind_splits if_splits)
  next
    case (FillU dst ms)
    then show ?thesis using assms(3,4) fill by (auto split: bind_splits)
  next
    case (FillB dst ms)
    then show ?thesis using assms(3) fillb by (auto split: bind_splits)
  next
    case (Aside sc)
    then show ?thesis using assms by (auto simp: NewV4_def split: bind_splits dest: p_newV4_sourced)
  qed
qed

section \<open>Every world\<close>

text \<open>The instances there are: the primary, those in the pool and those in use.\<close>

definition instances :: "world \<Rightarrow> inst set" where
  "instances w = {i. prim (pk w) = Some i} \<union> set (pool (pk w)) \<union> {i. \<exists>g c pooled. pcs w g = Uses c i pooled}"

definition world_sourced :: "config \<Rightarrow> world \<Rightarrow> bool" where
  "world_sourced cfg w \<longleftrightarrow> all_sourced cfg (pk w) \<and> (\<forall>g c i pooled. pcs w g = Uses c i pooled \<longrightarrow> sourced cfg i)"

lemma instances_sourced: "world_sourced cfg w \<longleftrightarrow> (\<forall>i\<in>instances w. sourced cfg i)"
  unfolding world_sourced_def all_sourced_def instances_def by blast

lemma go_step_sourced:
  assumes "go_step cfg w w'" "world_ok cfg w" "world_sourced cfg w"
  shows "world_sourced cfg w'"
proof -
  have ok: "package_ok cfg (pk w)" "\<And>g. pc_ok cfg (pk w) (pcs w g)" and
    src: "all_sourced cfg (pk w)" "\<And>g c i pooled. pcs w g = Uses c i pooled \<Longrightarrow> sourced cfg i"
    using assms(2,3) by (auto simp: world_ok_def world_sourced_def)
  from assms(1) show ?thesis
  proof (cases rule: go_step.cases)
    case (refuse g r res q)
    then show ?thesis using mint_sourced [OF ok(1) src(1) refuse(6,3)] src(2)
      by (simp add: world_sourced_def)
  next
    case (call g r i q)
    then show ?thesis using primary_sourced [OF call(5) src(1)] src(2)
      by (auto simp: world_sourced_def)
  next
    case (lock g r)
    then show ?thesis using src by (auto simp: world_sourced_def)
  next
    case (finish g r res q)
    then show ?thesis using mint_sourced [OF ok(1) src(1) finish(3)] src(2) ok(2) [of g]
      by (auto simp: world_sourced_def)
  next
    case (acquire g c k i pooled q)
    then show ?thesis using acquire_sourced [OF acquire(5) src(1)] src(2)
      by (auto simp: world_sourced_def)
  next
    case (release g c i pooled i' e)
    have "inst_ok (c_maxint cfg) i" "stateless_ok c" using ok(2) [of g] release(2) by auto
    then have "same_kind i i'" using release(3) by (rule run_stateless_kind)
    then have "sourced cfg i'" using src(2) [OF release(2)] by (simp add: sourced_kind)
    then show ?thesis using release_sourced [of cfg "(pk w)\<lparr>env := e\<rparr>" i' pooled] src release(1)
      by (auto simp: world_sourced_def)
  qed
qed

lemma reachable_sourced:
  assumes "reachable cfg e w" "host_ok (c_maxint cfg)"
  shows "world_sourced cfg w"
  using assms(1)
proof induction
  case start
  then show ?case by (simp add: world_sourced_def init_world_def init_package_def all_sourced_def)
next
  case (step w w')
  then show ?case using go_step_sourced reachable_ok [OF step(1) assms(2)] by blast
qed

text \<open>
  C25. The random source is chosen once and stays. However goroutines interleave their calls,
  every instance there ever is, the primary, pooled or in use, draws from the operating system
  unless the build has the AES file, the processor accelerates AES (or the tests' override says
  so) and FIPS 140 mode is off, and from an AES stream then. So a FIPS, \<open>purego\<close> or TinyGo
  program never draws from the package's own generator.
\<close>

theorem source_follows_build:
  assumes "host_ok maxint" "reachable (config_of maxint ctr acceleratedOverride b c fips) e w" "i \<in> instances w"
  shows "(src i = OsSource) = (newSource_of acceleratedOverride b c fips = OsSource) \<and>
    (src i = OsSource \<longleftrightarrow> \<not> aes_file b \<or> \<not> accelerated acceleratedOverride b c \<or> fips)"
proof -
  let ?cfg = "config_of maxint ctr acceleratedOverride b c fips"
  have "host_ok (c_maxint ?cfg)" using assms(1) by (simp add: config_of_def)
  then have "sourced ?cfg i" using reachable_sourced [OF assms(2)] assms(3) by (simp add: instances_sourced)
  then have "(src i = OsSource) = (newSource_of acceleratedOverride b c fips = OsSource)"
    by (simp add: sourced_def newSource_config_of is_os_def)
  moreover have "fipsEnabled b fips = fips" if "aes_file b"
    using that by (simp add: fipsEnabled_def fipsEnabled_go_def aes_file_def)
  ultimately show ?thesis by (auto simp: newSource_of_os)
qed

text \<open>Two worlds of one stateless call: on an accelerated processor without FIPS mode, and with it.\<close>

definition sample_build :: build where
  "sample_build = \<lparr>GOARCH = ''arm64'', purego = False, tinygo = False\<rparr>"

definition sample_cpu :: cpu where
  "sample_cpu = \<lparr>X86_HasAES = False, X86_HasSSE41 = False, X86_HasSSSE3 = False, ARM64_HasAES = True,
     S390X_HasAES = False, S390X_HasAESCBC = False\<rparr>"

lemma sample_world:
  "\<exists>w i. reachable (config_of 2147483647 (\<lambda>k iv n. 0) None sample_build sample_cpu fips) sample_env w \<and>
     i \<in> instances w"
proof -
  let ?cfg = "config_of 2147483647 (\<lambda>k iv n. 0) None sample_build sample_cpu fips"
  have ok: "package_ok ?cfg (init_package sample_env)"
    by (rule init_package_ok(1)) (simp add: config_of_def host_ok_def)
  obtain i q where q: "acquire ?cfg (try_lock None None) (init_package sample_env) = Some (i, False, q)"
    using acquire_some [OF ok, of None None] by auto
  define w where "w = (init_world sample_env)\<lparr>pk := q,
    pcs := (pcs (init_world sample_env))(0 := Uses SV4 i False), owner := Some 0\<rparr>"
  have "go_step ?cfg (init_world sample_env) w"
    unfolding w_def using q go_step.acquire [of "init_world sample_env" 0 SV4 ?cfg None i False q] by (simp add: init_world_def)
  then have "reachable ?cfg sample_env w" by (rule reachable.step [OF reachable.start])
  moreover have "i \<in> instances w" by (auto simp: instances_def w_def)
  ultimately show ?thesis by blast
qed

theorem source_follows_build_witness:
  "(\<exists>w i. reachable (config_of 2147483647 (\<lambda>k iv n. 0) None sample_build sample_cpu True) sample_env w \<and>
      i \<in> instances w \<and> src i = OsSource) \<and>
   (\<exists>w i. reachable (config_of 2147483647 (\<lambda>k iv n. 0) None sample_build sample_cpu False) sample_env w \<and>
      i \<in> instances w \<and> src i \<noteq> OsSource)"
proof -
  have ok: "host_ok 2147483647" by (simp add: host_ok_def)
  have eval: "aes_file sample_build" "accelerated None sample_build sample_cpu"
    by (simp_all add: aes_file_def accelerated_def accelerated_aes_def sample_build_def sample_cpu_def)
  obtain w i where "reachable (config_of 2147483647 (\<lambda>k iv n. 0) None sample_build sample_cpu True) sample_env w"
    "i \<in> instances w" using sample_world by blast
  moreover obtain w' i' where "reachable (config_of 2147483647 (\<lambda>k iv n. 0) None sample_build sample_cpu False) sample_env w'"
    "i' \<in> instances w'" using sample_world by blast
  ultimately show ?thesis
    using source_follows_build [OF ok, of "\<lambda>k iv n. 0" None sample_build sample_cpu True sample_env w i]
      source_follows_build [OF ok, of "\<lambda>k iv n. 0" None sample_build sample_cpu False sample_env w' i'] eval
    by blast
qed

end
