(* ===== verification/Host_Scratch.thy ===== *)
theory Host_Scratch
  imports Host_Concurrency
begin

text \<open>
  What earlier calls leave behind in an instance of \<open>src/go/core.go\<close>: its scratch and its stack
  keep the names hashed, the UUIDs inspected and the random bytes of batches. None of it reaches
  a later result: a version 7 call depends on the instance's stream, source and size and on the
  operating system alone, because every source writes all the bytes it answers for.
\<close>

section \<open>What a version 7 call can see\<close>

text \<open>The view of a package: that of its primary, or of the one its first call will create.\<close>

definition view :: "config \<Rightarrow> package \<Rightarrow> i64 \<times> source \<times> nat \<times> os_env" where
  "view cfg p = (case prim p of
      None \<Rightarrow> (0, newSource (c_accelerated cfg) (c_fips cfg), basePages, env p)
    | Some i \<Rightarrow> (stream_word (im i), src i, pages i, env p))"

text \<open>Two runs \<open>agree\<close>: both return, with the same result and views that are the same again.\<close>

definition agree :: "config \<Rightarrow> ('a \<times> package) option \<Rightarrow> ('a \<times> package) option \<Rightarrow> bool" where
  "agree cfg x y \<longleftrightarrow> (\<exists>r p q. x = Some (r, p) \<and> y = Some (r, q) \<and>
     package_ok cfg p \<and> package_ok cfg q \<and> view cfg p = view cfg q)"

lemma agree_return:
  "package_ok cfg p \<Longrightarrow> package_ok cfg q \<Longrightarrow> view cfg p = view cfg q \<Longrightarrow> agree cfg (Some (r, p)) (Some (r, q))"
  by (simp add: agree_def)

lemma agree_bind:
  assumes "agree cfg x y"
    "\<And>r p q. package_ok cfg p \<Longrightarrow> package_ok cfg q \<Longrightarrow> view cfg p = view cfg q \<Longrightarrow> agree cfg (f (r, p)) (g (r, q))"
  shows "agree cfg (x \<bind> f) (y \<bind> g)"
proof -
  obtain r p q where "x = Some (r, p)" "y = Some (r, q)" "package_ok cfg p" "package_ok cfg q" "view cfg p = view cfg q"
    using assms(1) by (auto simp: agree_def)
  with assms(2) [of p q r] show ?thesis by simp
qed

lemma agreeE:
  assumes "agree cfg x y"
  obtains r p q where "x = Some (r, p)" "y = Some (r, q)" "package_ok cfg p" "package_ok cfg q" "view cfg p = view cfg q"
  using assms by (auto simp: agree_def)

lemma stream_of_view: "stream_of p = unat (fst (view cfg p))"
  by (simp add: stream_of_def view_def split: option.splits)

text \<open>The primary as a call finds it.\<close>

lemma primary_view:
  assumes "package_ok cfg p"
  obtains i q where "primary cfg p = Some (i, q)" "inst_ok (c_maxint cfg) i" "package_ok cfg q" "prim q = Some i"
    "view cfg p = (stream_word (im i), src i, pages i, env q)" "env q = env p" "pool q = pool p"
proof (cases "prim p")
  case (Some i)
  with assms show thesis by (intro that [of i p]) (simp_all add: primary_def view_def package_ok_def)
next
  case None
  obtain i where i: "makeInstance cfg p = Some (i, p\<lparr>instancesCreated := instancesCreated p + 1\<rparr>)" "base_inst cfg i"
    using makeInstance_ok assms by (auto simp: package_ok_def)
  then have "src i = newSource (c_accelerated cfg) (c_fips cfg)"
    by (auto simp: makeInstance_def newInstance_def newInstanceWith_def Let_def
        split: option.splits bind_splits prod.splits if_splits)
  with i assms None show thesis
    by (intro that [of i "p\<lparr>instancesCreated := instancesCreated p + 1, prim := Some i\<rparr>"])
      (simp_all add: primary_def view_def package_ok_def base_inst_def)
qed

lemma primary_result:
  assumes "package_ok cfg q" "inst_ok (c_maxint cfg) i"
  shows "package_ok cfg (q\<lparr>prim := Some i, env := e\<rparr>)"
    "view cfg (q\<lparr>prim := Some i, env := e\<rparr>) = (stream_word (im i), src i, pages i, e)"
  using assms by (simp_all add: package_ok_def view_def)

section \<open>Version 7 calls see no more\<close>

text \<open>The same of an instance, and what a generator does to two instances that look alike.\<close>

definition inst_view :: "inst \<Rightarrow> i64 \<times> source \<times> nat" where
  "inst_view i = (stream_word (im i), src i, pages i)"

lemma i_newV7_alike:
  assumes "inst_ok maxint i" "inst_ok maxint j" "inst_view i = inst_view j"
  shows "\<exists>out out' rc i' j' e'. i_newV7 ctr ms i e = Some ((out, rc), i', e') \<and>
    i_newV7 ctr ms j e = Some ((out', rc), j', e') \<and> (rc = 0 \<longrightarrow> out' = out) \<and>
    inst_ok maxint i' \<and> inst_ok maxint j' \<and> inst_view i' = inst_view j'"
proof -
  have same: "stream_word (im j) = stream_word (im i)" "src j = src i" "pages j = pages i"
    using assms(3) by (simp_all add: inst_view_def)
  obtain code r sr e' where d: "host_draw ctr (replicate 11 0) (src i, e) = (code, r, sr, e')"
    by (metis prod_cases4)
  note i_newV7_result [OF assms(1) d, of ms] i_newV7_result [OF assms(2) d [folded same(2)], of ms]
  then show ?thesis unfolding same inst_view_def by (elim exE conjE) (intro exI conjI, assumption+, simp_all)
qed

lemma i_newV7Batch_alike:
  assumes "inst_ok maxint i" "inst_ok maxint j" "inst_view i = inst_view j" "host_ok maxint"
    "0 < unat n" "unat n \<le> 2 ^ 26" "length dst = 16 * unat n"
  shows "\<exists>r i' j' e'. i_newV7Batch maxint ctr ms n dst i e = Some (r, i', e') \<and>
    i_newV7Batch maxint ctr ms n dst j e = Some (r, j', e') \<and>
    inst_ok maxint i' \<and> inst_ok maxint j' \<and> inst_view i' = inst_view j'"
proof -
  have same: "stream_word (im j) = stream_word (im i)" "src j = src i" "pages j = pages i"
    using assms(3) by (simp_all add: inst_view_def)
  obtain code r sr e' where d: "draw_chunks (host_draw ctr) (replicate (6 * unat n + 4) 0) (src i, e) = (code, r, sr, e')"
    by (metis prod_cases4)
  note i_newV7Batch_result [OF assms(1,4-7) d, of ms] i_newV7Batch_result [OF assms(2,4-7) d [folded same(2)], of ms]
  then show ?thesis unfolding same inst_view_def by (elim exE conjE) (intro exI conjI, assumption+, simp_all)
qed

lemma primary_alike:
  assumes "package_ok cfg p" "package_ok cfg q" "view cfg p = view cfg q"
  obtains i j p1 q1 where "primary cfg p = Some (i, p1)" "primary cfg q = Some (j, q1)"
    "inst_ok (c_maxint cfg) i" "inst_ok (c_maxint cfg) j" "inst_view i = inst_view j" "env q1 = env p1"
    "package_ok cfg p1" "package_ok cfg q1"
proof (rule primary_view [OF assms(1)], rule primary_view [OF assms(2)])
  fix i p1 j q1
  assume "primary cfg p = Some (i, p1)" "inst_ok (c_maxint cfg) i" "package_ok cfg p1"
    "view cfg p = (stream_word (im i), src i, pages i, env p1)"
    "primary cfg q = Some (j, q1)" "inst_ok (c_maxint cfg) j" "package_ok cfg q1"
    "view cfg q = (stream_word (im j), src j, pages j, env q1)"
  with assms(3) show thesis by (intro that [of i p1 j q1]) (simp_all add: inst_view_def)
qed

lemma NewV7At_agrees:
  assumes "package_ok cfg p" "package_ok cfg q" "view cfg p = view cfg q"
  shows "agree cfg (NewV7At cfg ms p) (NewV7At cfg ms q)"
proof (rule primary_alike [OF assms])
  fix i j p1 q1
  assume a: "primary cfg p = Some (i, p1)" "primary cfg q = Some (j, q1)"
    "inst_ok (c_maxint cfg) i" "inst_ok (c_maxint cfg) j" "inst_view i = inst_view j" "env q1 = env p1"
    "package_ok cfg p1" "package_ok cfg q1"
  obtain out out' rc i' j' e' where r: "i_newV7 (c_ctr cfg) ms i (env p1) = Some ((out, rc), i', e')"
    "i_newV7 (c_ctr cfg) ms j (env p1) = Some ((out', rc), j', e')" "rc = 0 \<longrightarrow> out' = out"
    "inst_ok (c_maxint cfg) i'" "inst_ok (c_maxint cfg) j'" "inst_view i' = inst_view j'"
    using i_newV7_alike [OF a(3-5), of "c_ctr cfg" ms "env p1"] by blast
  have "view cfg (p1\<lparr>prim := Some i', env := e'\<rparr>) = view cfg (q1\<lparr>prim := Some j', env := e'\<rparr>)"
    using r(6) by (simp add: primary_result(2) [OF a(7) r(4)] primary_result(2) [OF a(8) r(5)] inst_view_def)
  with a(1,2,6) r(1-3) primary_result(1) [OF a(7) r(4)] primary_result(1) [OF a(8) r(5)]
  show ?thesis by (cases "rc = 0") (simp_all add: NewV7At_def p_newV7_def agree_return)
qed

lemma p_newV7Batch_agrees:
  assumes "package_ok cfg p" "package_ok cfg q" "view cfg p = view cfg q"
    "0 < unat n" "unat n \<le> 2 ^ 26" "length dst = 16 * unat n"
  shows "agree cfg (p_newV7Batch cfg ms n dst p) (p_newV7Batch cfg ms n dst q)"
proof (rule primary_alike [OF assms(1-3)])
  fix i j p1 q1
  assume a: "primary cfg p = Some (i, p1)" "primary cfg q = Some (j, q1)"
    "inst_ok (c_maxint cfg) i" "inst_ok (c_maxint cfg) j" "inst_view i = inst_view j" "env q1 = env p1"
    "package_ok cfg p1" "package_ok cfg q1"
  have "host_ok (c_maxint cfg)" using assms(1) by (simp add: package_ok_def)
  then obtain r i' j' e' where r: "i_newV7Batch (c_maxint cfg) (c_ctr cfg) ms n dst i (env p1) = Some (r, i', e')"
    "i_newV7Batch (c_maxint cfg) (c_ctr cfg) ms n dst j (env p1) = Some (r, j', e')"
    "inst_ok (c_maxint cfg) i'" "inst_ok (c_maxint cfg) j'" "inst_view i' = inst_view j'"
    using i_newV7Batch_alike [OF a(3-5) _ assms(4-6), of "c_ctr cfg" ms "env p1"] by blast
  have "view cfg (p1\<lparr>prim := Some i', env := e'\<rparr>) = view cfg (q1\<lparr>prim := Some j', env := e'\<rparr>)"
    using r(5) by (simp add: primary_result(2) [OF a(7) r(3)] primary_result(2) [OF a(8) r(4)] inst_view_def)
  with a(1,2,6) r(1,2) primary_result(1) [OF a(7) r(3)] primary_result(1) [OF a(8) r(4)]
  show ?thesis by (simp add: p_newV7Batch_def agree_return)
qed

text \<open>The functions of the API above them, argument checks included.\<close>

lemma FillV7At_agrees:
  assumes "package_ok cfg p" "package_ok cfg q" "view cfg p = view cfg q" "\<forall>u\<in>set dst. length u = 16"
  shows "agree cfg (FillV7At cfg dst ms p) (FillV7At cfg dst ms q)"
proof (cases "dst = [] \<or> MaxV7Batch < length dst")
  case True
  then show ?thesis using assms(1-3) by (auto simp: FillV7At_def fillUUIDs_def MaxV7Batch_def intro: agree_return)
next
  case False
  then have n: "unat (of_nat (length dst) :: i32) = length dst" "0 < length dst" "length dst \<le> 2 ^ 26"
    by (simp_all add: MaxV7Batch_def unat_of_nat_i32)
  have "agree cfg (p_newV7Batch cfg ms (of_nat (length dst)) (concat dst) p) (p_newV7Batch cfg ms (of_nat (length dst)) (concat dst) q)"
    using n length_concat_16 [OF assms(4)] by (intro p_newV7Batch_agrees [OF assms(1-3)]) simp_all
  then show ?thesis using False
    by (auto simp: FillV7At_def fillUUIDs_def MaxV7Batch_def intro!: agree_bind agree_return split: prod.splits)
qed

lemma FillV7BytesAt_agrees:
  assumes "package_ok cfg p" "package_ok cfg q" "view cfg p = view cfg q"
  shows "agree cfg (FillV7BytesAt cfg dst ms p) (FillV7BytesAt cfg dst ms q)"
proof (cases "length dst mod 16 \<noteq> 0 \<or> dst = [] \<or> MaxV7Batch < length dst div 16")
  case True
  then show ?thesis using assms by (auto simp: FillV7BytesAt_def fillBytes_def MaxV7Batch_def intro: agree_return)
next
  case False
  let ?n = "length dst div 16"
  have n: "unat (of_nat ?n :: i32) = ?n" "0 < ?n" "?n \<le> 2 ^ 26" "length dst = 16 * ?n"
    using False dvd_div_eq_0_iff [of 16 "length dst"] by (auto simp: MaxV7Batch_def unat_of_nat_i32 mod_eq_0_iff_dvd)
  have "agree cfg (p_newV7Batch cfg ms (of_nat ?n) dst p) (p_newV7Batch cfg ms (of_nat ?n) dst q)"
    using n by (intro p_newV7Batch_agrees [OF assms]) simp_all
  then show ?thesis using False
    by (auto simp: FillV7BytesAt_def fillBytes_def MaxV7Batch_def Let_def intro!: agree_bind agree_return split: prod.splits)
qed

lemma mint_agrees:
  assumes "package_ok cfg p" "package_ok cfg q" "view cfg p = view cfg q" "request_ok r" "\<not> is_aside r"
  shows "agree cfg (mint cfg r p) (mint cfg r q)"
proof (cases r)
  case (One ms)
  then show ?thesis using NewV7At_agrees [OF assms(1-3)] by (auto intro!: agree_bind agree_return)
next
  case (AtTime t)
  then show ?thesis using NewV7At_agrees [OF assms(1-3)] assms(1-3)
    by (auto simp: NewV7AtTime_def intro!: agree_bind agree_return)
next
  case (Batch n ms)
  have "agree cfg (FillV7At cfg (replicate (nat n) zero_uuid) ms p) (FillV7At cfg (replicate (nat n) zero_uuid) ms q)"
    by (rule FillV7At_agrees [OF assms(1-3)]) (simp add: zero_uuid_def)
  then show ?thesis using Batch assms(1-3)
    by (auto simp: NewV7BatchAt_def intro!: agree_bind agree_return split: prod.splits)
next
  case (FillU dst ms)
  then show ?thesis using FillV7At_agrees [OF assms(1-3), of dst] assms(4) by (auto intro!: agree_bind agree_return)
next
  case (FillB dst ms)
  then show ?thesis using FillV7BytesAt_agrees [OF assms(1-3), of dst] by (auto intro!: agree_bind agree_return)
qed (use assms(5) in simp)

section \<open>Stateless calls leave no trace\<close>

text \<open>
  A stateless call as a goroutine makes it, on the instance the scheduler lets it have; and a
  history in which such calls come between the version 7 requests.
\<close>

definition use_stateless :: "config \<Rightarrow> sched \<Rightarrow> stateless_call \<Rightarrow> package \<Rightarrow> package option" where
  "use_stateless cfg sc c p =
     do { (i, pooled, p) \<leftarrow> acquire cfg sc p;
          (i, e) \<leftarrow> run_stateless cfg c i (env p);
          Some (release cfg i pooled (p\<lparr>env := e\<rparr>)) }"

datatype step = Mint v7_request | Use sched stateless_call

fun run_mixed :: "config \<Rightarrow> step list \<Rightarrow> package \<Rightarrow> (event list \<times> package) option" where
  "run_mixed cfg [] p = Some ([], p)"
| "run_mixed cfg (Mint r # xs) p =
     do { (res, q) \<leftarrow> mint cfg r p;
          (evs, q') \<leftarrow> run_mixed cfg xs q;
          Some (\<lparr>request = r, outcome = res, reserved = (stream_of q \<noteq> stream_of p)\<rparr> # evs, q') }"
| "run_mixed cfg (Use sc c # xs) p = do { q \<leftarrow> use_stateless cfg sc c p; run_mixed cfg xs q }"

fun mints :: "step list \<Rightarrow> v7_request list" where
  "mints [] = []"
| "mints (Mint r # xs) = r # mints xs"
| "mints (Use sc c # xs) = mints xs"

fun step_ok :: "step \<Rightarrow> bool" where
  "step_ok (Mint r) \<longleftrightarrow> request_ok r \<and> \<not> is_aside r"
| "step_ok (Use sc c) \<longleftrightarrow> stateless_ok c \<and> c \<noteq> SV4"

text \<open>It leaves the view alone: on the primary it is \<open>quiet\<close>, and a pooled instance is not seen.\<close>

lemma release_view:
  assumes "package_ok cfg p" "quiet (c_maxint cfg) i i'" "if pooled then base_inst cfg i else prim p = Some i"
    "pooled \<longrightarrow> \<not> c_tinygo cfg"
  shows "view cfg (release cfg i' pooled p) = view cfg p"
  using assms
  by (auto simp: release_def release_tinygo_def release_pool_def view_def quiet_def split: option.splits)

lemma use_stateless_view:
  assumes "package_ok cfg p" "stateless_ok c" "c \<noteq> SV4"
  shows "\<exists>q. use_stateless cfg sc c p = Some q \<and> package_ok cfg q \<and> view cfg q = view cfg p"
proof -
  have "\<exists>i pooled p1. acquire cfg sc p = Some (i, pooled, p1) \<and> package_ok cfg p1 \<and> view cfg p1 = view cfg p \<and>
      inst_ok (c_maxint cfg) i \<and> (if pooled then base_inst cfg i else prim p1 = Some i) \<and> (pooled \<longrightarrow> \<not> c_tinygo cfg)"
  proof (rule primary_view [OF assms(1)])
    fix i q assume q: "primary cfg p = Some (i, q)" "inst_ok (c_maxint cfg) i" "package_ok cfg q" "prim q = Some i"
      "view cfg p = (stream_word (im i), src i, pages i, env q)"
    then have v: "view cfg q = view cfg p" by (simp add: view_def)
    show ?thesis
    proof (cases "c_tinygo cfg \<or> sc = Free")
      case True
      then show ?thesis using q v
        by (intro exI [of _ i] exI [of _ False] exI [of _ q]) (auto simp: acquire_def acquire_tinygo_def acquire_pool_def)
    next
      case False
      then obtain g where g: "sc = Busy g" by (cases sc) auto
      obtain j q' where j: "pool_get cfg g q = Some (j, q')" "base_inst cfg j" "package_ok cfg q'" "prim q' = prim q"
        "env q' = env q" using pool_get_ok [OF q(3)] by metis
      then have "view cfg q' = view cfg q" by (simp add: view_def split: option.splits)
      with v have "view cfg q' = view cfg p" by simp
      then show ?thesis using False g q j by (auto simp: acquire_def acquire_pool_def base_inst_def)
    qed
  qed
  then obtain i pooled p1 where a: "acquire cfg sc p = Some (i, pooled, p1)" "package_ok cfg p1" "view cfg p1 = view cfg p"
    "inst_ok (c_maxint cfg) i" "if pooled then base_inst cfg i else prim p1 = Some i" "pooled \<longrightarrow> \<not> c_tinygo cfg"
    by blast
  obtain i' where i': "run_stateless cfg c i (env p1) = Some (i', env p1)" "quiet (c_maxint cfg) i i'"
    using run_stateless_quiet [OF a(4) assms(2,3)] by blast
  have "p1\<lparr>env := env p1\<rparr> = p1" by simp
  then show ?thesis
    using a i' release_takes(1) [OF a(2) quiet_settled [OF i'(2)] a(5,6)] release_view [OF a(2) i'(2) a(5,6)]
    by (simp add: use_stateless_def)
qed

lemma run_mixed_agrees:
  assumes "package_ok cfg p" "package_ok cfg q" "view cfg p = view cfg q" "\<forall>x\<in>set xs. step_ok x"
  shows "agree cfg (run_mixed cfg xs p) (run cfg (mints xs) q)"
  using assms
proof (induction xs arbitrary: p q rule: mints.induct)
  case 1
  then show ?case by (simp add: agree_return)
next
  case (2 r xs)
  have "agree cfg (mint cfg r p) (mint cfg r q)" using 2(2-5) by (intro mint_agrees) auto
  then obtain res p' q' where m: "mint cfg r p = Some (res, p')" "mint cfg r q = Some (res, q')"
    "package_ok cfg p'" "package_ok cfg q'" "view cfg p' = view cfg q'" by (rule agreeE)
  have "agree cfg (run_mixed cfg xs p') (run cfg (mints xs) q')" using 2 m(3-5) by auto
  moreover have "stream_of p' = stream_of q'" "stream_of p = stream_of q"
    using m(5) 2(4) by (simp_all add: stream_of_view [of _ cfg])
  ultimately show ?case using m(1,2) by (auto intro!: agree_bind agree_return)
next
  case (3 sc c xs)
  obtain p' where "use_stateless cfg sc c p = Some p'" "package_ok cfg p'" "view cfg p' = view cfg p"
    using use_stateless_view [OF 3(2), of c sc] 3(5) by auto
  with 3 show ?case by auto
qed

text \<open>
  C8. Hashing, converting and inspecting leave no trace. Interspersed with any number of those
  calls, on the primary or on pooled instances as the scheduler has it, a history of version 7
  calls returns, and gives call for call the results it gives without them: the names and UUIDs
  that stay in an instance's scratch, over which the next batch is drawn, are never seen again.
\<close>

theorem stateless_calls_leave_no_trace:
  assumes "package_ok cfg p" "\<forall>x\<in>set xs. step_ok x"
  shows "\<exists>evs q q'. run_mixed cfg xs p = Some (evs, q) \<and> run cfg (mints xs) p = Some (evs, q')"
  using run_mixed_agrees [OF assms(1,1) refl assms(2)] by (auto simp: agree_def)

theorem stateless_calls_leave_no_trace_witness:
  "\<exists>evs q q'. run_mixed sample_config [Use Free (SV5 (replicate 16 7) (replicate 4000 42)), Mint (Batch 100 5)]
      (init_package sample_env) = Some (evs, q) \<and>
    run sample_config [Batch 100 5] (init_package sample_env) = Some (evs, q')"
  using stateless_calls_leave_no_trace [of sample_config "init_package sample_env"
      "[Use Free (SV5 (replicate 16 7) (replicate 4000 42)), Mint (Batch 100 5)]"]
    init_package_ok(1) [OF sample_config_ok] by simp

end
