(* ===== verification/Sha1_Vectors.thy ===== *)
theory Sha1_Vectors
  imports Host_V5
begin

text \<open>
  A known answer of SHA-1, evaluated in the kernel: the digest behind the version 5 value of
  \<open>www.example.com\<close> in the DNS namespace, which the package's example, its tests and its smoke
  program (\<open>src/go/internal/tinygosmoke/main.go\<close>) expect.
\<close>

section \<open>Evaluation\<close>

text \<open>
  Arithmetic on word numerals does not reduce them, so the rules that evaluate the hash cut
  what they compute to 32 bits.
\<close>

lemma rotl_word:
  assumes "0 < n" "n < 32"
  shows "word_rotl n (w :: i32) = push_bit n w OR drop_bit (32 - n) w"
proof (rule bit_word_eqI)
  fix i assume "i < LENGTH(32)"
  then have i: "i < 32" by simp
  show "bit (word_rotl n w) i = bit (push_bit n w OR drop_bit (32 - n) w) i"
  proof (cases "n \<le> i")
    case True
    then have "(i + (32 - n)) mod 32 = i - n" using assms i by (simp add: mod_if)
    then show ?thesis using True assms i
      by (auto simp: bit_word_rotl_iff bit_or_iff bit_push_bit_iff bit_drop_bit_eq simp del: add_diff_assoc
          dest: bit_imp_le_length)
  next
    case False
    then have "(i + (32 - n)) mod 32 = 32 - n + i" using assms i by simp
    then show ?thesis using False assms i
      by (simp add: bit_word_rotl_iff bit_or_iff bit_push_bit_iff bit_drop_bit_eq del: add_diff_assoc add_diff_assoc2)
        (rule arg_cong [of _ _ "bit w"], simp)
  qed
qed

lemma rotl_eval:
  "word_rotl (Suc 0) (w :: i32) = push_bit 1 (w AND 0x7fffffff) OR drop_bit 31 w"
  "word_rotl 5 (w :: i32) = push_bit 5 (w AND 0x07ffffff) OR drop_bit 27 w"
  "word_rotl 30 (w :: i32) = push_bit 30 (w AND 3) OR drop_bit 2 w"
proof -
  have cut: "push_bit n w = push_bit n (w AND mask (32 - n))" for n
    by (rule bit_word_eqI) (auto simp: bit_simps)
  show "word_rotl (Suc 0) w = push_bit 1 (w AND 0x7fffffff) OR drop_bit 31 w"
    "word_rotl 5 w = push_bit 5 (w AND 0x07ffffff) OR drop_bit 27 w"
    "word_rotl 30 w = push_bit 30 (w AND 3) OR drop_bit 2 w"
    using cut [of 1] cut [of 5] cut [of 30] by (simp_all add: rotl_word mask_eq_exp_minus_1)
qed

lemma sha1_round_eval:
  "sha1_round ws t (a, b, c, d, e) =
     ((word_rotl 5 a + sha1_f t b c d + e + sha1_k t + ws ! t) AND 0xffffffff, a, word_rotl 30 b, c, d)"
proof -
  have "x AND 0xffffffff = x" for x :: i32
  proof -
    have "(0xffffffff :: i32) = - 1" by simp
    then show ?thesis by (metis and.right_neutral)
  qed
  then show ?thesis by simp
qed

text \<open>
  The schedule built newest word first, so that each step looks at the front of the list; \<open>w\<close> is
  the word computed last.
\<close>

fun expand_front :: "nat \<Rightarrow> i32 list \<Rightarrow> i32 \<Rightarrow> i32 list" where
  "expand_front 0 vs w = w # vs"
| "expand_front (Suc n) vs w =
     expand_front n (w # vs) (word_rotl 1 ((w # vs) ! 2 XOR (w # vs) ! 7 XOR (w # vs) ! 13 XOR (w # vs) ! 15))"

lemma sha1_expand_front: "15 \<le> length vs \<Longrightarrow> sha1_expand n (rev (w # vs)) = rev (expand_front n vs w)"
proof (induction n vs w rule: expand_front.induct)
  case (2 n vs w)
  then have "rev (w # vs) ! (length (w # vs) - k) = (w # vs) ! (k - 1)" if "0 < k" "k \<le> 16" for k
    using that rev_nth [of "length (w # vs) - k" "w # vs"] by simp
  from this [of 3] this [of 8] this [of 14] this [of 16] 2 show ?case by (simp add: Let_def)
qed simp

text \<open>What is left to do once the schedule is known.\<close>

definition sha1_scheduled :: "sha1_state \<Rightarrow> i32 list \<Rightarrow> sha1_state" where
  "sha1_scheduled h ws = sha1_add (sha1_rounds ws 80 h) h"

lemma sha1_compress_front:
  "15 \<le> length vs \<Longrightarrow> sha1_compress h (rev (w # vs)) = sha1_scheduled h (rev (expand_front 64 vs w))"
  by (simp add: sha1_compress_def sha1_schedule_def sha1_scheduled_def sha1_expand_front del: rev.simps)

lemma unfold_numeral:
  "expand_front (numeral k) vs w = expand_front (pred_numeral k) (w # vs)
     (word_rotl 1 ((w # vs) ! 2 XOR (w # vs) ! 7 XOR (w # vs) ! 13 XOR (w # vs) ! 15))"
  "sha1_rounds ws (numeral t) s = sha1_round ws (pred_numeral t) (sha1_rounds ws (pred_numeral t) s)"
  by (simp_all add: numeral_eq_Suc)

lemmas sha1_eval = unfold_numeral sha1_round_eval rotl_eval sha1_scheduled_def sha1_f_def sha1_k_def

text \<open>Lists of words already computed are not visited again while the next is.\<close>

lemma freeze:
  "n = n' \<Longrightarrow> w = w' \<Longrightarrow> expand_front n vs w = expand_front n' vs w'"
  "n = n' \<Longrightarrow> s = s' \<Longrightarrow> sha1_rounds ws n s = sha1_rounds ws n' s'"
  "n = n' \<Longrightarrow> s = s' \<Longrightarrow> sha1_round ws n s = sha1_round ws n' s'"
  "i = i' \<Longrightarrow> ws ! i = ws ! i'"
  by simp_all

section \<open>The DNS namespace and www.example.com\<close>

definition namespace_dns :: uuid where
  "namespace_dns = [0x6b, 0xa7, 0xb8, 0x10, 0x9d, 0xad, 0x11, 0xd1, 0x80, 0xb4, 0x00, 0xc0, 0x4f, 0xd4, 0x30, 0xc8]"

definition str_bytes :: "string \<Rightarrow> u8 list" where
  "str_bytes s = map (\<lambda>c. of_nat (of_char c)) s"

definition example_name :: "u8 list" where
  "example_name = str_bytes ''www.example.com''"

lemma example_name: "example_name = [119, 119, 119, 46, 101, 120, 97, 109, 112, 108, 101, 46, 99, 111, 109]"
  by (simp add: example_name_def str_bytes_def)

text \<open>The one block of the padded message, as words.\<close>

definition example_words :: "i32 list" where
  "example_words = [0x6ba7b810, 0x9dad11d1, 0x80b400c0, 0x4fd430c8, 0x7777772e, 0x6578616d, 0x706c652e, 0x636f6d80,
     0, 0, 0, 0, 0, 0, 0, 248]"

lemma example_pad:
  "sha1_pad (namespace_dns @ example_name) = namespace_dns @ example_name @ 0x80 # replicate 24 0 @ [0, 0, 0, 0, 0, 0, 0, 248]"
  by (simp add: sha1_pad_def namespace_dns_def example_name be64_bytes_def)

lemma example_block: "block_words (take 64 (sha1_pad (namespace_dns @ example_name))) = example_words"
proof -
  have zeros: "replicate 24 (0 :: u8) = [0,0,0,0,0,0,0,0,0,0,0,0,0,0,0,0,0,0,0,0,0,0,0,0]" by (simp add: eval_nat_numeral)
  have upt: "[0..<16] = [0,1,2,3,4,5,6,7,8,9,10,11,12,13,14,15]" by (simp add: eval_nat_numeral)
  show ?thesis
    unfolding example_pad zeros block_words_def upt
    unfolding example_name namespace_dns_def example_words_def append.simps by (simp add: be_word_def)
qed

lemma example_digest:
  "sha1_digest (sha1_compress sha1_init example_words) =
    [0x2e, 0xd6, 0x65, 0x7d, 0xe9, 0x27, 0x46, 0x8b, 0x55, 0xe1, 0x26, 0x65, 0xa8, 0xae, 0xa6, 0xa2,
     0x2d, 0xee, 0x3e, 0x35]"
proof -
  define vs :: "i32 list" where "vs = [0, 0, 0, 0, 0, 0, 0, 0x636f6d80, 0x706c652e, 0x6578616d, 0x7777772e,
    0x4fd430c8, 0x80b400c0, 0x9dad11d1, 0x6ba7b810]"
  have "example_words = rev (248 # vs)" "15 \<le> length vs" by (simp_all add: example_words_def vs_def)
  then have "sha1_compress sha1_init example_words = sha1_scheduled sha1_init (rev (expand_front 64 vs 248))"
    using sha1_compress_front by metis
  then show ?thesis
    unfolding vs_def by (simp add: sha1_init_def be32_bytes_def sha1_eval del: sha1_round.simps cong: freeze)
qed

text \<open>The bytes of \<open>2ed6657d-e927-568b-95e1-2665a8aea6a2\<close>.\<close>

definition example_v5 :: uuid where
  "example_v5 = [0x2e, 0xd6, 0x65, 0x7d, 0xe9, 0x27, 0x56, 0x8b, 0x95, 0xe1, 0x26, 0x65, 0xa8, 0xae, 0xa6, 0xa2]"

lemma example_v5_uuid: "v5_uuid namespace_dns example_name = example_v5"
proof -
  have blocks: "length (sha1_pad (namespace_dns @ example_name)) div 64 = 1"
    by (simp add: length_sha1_pad namespace_dns_def example_name)
  then have "sha1 (namespace_dns @ example_name) = sha1_digest (sha1_compress sha1_init example_words)"
    unfolding sha1_def blocks using example_block by (simp del: example_pad)
  then show ?thesis
    by (simp add: v5_uuid_def example_digest stamp_def example_v5_def)
qed

lemma example_v5_answers:
  assumes "package_ok cfg p"
  shows "answers cfg p (NewV5 cfg sc namespace_dns example_name p) (Inr example_v5)"
    "answers cfg p (NewV5String cfg sc namespace_dns example_name p) (Inr example_v5)"
proof -
  have len: "length namespace_dns = 16" "length example_name = 15" by (simp_all add: namespace_dns_def example_name)
  have "length example_name \<le> MaxV5Name (c_maxint cfg)"
    using hostMaxPages_bounds(3) [of "c_maxint cfg"] assms by (simp add: MaxV5Name_def pageSize_def len package_ok_def)
  then show "answers cfg p (NewV5 cfg sc namespace_dns example_name p) (Inr example_v5)"
    "answers cfg p (NewV5String cfg sc namespace_dns example_name p) (Inr example_v5)"
    using newV5_returns [OF assms len(1), of example_name sc]
    by (simp_all add: NewV5_def NewV5String_def checkV5Name_def example_v5_uuid)
qed

section \<open>Property\<close>

text \<open>
  C14. The package's known answer. On any package, schedule and build, \<open>NewV5\<close> and \<open>NewV5String\<close>
  of the DNS namespace and the name \<open>www.example.com\<close> return
  \<open>2ed6657d-e927-568b-95e1-2665a8aea6a2\<close>: the digest is computed, not assumed.
\<close>

theorem v5_known_answer:
  assumes "package_ok cfg p"
  shows "answers cfg p (NewV5 cfg sc namespace_dns example_name p) (Inr example_v5) \<and>
    answers cfg p (NewV5String cfg sc namespace_dns example_name p) (Inr example_v5)"
  using example_v5_answers [OF assms] by blast

theorem v5_known_answer_witness:
  "answers sample_config (init_package \<lparr>reads = [], clock = []\<rparr>)
     (NewV5String sample_config Free namespace_dns example_name (init_package \<lparr>reads = [], clock = []\<rparr>)) (Inr example_v5)"
  using v5_known_answer [of sample_config "init_package \<lparr>reads = [], clock = []\<rparr>" Free]
    init_package_ok(1) [OF sample_config_ok] by blast

end
