(* ===== verification/Uuid_Text.thy ===== *)
theory Uuid_Text
  imports V7_Stream "HOL-Library.Char_ord"
begin

text \<open>
  The text form of a UUID, RFC 9562 section 4: thirty-two lower-case hexadecimal digits in
  groups of 8, 4, 4, 4 and 12. It is what the smoke program compares and parses; values in
  increasing order have texts in increasing order.
\<close>

section \<open>Digits\<close>

definition hex_digit :: "nat \<Rightarrow> char" where
  "hex_digit n = char_of (if n < 10 then 48 + n else 87 + n)"

definition hex_byte :: "u8 \<Rightarrow> string" where
  "hex_byte b = [hex_digit (unat b div 16), hex_digit (unat b mod 16)]"

definition unhex :: "char \<Rightarrow> nat" where
  "unhex c = (let n = of_char c in if n < (58 :: nat) then n - 48 else n - 87)"

lemma of_char_hex_digit: "n < 16 \<Longrightarrow> of_char (hex_digit n) = (if n < 10 then 48 + n else 87 + n)"
  by (simp add: hex_digit_def)

lemma hex_digits:
  "hex_digit 0 = CHR ''0''" "hex_digit (Suc 0) = CHR ''1''" "hex_digit 2 = CHR ''2''" "hex_digit 3 = CHR ''3''"
  "hex_digit 4 = CHR ''4''" "hex_digit 5 = CHR ''5''" "hex_digit 6 = CHR ''6''" "hex_digit 7 = CHR ''7''"
  "hex_digit 8 = CHR ''8''" "hex_digit 9 = CHR ''9''" "hex_digit 10 = CHR ''a''" "hex_digit 11 = CHR ''b''"
  "hex_digit 12 = CHR ''c''" "hex_digit 13 = CHR ''d''" "hex_digit 14 = CHR ''e''" "hex_digit 15 = CHR ''f''"
  by (simp_all add: hex_digit_def char_of_def bit_0)

lemma unhex_hex_digit [simp]: "n < 16 \<Longrightarrow> unhex (hex_digit n) = n"
  by (simp add: unhex_def of_char_hex_digit)

lemma hex_digit_less: "m < n \<Longrightarrow> n < 16 \<Longrightarrow> hex_digit m < hex_digit n"
  by (simp add: less_char_def of_char_hex_digit)

section \<open>The text\<close>

definition groups :: "string list" where
  "groups = ['''', '''', '''', '''', ''-'', '''', ''-'', '''', ''-'', '''', ''-'', '''', '''', '''', '''', '''']"

definition uuid_text :: "u8 list \<Rightarrow> string" where
  "uuid_text u = concat (map (\<lambda>(sep, b). sep @ hex_byte b) (zip groups u))"

text \<open>Go's order on strings is lexicographic on bytes.\<close>

definition text_less :: "string \<Rightarrow> string \<Rightarrow> bool" where
  "text_less s t = ord_class.lexordp s t"

lemma hex_byte_less:
  assumes "unat x < unat y"
  shows "ord_class.lexordp (hex_byte x @ xs) (hex_byte y @ ys)"
proof (cases "unat x div 16 = unat y div 16")
  case True
  then have "unat x mod 16 < unat y mod 16"
    using assms by (metis add_less_cancel_left div_mult_mod_eq)
  with True show ?thesis using hex_digit_less [of "unat x mod 16" "unat y mod 16"] by (simp add: hex_byte_def)
next
  case False
  then have "unat x div 16 < unat y div 16" using assms by (simp add: div_le_mono le_neq_implies_less)
  moreover have "unat y div 16 < 16" using unat_u8_less [of y] by (simp add: less_mult_imp_div_less)
  ultimately show ?thesis using hex_digit_less by (simp add: hex_byte_def)
qed

lemma be_nat_less_diff:
  "length u = length v \<Longrightarrow> be_nat u < be_nat v \<Longrightarrow>
   \<exists>p x y r s. u = p @ x # r \<and> v = p @ y # s \<and> unat x < unat y"
proof (induction u v rule: list_induct2)
  case (Cons x xs y ys)
  show ?case
  proof (cases "x = y")
    case True
    with Cons have "be_nat xs < be_nat ys" by (simp add: be_nat_Cons)
    with Cons.IH obtain p a b r s where "xs = p @ a # r" "ys = p @ b # s" "unat a < unat b" by blast
    then show ?thesis using True by (metis append_Cons)
  next
    case False
    have "unat x < unat y"
    proof (rule ccontr)
      assume "\<not> unat x < unat y"
      with False have "unat y + 1 \<le> unat x" by (simp add: word_unat_eq_iff)
      then have "256 ^ length xs * (unat y + 1) \<le> 256 ^ length xs * unat x" by (rule mult_le_mono2)
      then show False
        using Cons(1,3) be_nat_less [of ys] by (simp add: be_nat_Cons)
    qed
    then show ?thesis by (metis append_Nil)
  qed
qed simp

lemma text_less_uuid:
  assumes "length u = 16" "length v = 16" "be_nat u < be_nat v"
  shows "text_less (uuid_text u) (uuid_text v)"
proof -
  obtain p x y r s where uv: "u = p @ x # r" "v = p @ y # s" "unat x < unat y"
    using be_nat_less_diff assms by metis
  define g where "g = drop (length p) groups"
  have "length g \<noteq> 0" using assms(1) uv(1) by (simp add: g_def groups_def)
  then obtain h t where g: "g = h # t" by (cases g) auto
  have "groups = take (length p) groups @ g" "length (take (length p) groups) = length p"
    using assms(1) uv(1) by (simp_all add: g_def groups_def)
  then have "zip groups (p @ z # q) = zip (take (length p) groups) p @ (h, z) # zip t q" for z q
    using g zip_append [of "take (length p) groups" p g "z # q"] by (metis zip_Cons_Cons)
  then show ?thesis
    unfolding text_less_def uuid_text_def uv(1,2)
    using hex_byte_less [OF uv(3)] by (simp add: lexordp_append_leftI)
qed

section \<open>Reading it back\<close>

text \<open>A reader of the text form, for the values it writes.\<close>

fun read_bytes :: "nat list \<Rightarrow> u8 list" where
  "read_bytes (h # l # ds) = of_nat (16 * h + l) # read_bytes ds"
| "read_bytes ds = []"

definition read_text :: "string \<Rightarrow> u8 list option" where
  "read_text t = (let ds = map unhex (filter (\<lambda>c. c \<noteq> CHR ''-'') t)
     in if length ds = 32 then Some (read_bytes ds) else None)"

lemma hex_byte_digits: "filter (\<lambda>c. c \<noteq> CHR ''-'') (hex_byte b) = hex_byte b"
  "map unhex (hex_byte b) = [unat b div 16, unat b mod 16]"
proof -
  have d: "unat b div 16 < 16" "unat b mod 16 < 16"
    using unat_u8_less [of b] by (simp_all add: less_mult_imp_div_less)
  have "hex_digit n \<noteq> CHR ''-''" if "n < 16" for n
    using of_char_hex_digit [OF that] by (auto split: if_splits)
  then show "filter (\<lambda>c. c \<noteq> CHR ''-'') (hex_byte b) = hex_byte b" using d by (simp add: hex_byte_def)
  show "map unhex (hex_byte b) = [unat b div 16, unat b mod 16]" using d by (simp add: hex_byte_def)
qed

lemma read_text_uuid: "length u = 16 \<Longrightarrow> read_text (uuid_text u) = Some u"
  by (elim length_16_cases) (simp add: read_text_def uuid_text_def groups_def hex_byte_digits)

end
