(* ===== verification/Smoke_Program.thy ===== *)
theory Smoke_Program
  imports Host_Contract Host_Stateless Sha1_Vectors Uuid_Text
begin

text \<open>
  The program that checks a TinyGo build of the package in a browser
  (\<open>src/go/internal/tinygosmoke/main.go\<close>): one goroutine that calls most of the public API in
  sequence and prints a line of verdict for each check. Its \<open>main\<close> is translated in three parts;
  the result is the list of verdicts, and \<open>None\<close> a panic. \<open>sc k\<close> is the scheduler's choice for
  the \<open>k\<close>-th stateless call, \<open>now1\<close> to \<open>now3\<close> are the clock's milliseconds at the calls that
  read it.
\<close>

section \<open>The UUID type's own methods\<close>

text \<open>
  \<open>uuid.UUID\<close> comes from \<open>github.com/google/uuid\<close>: what the program uses of it is a parameter,
  and \<open>lib_ok\<close> its documentation: \<open>String\<close> is the RFC 9562 text form, \<open>MustParse\<close> reads it back,
  \<open>Version\<close> and \<open>Variant\<close> are the RFC's fields, and two constants are the RFC's. \<open>is_rfc4122\<close>
  stands for \<open>u.Variant() == uuid.RFC4122\<close>.
\<close>

record uuid_lib =
  uuid_String :: "uuid \<Rightarrow> string"
  uuid_Version :: "uuid \<Rightarrow> nat"
  is_rfc4122 :: "uuid \<Rightarrow> bool"
  MustParse :: "string \<Rightarrow> uuid option"
  NameSpaceDNS :: uuid
  uuid_Nil :: uuid

definition lib_ok :: "uuid_lib \<Rightarrow> bool" where
  "lib_ok lib \<longleftrightarrow> (\<forall>u. length u = 16 \<longrightarrow> uuid_String lib u = uuid_text u \<and> uuid_Version lib u = rfc_version u \<and>
      is_rfc4122 lib u = is_variant_rfc u \<and> MustParse lib (uuid_text u) = Some u) \<and>
    NameSpaceDNS lib = namespace_dns \<and> uuid_Nil lib = zero_uuid"

definition sample_lib :: uuid_lib where
  "sample_lib = \<lparr>uuid_String = uuid_text, uuid_Version = rfc_version, is_rfc4122 = is_variant_rfc,
     MustParse = read_text, NameSpaceDNS = namespace_dns, uuid_Nil = zero_uuid\<rparr>"

lemma sample_lib_ok: "lib_ok sample_lib"
  by (simp add: lib_ok_def sample_lib_def read_text_uuid)

section \<open>The program\<close>

text \<open>A verdict is its \<open>PASS\<close> or \<open>FAIL\<close> and its text; \<open>val\<close> is the value beside an error.\<close>

type_synonym verdict = "bool \<times> string"

definition check :: "bool \<Rightarrow> string \<Rightarrow> verdict" where
  "check ok what = (ok, what)"

definition no_err :: "'a go \<Rightarrow> bool" where
  "no_err r = (case r of Inl _ \<Rightarrow> False | Inr _ \<Rightarrow> True)"

definition err_is :: "sentinel \<Rightarrow> 'a go \<Rightarrow> bool" where
  "err_is s r = (case r of Inl e \<Rightarrow> sentinel_of e = Some s | Inr _ \<Rightarrow> False)"

definition val :: "'a \<Rightarrow> 'a go \<Rightarrow> 'a" where
  "val z r = (case r of Inl _ \<Rightarrow> z | Inr x \<Rightarrow> x)"

abbreviation uval :: "uuid go \<Rightarrow> uuid" where
  "uval \<equiv> val zero_uuid"

text \<open>Times are nanoseconds since the epoch, in UTC: the zero \<open>time.Time\<close>, and the first of 2026.\<close>

definition zero_time :: int where "zero_time = - 62135596800000000000"
definition year_2026 :: int where "year_2026 = 1767225600000000000"

fun ordered_after :: "uuid_lib \<Rightarrow> uuid \<Rightarrow> uuid list \<Rightarrow> bool" where
  "ordered_after lib prev [] = True"
| "ordered_after lib prev (u # us) =
     (if uuid_Version lib u = 7 \<and> text_less (uuid_String lib prev) (uuid_String lib u)
      then ordered_after lib u us else False)"

definition batch_ordered :: "uuid_lib \<Rightarrow> uuid list \<Rightarrow> bool" where
  "batch_ordered lib us = (case us of [] \<Rightarrow> True | u # vs \<Rightarrow> ordered_after lib u vs)"

definition smoke_generate ::
    "uuid_lib \<Rightarrow> config \<Rightarrow> string \<Rightarrow> (nat \<Rightarrow> sched) \<Rightarrow> i64 \<Rightarrow> i64 \<Rightarrow> package \<Rightarrow>
     ((verdict list \<times> uuid \<times> int) \<times> package) option"
where
  "smoke_generate lib cfg wantVersion sc now1 now2 p =
     do { (version, p) \<leftarrow> NativeVersion cfg (sc 0) p;
          (a, p) \<leftarrow> NewV4 cfg (sc 1) p;
          (b, p) \<leftarrow> NewV4 cfg (sc 2) p;
          (v5, p) \<leftarrow> NewV5String cfg (sc 3) (NameSpaceDNS lib) (str_bytes ''www.example.com'') p;
          (v7, p) \<leftarrow> NewV7 cfg now1 p;
          (created, p) \<leftarrow> V7Timestamp cfg (sc 4) (uval v7) p;
          (batch, p) \<leftarrow> NewV7Batch cfg now2 1000 p;
          Some
            (([check (version \<noteq> '''' \<and> version = wantVersion) ''NativeVersion matches rust/Cargo.toml'',
              check (no_err a \<and> no_err b \<and> uuid_Version lib (uval a) = 4 \<and> is_rfc4122 lib (uval a) \<and> uval a \<noteq> uval b) ''v4'',
              check (no_err v5 \<and> uuid_String lib (uval v5) = ''2ed6657d-e927-568b-95e1-2665a8aea6a2'') ''v5 known answer'',
              check (no_err v7 \<and> no_err created \<and> uuid_Version lib (uval v7) = 7 \<and> is_rfc4122 lib (uval v7) \<and>
                year_2026 \<le> val zero_time created) ''v7'',
              check (no_err batch \<and> length (val [] batch) = 1000 \<and> batch_ordered lib (val [] batch))
                ''v7 batch of 1000, strictly increasing''],
             uval v7, val zero_time created), p) }"

definition smoke_convert ::
    "uuid_lib \<Rightarrow> config \<Rightarrow> (nat \<Rightarrow> sched) \<Rightarrow> uuid \<Rightarrow> package \<Rightarrow> ((verdict list \<times> uuid \<times> uuid) \<times> package) option"
where
  "smoke_convert lib cfg sc v7 p =
     do { (sql, p) \<leftarrow> V7ToSqlOrder cfg (sc 5) v7 p;
          (back, p) \<leftarrow> V7FromSqlOrder cfg (sc 6) (uval sql) p;
          v6 \<leftarrow> MustParse lib ''1ec9414c-232a-6b00-b3c8-9f6bdeced846'';
          fixed \<leftarrow> MustParse lib ''017f22e2-79b0-7cc3-98c4-dc0c0c07398f'';
          (r1, p) \<leftarrow> V7FromSqlOrder cfg (sc 7) fixed p;
          (r2, p) \<leftarrow> V7ToSqlOrder cfg (sc 8) v6 p;
          (r3, p) \<leftarrow> V7FromSqlOrder cfg (sc 9) (uuid_Nil lib) p;
          Some
            (([check (no_err sql \<and> no_err back \<and> drop_bit 4 (uval sql ! 7) = 8 \<and> uval back = v7)
                ''v7 SQL-order round trip through version 8'',
              check (err_is ErrWrongVersion r1 \<and> err_is ErrWrongVersion r2 \<and> err_is ErrWrongVersion r3)
                ''SQL-order refusals''],
             uval sql, v6), p) }"

text \<open>\<open>x && f()\<close>, where \<open>f\<close> is called only if \<open>x\<close> holds.\<close>

definition and_call :: "bool \<Rightarrow> (package \<Rightarrow> (bool \<times> package) option) \<Rightarrow> package \<Rightarrow> (bool \<times> package) option" where
  "and_call ok f p = (if ok then f p else Some (False, p))"

definition smoke_inspect ::
    "uuid_lib \<Rightarrow> config \<Rightarrow> (nat \<Rightarrow> sched) \<Rightarrow> i64 \<Rightarrow> uuid \<Rightarrow> int \<Rightarrow> uuid \<Rightarrow> uuid \<Rightarrow> package \<Rightarrow> (verdict list \<times> package) option"
where
  "smoke_inspect lib cfg sc now3 v7 created sql v6 p =
     do { (sqlVersion, p) \<leftarrow> VersionIn cfg (sc 10) sql LayoutSqlServer p;
          (sqlRfc, p) \<leftarrow> IsRfcIn cfg (sc 11) sql 7 LayoutSqlServer p;
          (ok, p) \<leftarrow> and_call (no_err sqlVersion \<and> no_err sqlRfc \<and> val 0 sqlVersion = 7 \<and> val False sqlRfc)
            (\<lambda>p. do { (v, p) \<leftarrow> Version cfg (sc 12) v7 p; Some (v = 7, p) }) p;
          (ok, p) \<leftarrow> and_call ok (\<lambda>p. do { (v, p) \<leftarrow> Variant cfg (sc 13) v7 p; Some (v = VariantRfc9562, p) }) p;
          (ok, p) \<leftarrow> and_call ok (IsRfc cfg (sc 14) v7 7) p;
          (sqlMillis, p) \<leftarrow> V7UnixMillisIn cfg (sc 15) sql LayoutSqlServer p;
          (millis, p) \<leftarrow> V7UnixMillis cfg (sc 16) v7 p;
          (stamped, p) \<leftarrow> GetTimestampIn cfg (sc 17) sql LayoutSqlServer p;
          let notRfc = v7[8 := v7 ! 8 AND NOT 0xC0];
          (r2, p) \<leftarrow> GetTimestamp cfg (sc 18) notRfc p;
          (r3, p) \<leftarrow> GetTimestamp cfg (sc 19) v6 p;
          (big, p) \<leftarrow> NewV7Batch cfg now3 (int MaxV7Batch + 1) p;
          Some
            ([check ok ''version, variant and IsRfc'',
              check (no_err sqlMillis \<and> no_err millis \<and> val 0 sqlMillis = val 0 millis) ''timestamp read in SQL order'',
              check (no_err stamped \<and> val zero_time stamped = created \<and> err_is ErrNotTimeBased r2 \<and> err_is ErrNotTimeBased r3)
                ''GetTimestamp reads RFC 9562 v7 only'',
              check (err_is ErrBatchTooLarge big) ''v7 batch past MaxV7Batch refused''], p) }"

definition smoke_main ::
    "uuid_lib \<Rightarrow> config \<Rightarrow> string \<Rightarrow> (nat \<Rightarrow> sched) \<Rightarrow> i64 \<Rightarrow> i64 \<Rightarrow> i64 \<Rightarrow> package \<Rightarrow> (verdict list \<times> package) option"
where
  "smoke_main lib cfg wantVersion sc now1 now2 now3 p =
     do { ((generated, v7, created), p) \<leftarrow> smoke_generate lib cfg wantVersion sc now1 now2 p;
          ((converted, sql, v6), p) \<leftarrow> smoke_convert lib cfg sc v7 p;
          (inspected, p) \<leftarrow> smoke_inspect lib cfg sc now3 v7 created sql v6 p;
          Some (generated @ converted @ inspected, p) }"

definition smoke_checks :: "string list" where
  "smoke_checks = [''NativeVersion matches rust/Cargo.toml'', ''v4'', ''v5 known answer'', ''v7'',
     ''v7 batch of 1000, strictly increasing'', ''v7 SQL-order round trip through version 8'',
     ''SQL-order refusals'', ''version, variant and IsRfc'', ''timestamp read in SQL order'',
     ''GetTimestamp reads RFC 9562 v7 only'', ''v7 batch past MaxV7Batch refused'']"

section \<open>The conversions and the inspections\<close>

lemma go_simps [simp]: "no_err (Inr x)" "\<not> no_err (Inl e)" "val z (Inr x) = x" "val z (Inl e) = z"
  "err_is s (Inl e) \<longleftrightarrow> sentinel_of e = Some s" "\<not> err_is s (Inr x)"
  by (simp_all add: no_err_def val_def err_is_def)

lemma and_call_answers:
  assumes "package_ok cfg p" "ok \<Longrightarrow> answers cfg p (f p) r"
  shows "answers cfg p (and_call ok f p) (ok \<and> r)"
  using assms by (cases ok) (simp_all add: and_call_def answers_return)

text \<open>The two fixed values: RFC 9562's example of a version 6, and of a version 7.\<close>

definition example_v6 :: uuid where
  "example_v6 = [0x1e, 0xc9, 0x41, 0x4c, 0x23, 0x2a, 0x6b, 0x00, 0xb3, 0xc8, 0x9f, 0x6b, 0xde, 0xce, 0xd8, 0x46]"

definition example_v7 :: uuid where
  "example_v7 = [0x01, 0x7f, 0x22, 0xe2, 0x79, 0xb0, 0x7c, 0xc3, 0x98, 0xc4, 0xdc, 0x0c, 0x0c, 0x07, 0x39, 0x8f]"

lemma example_texts:
  "uuid_text example_v6 = ''1ec9414c-232a-6b00-b3c8-9f6bdeced846''"
  "uuid_text example_v7 = ''017f22e2-79b0-7cc3-98c4-dc0c0c07398f''"
  "uuid_text example_v5 = ''2ed6657d-e927-568b-95e1-2665a8aea6a2''"
  by (simp_all add: uuid_text_def groups_def example_v6_def example_v7_def example_v5_def hex_byte_def hex_digits)

lemma example_lengths [simp]: "length example_v6 = 16" "length example_v7 = 16" "length example_v5 = 16"
  "length zero_uuid = 16" "length namespace_dns = 16"
  by (simp_all add: example_v6_def example_v7_def example_v5_def zero_uuid_def namespace_dns_def)

lemma example_fields [simp]: "\<not> is_rfc_v7 example_v6" "\<not> is_sql_v7 example_v7" "\<not> is_rfc_v7 zero_uuid" "\<not> is_sql_v7 zero_uuid"
  by (simp_all add: is_rfc_v7_def is_sql_v7_def rfc_version_def is_variant_rfc_def example_v6_def example_v7_def zero_uuid_def)

lemma smoke_convert_answers:
  assumes "lib_ok lib" "package_ok cfg p" "length u = 16"
  shows "answers cfg p (smoke_convert lib cfg sc u p)
    ([(is_rfc_v7 u, ''v7 SQL-order round trip through version 8''), (True, ''SQL-order refusals'')],
     if is_rfc_v7 u then sql_bytes u else zero_uuid, example_v6)"
proof -
  have lib: "MustParse lib ''1ec9414c-232a-6b00-b3c8-9f6bdeced846'' = Some example_v6"
    "MustParse lib ''017f22e2-79b0-7cc3-98c4-dc0c0c07398f'' = Some example_v7" "uuid_Nil lib = zero_uuid"
    using assms(1) example_lengths unfolding lib_ok_def example_texts(1,2) [symmetric] by blast+
  define rs rb where "rs = (if is_rfc_v7 u then Inr (sql_bytes u) else Inl (Plain ErrWrongVersion))"
    and "rb = (if is_rfc_v7 u then Inr u else Inl (Plain ErrWrongVersion) :: uuid go)"
  have convert: "answers cfg q (V7ToSqlOrder cfg s u q) rs" "answers cfg q (V7FromSqlOrder cfg s (uval rs) q) rb"
    "answers cfg q (V7FromSqlOrder cfg s example_v7 q) (Inl (Plain ErrWrongVersion))"
    "answers cfg q (V7ToSqlOrder cfg s example_v6 q) (Inl (Plain ErrWrongVersion))"
    "answers cfg q (V7FromSqlOrder cfg s zero_uuid q) (Inl (Plain ErrWrongVersion))" if "package_ok cfg q" for q s
    using sql_order_answers [OF that assms(3), of s] sql_order_answers(2) [OF that length_sql_bytes(1), of s u]
      sql_order_answers(2) [OF that example_lengths(2), of s] sql_order_answers(1) [OF that example_lengths(1), of s]
      sql_order_answers(2) [OF that example_lengths(4), of s] rfc_sql_bytes [OF assms(3)]
    by (auto simp: rs_def rb_def is_sql_sql_bytes)
  have nibble: "drop_bit 4 (sql_bytes u ! 7) = 8"
    by (rule eq_bits_u8; simp add: sql_bytes_def bit_eval)
  show ?thesis
    unfolding smoke_convert_def lib bind.bind_lunit
    apply (rule answers_bind [OF convert(1) [OF assms(2)]])
    apply (rule answers_bind [OF convert(2)], assumption)
    apply (rule answers_bind [OF convert(3)], assumption)
    apply (rule answers_bind [OF convert(4)], assumption)
    apply (rule answers_bind [OF convert(5)], assumption)
    using nibble by (simp add: answers_return check_def rs_def rb_def)
qed

text \<open>The inspections, of a version 7 or of the zero value of a failed call.\<close>

lemma zero_millis: "rfc_millis zero_uuid = 0" "sql_millis zero_uuid = 0"
  by (simp_all add: rfc_millis_def sql_millis_def zero_uuid_def be_nat_def eval_nat_numeral)

lemmas in_layout = VersionIn_def IsRfcIn_def Version_def Variant_def IsRfc_def V7UnixMillisIn_def V7UnixMillis_def
  GetTimestampIn_def GetTimestamp_def LayoutSqlServer_def LayoutRfc9562_def layoutCode_simps guarded_simps

lemma NewV7Batch_too_large:
  "NewV7Batch cfg ms (int MaxV7Batch + 1) p = Some (Inl (Got ErrBatchTooLarge (int MaxV7Batch + 1)), p)"
  by (simp add: NewV7Batch_def NewV7BatchAt_def errV7BatchTooLarge_def MaxV7Batch_def)

lemma smoke_inspect_answers:
  assumes "package_ok cfg p" "length u = 16" "is_rfc_v7 u \<or> u = zero_uuid" "created = int (rfc_millis u) * 1000000"
    and w: "w = (if is_rfc_v7 u then sql_bytes u else zero_uuid)"
  shows "answers cfg p (smoke_inspect lib cfg sc now3 u created w example_v6 p)
    [(is_rfc_v7 u, ''version, variant and IsRfc''), (True, ''timestamp read in SQL order''),
     (is_rfc_v7 u \<and> rfc_millis u \<le> 253402300799999, ''GetTimestamp reads RFC 9562 v7 only''),
     (True, ''v7 batch past MaxV7Batch refused'')]"
proof -
  have lw: "length w = 16" by (simp add: w)
  have sql: "is_sql_v7 w = is_rfc_v7 u" "sql_millis w = rfc_millis u"
    using assms(3) by (auto simp: w is_sql_sql_bytes sql_millis_sql_bytes [OF assms(2)] zero_millis)
  define n where "n = u[8 := u ! 8 AND NOT 0xC0]"
  have "\<not> bit (u ! 8 AND NOT 0xC0) 7" by (simp add: bit_eval)
  then have "\<not> is_variant_rfc n" using assms(2) by (simp add: n_def is_variant_rfc_def variant_bits)
  then have "\<not> is_rfc_v7 n" by (simp add: is_rfc_v7_def)
  then have times: "timestamp_code n 1 = None" "timestamp_code example_v6 1 = None"
    "(case timestamp_code w 2 of None \<Rightarrow> Inl (Plain ErrNotTimeBased) | Some t \<Rightarrow> Inr (int t * 1000000)) =
       (if is_rfc_v7 u \<and> rfc_millis u \<le> 253402300799999 then Inr created else Inl (Plain ErrNotTimeBased))"
    and ln: "length n = 16"
    using assms(2,4) by (simp_all add: timestamp_code_def sql, simp add: n_def)
  have fields: "int (version_in w 2) = (if is_rfc_v7 u then 7 else 0)" "is_rfc_in w 7 2 = is_rfc_v7 u"
    "millis_in w 2 = rfc_millis u" "version_in u 1 = rfc_version u" "is_rfc_in u 7 1 = is_rfc_v7 u"
    by (auto simp: version_in_def is_rfc_in_def millis_in_def sql is_rfc_v7_def)
  have calls: "answers cfg q (VersionIn cfg s w LayoutSqlServer q) (Inr (if is_rfc_v7 u then 7 else 0))"
    "answers cfg q (IsRfcIn cfg s w 7 LayoutSqlServer q) (Inr (is_rfc_v7 u))"
    "answers cfg q (Version cfg s u q) (int (rfc_version u))"
    "answers cfg q (Variant cfg s u q) (of_nat (variant_code u))"
    "answers cfg q (IsRfc cfg s u 7 q) (is_rfc_v7 u)"
    "answers cfg q (V7UnixMillisIn cfg s w LayoutSqlServer q) (Inr (of_nat (rfc_millis u)))"
    "answers cfg q (V7UnixMillis cfg s u q) (Inr (of_nat (rfc_millis u)))"
    "answers cfg q (GetTimestampIn cfg s w LayoutSqlServer q)
       (if is_rfc_v7 u \<and> rfc_millis u \<le> 253402300799999 then Inr created else Inl (Plain ErrNotTimeBased))"
    "answers cfg q (GetTimestamp cfg s n q) (Inl (Plain ErrNotTimeBased))"
    "answers cfg q (GetTimestamp cfg s example_v6 q) (Inl (Plain ErrNotTimeBased))"
    "answers cfg q (NewV7Batch cfg now3 (int MaxV7Batch + 1) q) (Inl (Got ErrBatchTooLarge (int MaxV7Batch + 1)))"
    if "package_ok cfg q" for q s
    using p_version_in [OF that lw, of 2 s Inr] answers_map [OF p_isRfc_in [OF that lw, of 2 s 7], of Inr]
      p_version_in [OF that assms(2), of 1 s "\<lambda>x. x"] read_answers(2) [OF that assms(2), of s]
      p_isRfc_in [OF that assms(2), of 1 s 7] answers_map [OF p_millis_in [OF that lw, of 2 s], of Inr]
      answers_map [OF read_answers(4) [OF that assms(2), of s], of Inr] timestampIn_answers [OF that lw, of s 2]
      timestampIn_answers [OF that, of n s 1] timestampIn_answers [OF that, of example_v6 s 1] assms(2,4) that
    by (simp_all add: in_layout fields times ln NewV7Batch_too_large answers_return)
  show ?thesis
    unfolding smoke_inspect_def Let_def n_def [symmetric]
    apply (rule answers_bind [OF calls(1) [OF assms(1)]])
    apply (rule answers_bind [OF calls(2)], assumption)
    apply (rule answers_bind [OF and_call_answers], assumption)
     apply (rule answers_map [OF calls(3)], assumption)
    apply (rule answers_bind [OF and_call_answers], assumption)
     apply (rule answers_map [OF calls(4)], assumption)
    apply (rule answers_bind [OF and_call_answers], assumption)
     apply (rule calls(5), assumption)
    apply (rule answers_bind [OF calls(6)], assumption)
    apply (rule answers_bind [OF calls(7)], assumption)
    apply (rule answers_bind [OF calls(8)], assumption)
    apply (rule answers_bind [OF calls(9)], assumption)
    apply (rule answers_bind [OF calls(10)], assumption)
    apply (rule answers_bind [OF calls(11)], assumption)
    using assms(3) by (auto simp: answers_return check_def is_rfc_v7_def variant_code_rfc VariantRfc9562_def)
qed

section \<open>The generation\<close>

lemma ordered_batch:
  assumes "lib_ok lib" "increasing us" "\<forall>u\<in>set us. length u = 16 \<and> is_rfc_v7 u"
  shows "batch_ordered lib us"
proof -
  have "ordered_after lib u vs" if "increasing (u # vs)" "\<forall>v\<in>set (u # vs). length v = 16 \<and> is_rfc_v7 v" for u vs
    using that
  proof (induction vs arbitrary: u)
    case (Cons v vs)
    have lengths: "length u = 16" "length v = 16" "rfc_version v = 7" using Cons.prems(2) by (simp_all add: is_rfc_v7_def)
    moreover have "text_less (uuid_text u) (uuid_text v)"
      using Cons.prems(1) lengths by (intro text_less_uuid) (simp_all add: increasing_def)
    moreover have "ordered_after lib v vs" using Cons.prems by (intro Cons.IH) (simp_all add: increasing_def)
    ultimately show ?case using assms(1) by (simp add: lib_ok_def)
  qed simp
  then show ?thesis using assms(2,3) by (cases us) (simp_all add: batch_ordered_def)
qed

lemma v7_call_length: "v7_call k S v0 rc us S' \<Longrightarrow> u \<in> set us \<Longrightarrow> length u = 16"
  by (elim v7_call_cases) (auto simp: stream_values_def)

text \<open>
  The calls the generating part makes, in its order and each on the package the one before left,
  and what they return: the results that the verdicts of a run are about.
\<close>

definition smoke_calls ::
  "uuid_lib \<Rightarrow> config \<Rightarrow> (nat \<Rightarrow> sched) \<Rightarrow> i64 \<Rightarrow> i64 \<Rightarrow> package \<Rightarrow>
   ((string \<times> uuid go \<times> uuid go \<times> uuid go \<times> uuid go \<times> int go \<times> uuid list go) \<times> package) option"
where
  "smoke_calls lib cfg sc now1 now2 p =
     do { (version, p) \<leftarrow> NativeVersion cfg (sc 0) p;
          (a, p) \<leftarrow> NewV4 cfg (sc 1) p;
          (b, p) \<leftarrow> NewV4 cfg (sc 2) p;
          (v5, p) \<leftarrow> NewV5String cfg (sc 3) (NameSpaceDNS lib) (str_bytes ''www.example.com'') p;
          (v7, p) \<leftarrow> NewV7 cfg now1 p;
          (created, p) \<leftarrow> V7Timestamp cfg (sc 4) (uval v7) p;
          (batch, p) \<leftarrow> NewV7Batch cfg now2 1000 p;
          Some ((version, a, b, v5, v7, created, batch), p) }"

lemma NewV4_returns:
  assumes "package_ok cfg p"
  obtains r q where "NewV4 cfg sc p = Some (r, q)" "package_ok cfg q" "stream_of q = stream_of p"
    "no_err r \<Longrightarrow> length (uval r) = 16 \<and> rfc_version (uval r) = 4 \<and> is_variant_rfc (uval r)"
proof -
  obtain out rc q where q: "p_newV4 cfg sc p = Some ((out, rc), q)" "package_ok cfg q" "stream_of q = stream_of p"
    "rc = 0 \<and> (\<exists>r. length r = 16 \<and> out = stamp 4 r) \<or> rc = 1"
    using newV4_returns [OF assms] by blast
  then show thesis
    using stamp_fields(1-3) by (intro that [of "if rc \<noteq> 0 then Inl (Failed ''uuid_new_v4'' rc ErrRandomSource) else Inr out" q])
      (auto simp: NewV4_def split: if_splits)
qed

lemma smoke_generate_returns:
  assumes ok: "lib_ok lib" "package_ok cfg p" "stream_of p = 0"
    and now: "1767225600000 \<le> unat now1" "unat now1 \<le> 253402300788999"
  obtains a b v7 batch q where
    "smoke_calls lib cfg sc now1 now2 p = Some ((''1.1.0'', a, b, Inr example_v5, v7, Inr (int (rfc_millis (uval v7)) * 1000000), batch), q)"
    "package_ok cfg q"
    "smoke_generate lib cfg want sc now1 now2 p = Some (([(want = ''1.1.0'', ''NativeVersion matches rust/Cargo.toml''),
       (no_err a \<and> no_err b \<and> uval a \<noteq> uval b, ''v4''), (True, ''v5 known answer''), (no_err v7, ''v7''),
       (no_err batch, ''v7 batch of 1000, strictly increasing'')], uval v7, int (rfc_millis (uval v7)) * 1000000), q)"
    "length (uval v7) = 16" "if no_err v7 then is_rfc_v7 (uval v7) \<and> rfc_millis (uval v7) \<le> 253402300799999
       else uval v7 = zero_uuid"
proof -
  obtain p1 where p1: "NativeVersion cfg (sc 0) p = Some (''1.1.0'', p1)" "package_ok cfg p1" "stream_of p1 = 0"
    using NativeVersion_answers [OF ok(2), of "sc 0"] ok(3) by (auto simp: answers_def)
  obtain a p2 where a: "NewV4 cfg (sc 1) p1 = Some (a, p2)" "package_ok cfg p2" "stream_of p2 = 0"
    "no_err a \<Longrightarrow> length (uval a) = 16 \<and> rfc_version (uval a) = 4 \<and> is_variant_rfc (uval a)"
    using NewV4_returns [OF p1(2), of "sc 1"] p1(3) by metis
  obtain b p3 where b: "NewV4 cfg (sc 2) p2 = Some (b, p3)" "package_ok cfg p3" "stream_of p3 = 0"
    using NewV4_returns [OF a(2), of "sc 2"] a(3) by metis
  obtain p4 where p4: "NewV5String cfg (sc 3) namespace_dns example_name p3 = Some (Inr example_v5, p4)"
    "package_ok cfg p4" "stream_of p4 = 0"
    using example_v5_answers(2) [OF b(2), of "sc 3"] b(3) by (auto simp: answers_def)
  have inv: "stream_inv (stream_of p4) 0" by (simp add: p4(3) stream_inv_unused)
  obtain out rc p5 where v7: "NewV7 cfg now1 p4 =
      Some (if rc = 0 then Inr out else Inl (Failed ''uuid_new_v7'' rc (v7_error rc)), p5)" "package_ok cfg p5"
    "v7_call 1 0 (unat now1) rc (if rc = 0 then [out] else []) (stream_of p5)"
    using NewV7At_returns [OF p4(2) inv, of now1] by (auto simp: NewV7_def p4(3))
  define r where "r = (if rc = 0 then Inr out else Inl (Failed ''uuid_new_v7'' rc (v7_error rc)) :: uuid go)"
  have r: "length (uval r) = 16" "if no_err r then is_rfc_v7 (uval r) \<and> rfc_millis (uval r) \<le> 253402300799999 \<and>
      unat now1 \<le> rfc_millis (uval r) else uval r = zero_uuid"
    using v7(3) v7_call_millis [of 1 0 "unat now1" "[out]" "stream_of p5" out] v7_call_length [of 1 0 "unat now1" rc "[out]" "stream_of p5" out] now(2)
    by (auto simp: r_def)
  obtain p6 where p6: "V7Timestamp cfg (sc 4) (uval r) p5 = Some (Inr (int (rfc_millis (uval r)) * 1000000), p6)"
    "package_ok cfg p6" "stream_of p6 = stream_of p5"
    using V7Timestamp_answers [OF v7(2) r(1), of "sc 4"] by (auto simp: answers_def)
  obtain us rb p7 where batch: "NewV7Batch cfg now2 1000 p6 = Some (if rb = 0 then Inr us
      else Inl (Failed ''uuid_new_v7_batch'' rb (v7_error rb)), p7)" "package_ok cfg p7"
    "v7_call (batch_steps 1000) (stream_of p6) (unat now2) rb (if rb = 0 then us else []) (stream_of p7)"
    "rb = 0 \<longrightarrow> length us = 1000 \<and> (\<forall>u\<in>set us. length u = 16)"
    using NewV7BatchAt_returns [OF p6(2), of _ 1000 now2] v7_call_inv [OF v7(3) stream_inv_unused] p6(3)
    by (auto simp: NewV7Batch_def MaxV7Batch_def) metis
  define rbs where "rbs = (if rb = 0 then Inr us else Inl (Failed ''uuid_new_v7_batch'' rb (v7_error rb)) :: uuid list go)"
  have v4: "no_err a \<and> no_err b \<and> uuid_Version lib (uval a) = 4 \<and> is_rfc4122 lib (uval a) \<and> uval a \<noteq> uval b \<longleftrightarrow>
      no_err a \<and> no_err b \<and> uval a \<noteq> uval b"
    using a(4) ok(1) by (auto simp: lib_ok_def)
  have v5: "NameSpaceDNS lib = namespace_dns" "uuid_String lib example_v5 = ''2ed6657d-e927-568b-95e1-2665a8aea6a2''"
    using ok(1) example_texts(3) by (simp_all add: lib_ok_def)
  have r7: "no_err r \<and> uuid_Version lib (uval r) = 7 \<and> is_rfc4122 lib (uval r) \<and>
      year_2026 \<le> int (rfc_millis (uval r)) * 1000000 \<longleftrightarrow> no_err r"
    using r ok(1) now(1) by (auto simp: lib_ok_def is_rfc_v7_def year_2026_def)
  have ordered: "no_err rbs \<and> length (val [] rbs) = 1000 \<and> batch_ordered lib (val [] rbs) \<longleftrightarrow> no_err rbs"
    using batch(4) ordered_batch [OF ok(1), of us] v7_call_codes(3) [OF batch(3)]
      v7_call_millis(1) [of "batch_steps 1000" "stream_of p6" "unat now2" us "stream_of p7"] batch(3)
    by (auto simp: rbs_def)
  have version: "''1.1.0'' \<noteq> '''' \<and> ''1.1.0'' = want \<longleftrightarrow> want = ''1.1.0''" by auto
  note verdicts = version v4 v5(2) r7 ordered
  have calls: "NewV7 cfg now1 p4 = Some (r, p5)" "NewV7Batch cfg now2 1000 p6 = Some (rbs, p7)"
    using v7(1) batch(1) by (simp_all add: r_def rbs_def)
  have "smoke_generate lib cfg want sc now1 now2 p = Some (([(want = ''1.1.0'', ''NativeVersion matches rust/Cargo.toml''),
       (no_err a \<and> no_err b \<and> uval a \<noteq> uval b, ''v4''), (True, ''v5 known answer''), (no_err r, ''v7''),
       (no_err rbs, ''v7 batch of 1000, strictly increasing'')], uval r, int (rfc_millis (uval r)) * 1000000), p7)"
    by (simp only: smoke_generate_def bind.bind_lunit prod.case go_simps check_def p1(1) a(1) b(1) v5(1)
        example_name_def [symmetric] p4(1) calls p6(1) verdicts simp_thms)
  moreover have "smoke_calls lib cfg sc now1 now2 p =
      Some ((''1.1.0'', a, b, Inr example_v5, r, Inr (int (rfc_millis (uval r)) * 1000000), rbs), p7)"
    by (simp only: smoke_calls_def bind.bind_lunit prod.case p1(1) a(1) b(1) v5(1) example_name_def [symmetric] p4(1) calls p6(1))
  ultimately show thesis
    using batch(2) r by (intro that [of a b r rbs p7]) (auto split: if_splits)
qed

section \<open>Property\<close>

text \<open>
  C28. The smoke program, from a fresh package on any build, schedule and random source, with a
  clock between 2026 and eleven seconds before the year 10000. It never panics and prints its
  eleven verdicts in order, and what each says of the run's own calls is exact: the version check
  passes exactly when \<open>1.1.0\<close> was wanted; \<open>v4\<close> exactly when both values were generated and differ;
  the batch check exactly when the batch returned no error; \<open>v7\<close>, the round trip, the inspections
  and \<open>GetTimestamp\<close> exactly when the version 7 was generated. The known answer, the refusals of
  both conversions, the timestamp in SQL order and the batch past the limit always pass.
\<close>

theorem smoke_verdicts:
  assumes "host_ok (c_maxint cfg)" "lib_ok lib" "1767225600000 \<le> unat now1" "unat now1 \<le> 253402300788999"
  shows "\<exists>version a b v5 v7 created batch p q.
    smoke_calls lib cfg sc now1 now2 (init_package e) = Some ((version, a, b, v5, v7, created, batch), p) \<and>
    version = ''1.1.0'' \<and> v5 = Inr example_v5 \<and> created = Inr (int (rfc_millis (uval v7)) * 1000000) \<and>
    smoke_main lib cfg want sc now1 now2 now3 (init_package e) = Some (zip
      [want = version, no_err a \<and> no_err b \<and> uval a \<noteq> uval b, True, no_err v7, no_err batch,
       no_err v7, True, no_err v7, True, no_err v7, True] smoke_checks, q)"
proof -
  obtain a b v7 batch q where g:
    "smoke_calls lib cfg sc now1 now2 (init_package e) =
       Some ((''1.1.0'', a, b, Inr example_v5, v7, Inr (int (rfc_millis (uval v7)) * 1000000), batch), q)" "package_ok cfg q"
    "smoke_generate lib cfg want sc now1 now2 (init_package e) = Some (([(want = ''1.1.0'', ''NativeVersion matches rust/Cargo.toml''),
       (no_err a \<and> no_err b \<and> uval a \<noteq> uval b, ''v4''), (True, ''v5 known answer''), (no_err v7, ''v7''),
       (no_err batch, ''v7 batch of 1000, strictly increasing'')], uval v7, int (rfc_millis (uval v7)) * 1000000), q)"
    "length (uval v7) = 16" "if no_err v7 then is_rfc_v7 (uval v7) \<and> rfc_millis (uval v7) \<le> 253402300799999
       else uval v7 = zero_uuid"
    using smoke_generate_returns [OF assms(2) init_package_ok(1) [OF assms(1)] init_package_ok(2) assms(3,4)] by metis
  have v7: "is_rfc_v7 (uval v7) \<longleftrightarrow> no_err v7" "is_rfc_v7 (uval v7) \<or> uval v7 = zero_uuid"
    "is_rfc_v7 (uval v7) \<and> rfc_millis (uval v7) \<le> 253402300799999 \<longleftrightarrow> no_err v7"
    using g(5) example_fields(3) by (auto split: if_splits)
  note c = smoke_convert_answers [OF assms(2) g(2,4), of sc, unfolded answers_def]
  then obtain q' where c: "smoke_convert lib cfg sc (uval v7) q = Some (([(is_rfc_v7 (uval v7), ''v7 SQL-order round trip through version 8''),
      (True, ''SQL-order refusals'')], if is_rfc_v7 (uval v7) then sql_bytes (uval v7) else zero_uuid, example_v6), q')"
    "package_ok cfg q'" by blast
  from smoke_inspect_answers [OF c(2) g(4) v7(2) refl refl, of lib sc now3]
  obtain q'' where "smoke_inspect lib cfg sc now3 (uval v7) (int (rfc_millis (uval v7)) * 1000000)
      (if is_rfc_v7 (uval v7) then sql_bytes (uval v7) else zero_uuid) example_v6 q' =
    Some ([(is_rfc_v7 (uval v7), ''version, variant and IsRfc''), (True, ''timestamp read in SQL order''),
     (is_rfc_v7 (uval v7) \<and> rfc_millis (uval v7) \<le> 253402300799999, ''GetTimestamp reads RFC 9562 v7 only''),
     (True, ''v7 batch past MaxV7Batch refused'')], q'')" by (auto simp: answers_def)
  then have "smoke_main lib cfg want sc now1 now2 now3 (init_package e) = Some (zip
      [want = ''1.1.0'', no_err a \<and> no_err b \<and> uval a \<noteq> uval b, True, no_err v7, no_err batch,
       no_err v7, True, no_err v7, True, no_err v7, True] smoke_checks, q'')"
    unfolding smoke_main_def g(3) using c(1) v7 by (simp add: smoke_checks_def)
  with g(1) show ?thesis by blast
qed

theorem smoke_verdicts_witness:
  "\<exists>version a b v5 v7 created batch p q.
    smoke_calls sample_lib sample_config (\<lambda>_. Free) 1767225600000 1767225600001 (init_package sample_env) =
      Some ((version, a, b, v5, v7, created, batch), p) \<and> version = ''1.1.0'' \<and>
    smoke_main sample_lib sample_config ''1.1.0'' (\<lambda>_. Free) 1767225600000 1767225600001 1767225600002 (init_package sample_env) =
      Some (zip [True, no_err a \<and> no_err b \<and> uval a \<noteq> uval b, True, no_err v7, no_err batch,
       no_err v7, True, no_err v7, True, no_err v7, True] smoke_checks, q)"
  using smoke_verdicts [OF sample_config_ok sample_lib_ok, of 1767225600000 "\<lambda>_. Free" 1767225600001 sample_env
      "''1.1.0''" 1767225600002] by fastforce

end
