(* ===== verification/Wasm2go_Driver.thy ===== *)
theory Wasm2go_Driver
  imports Host_Api "HOL-Library.Sublist"
begin

text \<open>
  The tool that regenerates the translated core (\<open>src/go/internal/wasm2go/main.go\<close>): it finds
  the pinned Rust toolchain, checks what it needs, builds the core and translates it. The model
  is \<open>run\<close> after its flags are parsed, with what the machine answers as an environment: which
  file the program was compiled from, which tools are on the path, what files hold, and what
  each command prints and whether it succeeds, given the steps taken before it. The result is
  the exit status, what is reported on standard error, and the steps taken. Paths are Unix
  paths; a report carries the values its text is made from.
\<close>

section \<open>Paths\<close>

text \<open>\<open>filepath.Clean\<close>, \<open>filepath.Join\<close> and \<open>filepath.Dir\<close> on slash-separated paths.\<close>

fun split_path :: "string \<Rightarrow> string list" where
  "split_path [] = [[]]"
| "split_path (c # cs) =
     (case split_path cs of
        [] \<Rightarrow> [[c]]
      | w # ws \<Rightarrow> if c = CHR ''/'' then [] # w # ws else (c # w) # ws)"

fun join_path :: "string list \<Rightarrow> string" where
  "join_path [] = []"
| "join_path [w] = w"
| "join_path (w # ws) = w @ ''/'' @ join_path ws"

text \<open>\<open>acc\<close> holds the components kept, last first.\<close>

fun clean_components :: "bool \<Rightarrow> string list \<Rightarrow> string list \<Rightarrow> string list" where
  "clean_components rooted acc [] = rev acc"
| "clean_components rooted acc (w # ws) =
     (if w = '''' \<or> w = ''.'' then clean_components rooted acc ws
      else if w = ''..'' then
        (case acc of
           [] \<Rightarrow> clean_components rooted (if rooted then [] else [''..'']) ws
         | a # as \<Rightarrow> clean_components rooted (if a = ''..'' then ''..'' # acc else as) ws)
      else clean_components rooted (w # acc) ws)"

definition rooted :: "string \<Rightarrow> bool" where
  "rooted p = (case p of [] \<Rightarrow> False | c # _ \<Rightarrow> c = CHR ''/'')"

definition path_clean :: "string \<Rightarrow> string" where
  "path_clean p =
     (let ws = clean_components (rooted p) [] (split_path p)
      in if rooted p then ''/'' @ join_path ws else if ws = [] then ''.'' else join_path ws)"

definition path_join :: "string list \<Rightarrow> string" where
  "path_join ws =
     (case dropWhile (\<lambda>w. w = '''') ws of [] \<Rightarrow> '''' | vs \<Rightarrow> path_clean (join_path vs))"

definition path_dir :: "string \<Rightarrow> string" where
  "path_dir p = path_clean (rev (dropWhile (\<lambda>c. c \<noteq> CHR ''/'') (rev p)))"

section \<open>The machine\<close>

datatype command = Command "string list" "string option"

text \<open>A step with an effect: a command run in a directory, or the directories of a path made.\<close>

datatype driver_step = Ran command | MadeDirs string

record build_env =
  caller_file :: "string option"
  look_path :: "string \<Rightarrow> bool"
  read_file :: "string \<Rightarrow> string option"
  exec :: "driver_step list \<Rightarrow> command \<Rightarrow> string \<times> bool"
  mkdir_all :: "string \<Rightarrow> bool"

record driver_flags =
  root_flag :: "string option"
  out_flag :: string
  stack_flag :: int

datatype report = CannotLocate | CannotReadPin | NoChannelLine | ToolMissing string string
  | ToolchainMissing string string string | TargetMissing string string | CargoFailed string string
  | CannotMakeDirs string | TranslationFailed string

section \<open>The pinned toolchain\<close>

definition defaultStack :: int where "defaultStack = 65536"
definition target :: string where "target = ''wasm32-wasip1''"

text \<open>
  \<open>channelLine\<close>, the expression \<open>(?m)^channel = "([^"]+)"\<close>: the first line start at which the
  text goes on with \<open>channel = \<close>, a quotation mark, and one or more other characters up to the
  next one, which may lie on a later line.
\<close>

definition quote :: char where "quote = CHR 0x22"

definition channel_at :: "string \<Rightarrow> string option" where
  "channel_at t =
     (let key = ''channel = '' @ [quote] in
      if take (length key) t = key then
        let rest = drop (length key) t; name = takeWhile (\<lambda>c. c \<noteq> quote) rest
        in if name \<noteq> [] \<and> length name < length rest then Some name else None
      else None)"

fun find_channel :: "bool \<Rightarrow> string \<Rightarrow> string option" where
  "find_channel start [] = None"
| "find_channel start (c # cs) =
     (case (if start then channel_at (c # cs) else None) of
        Some name \<Rightarrow> Some name
      | None \<Rightarrow> find_channel (c = CHR 0x0A) cs)"

definition pinnedToolchain :: "build_env \<Rightarrow> string \<Rightarrow> report + string" where
  "pinnedToolchain mc toolDir =
     (case read_file mc (path_join [toolDir, ''rust-toolchain.toml'']) of
        None \<Rightarrow> Inl CannotReadPin
      | Some data \<Rightarrow>
          (case find_channel True data of None \<Rightarrow> Inl NoChannelLine | Some pin \<Rightarrow> Inr pin))"

section \<open>The program\<close>

definition show_int :: "int \<Rightarrow> string" where
  "show_int i = (if i < 0 then ''-'' @ show_nat (nat (- i)) else show_nat (nat i))"

definition install_line :: "string \<Rightarrow> string" where
  "install_line pin = ''rustup toolchain install '' @ pin @ '' --profile minimal --target '' @ target"

definition rustc_query :: "string \<Rightarrow> command" where
  "rustc_query pin = Command [''rustup'', ''run'', pin, ''rustc'', ''-V''] None"

definition target_query :: "string \<Rightarrow> command" where
  "target_query pin = Command [''rustup'', ''target'', ''list'', ''--installed'', ''--toolchain'', pin] None"

definition cargo_build :: "string \<Rightarrow> string \<Rightarrow> int \<Rightarrow> command" where
  "cargo_build pin rustDir stack =
     Command [''cargo'', ''+'' @ pin, ''cdylib'', ''--target'', target, ''--target-dir'', path_join [rustDir, ''target''],
       ''--'', ''-C'', ''link-arg=-zstack-size='' @ show_int stack] (Some rustDir)"

definition wasm_file :: "string \<Rightarrow> string" where
  "wasm_file rustDir = path_join [path_join [rustDir, ''target''], target, ''release'', ''hyperuuid.wasm'']"

definition translation :: "string \<Rightarrow> string \<Rightarrow> string \<Rightarrow> command" where
  "translation out wasm toolDir =
     Command [''go'', ''tool'', ''wasm2go'', ''-unsafe'', ''-pkg'', ''core'', ''-o'', out, wasm] (Some toolDir)"

text \<open>From the build on: \<open>taken\<close> are the steps taken so far.\<close>

definition build_and_translate ::
    "build_env \<Rightarrow> string \<Rightarrow> string \<Rightarrow> string \<Rightarrow> string \<Rightarrow> int \<Rightarrow> driver_step list \<Rightarrow> nat \<times> report option \<times> driver_step list"
where
  "build_and_translate mc pin toolDir root out stack taken =
     (let rustDir = path_join [root, ''rust''];
          cargo = cargo_build pin rustDir stack;
          (msg, ok) = exec mc taken cargo;
          taken = taken @ [Ran cargo]
      in if \<not> ok then (1, Some (CargoFailed rustDir msg), taken) else
      let dir = path_dir out in
      if \<not> mkdir_all mc dir then (1, Some (CannotMakeDirs dir), taken) else
      let taken = taken @ [MadeDirs dir];
          translate = translation out (wasm_file rustDir) toolDir;
          (msg, ok) = exec mc taken translate;
          taken = taken @ [Ran translate]
      in if \<not> ok then (1, Some (TranslationFailed msg), taken) else (0, None, taken))"

text \<open>The repository's root and the file to write, from the flags and the program's own path.\<close>

definition driver_root :: "driver_flags \<Rightarrow> string \<Rightarrow> string" where
  "driver_root fl self =
     (case root_flag fl of
        None \<Rightarrow> path_clean (path_join [path_dir self, ''..'', ''..'', ''..''])
      | Some r \<Rightarrow> r)"

definition driver_out :: "driver_flags \<Rightarrow> string \<Rightarrow> string" where
  "driver_out fl self =
     (if out_flag fl = '''' then path_join [driver_root fl self, ''go'', ''internal'', ''core'', ''core.go'']
      else out_flag fl)"

definition run_driver :: "build_env \<Rightarrow> driver_flags \<Rightarrow> nat \<times> report option \<times> driver_step list" where
  "run_driver mc fl =
     (case caller_file mc of
        None \<Rightarrow> (1, Some CannotLocate, [])
      | Some self \<Rightarrow>
          let toolDir = path_dir self
          in case pinnedToolchain mc toolDir of
               Inl err \<Rightarrow> (1, Some err, [])
             | Inr pin \<Rightarrow>
                 (case List.find (\<lambda>tool. \<not> look_path mc tool) [''cargo'', ''rustup''] of
                    Some tool \<Rightarrow> (2, Some (ToolMissing tool (install_line pin)), [])
                  | None \<Rightarrow>
                      let (msg, ok) = exec mc [] (rustc_query pin);
                          taken = [Ran (rustc_query pin)]
                      in if \<not> ok then (2, Some (ToolchainMissing pin msg (install_line pin)), taken) else
                      let (msg, ok) = exec mc taken (target_query pin);
                          taken = taken @ [Ran (target_query pin)]
                      in if \<not> ok \<or> \<not> sublist target msg then (2, Some (TargetMissing pin (install_line pin)), taken)
                         else build_and_translate mc pin toolDir (driver_root fl self) (driver_out fl self) (stack_flag fl) taken))"

section \<open>What a run does\<close>

text \<open>
  The prerequisites, in the order they are looked for: \<open>missing mc pin\<close> is the report of the
  first that fails.
\<close>

definition missing :: "build_env \<Rightarrow> string \<Rightarrow> report option" where
  "missing mc pin =
     (if \<not> look_path mc ''cargo'' then Some (ToolMissing ''cargo'' (install_line pin))
      else if \<not> look_path mc ''rustup'' then Some (ToolMissing ''rustup'' (install_line pin))
      else if \<not> snd (exec mc [] (rustc_query pin))
        then Some (ToolchainMissing pin (fst (exec mc [] (rustc_query pin))) (install_line pin))
      else if \<not> snd (exec mc [Ran (rustc_query pin)] (target_query pin)) \<or>
              \<not> sublist target (fst (exec mc [Ran (rustc_query pin)] (target_query pin)))
        then Some (TargetMissing pin (install_line pin))
      else None)"

definition queries :: "string \<Rightarrow> driver_step list" where
  "queries pin = [Ran (rustc_query pin), Ran (target_query pin)]"

fun names_install :: "string \<Rightarrow> report \<Rightarrow> bool" where
  "names_install line (ToolMissing t i) = (i = line)"
| "names_install line (ToolchainMissing p m i) = (i = line)"
| "names_install line (TargetMissing p i) = (i = line)"
| "names_install line r = False"

lemma run_driver_pinned:
  assumes "caller_file mc = Some self" "pinnedToolchain mc (path_dir self) = Inr pin"
  shows "missing mc pin = Some r \<Longrightarrow>
      \<exists>n. run_driver mc fl = (2, Some r, take n (queries pin)) \<and> names_install (install_line pin) r"
    "missing mc pin = None \<Longrightarrow> run_driver mc fl =
       build_and_translate mc pin (path_dir self) (driver_root fl self) (driver_out fl self) (stack_flag fl) (queries pin)"
proof -
  assume "missing mc pin = Some r"
  then have "run_driver mc fl = (2, Some r, []) \<or> run_driver mc fl = (2, Some r, [Ran (rustc_query pin)]) \<or>
      run_driver mc fl = (2, Some r, queries pin)" "names_install (install_line pin) r"
    using assms by (auto simp: missing_def run_driver_def queries_def Let_def case_prod_unfold split: if_splits)
  then show "\<exists>n. run_driver mc fl = (2, Some r, take n (queries pin)) \<and> names_install (install_line pin) r"
    by (elim disjE; intro exI [of _ "length (snd (snd (run_driver mc fl)))"]; simp add: queries_def)
next
  assume "missing mc pin = None"
  then show "run_driver mc fl =
       build_and_translate mc pin (path_dir self) (driver_root fl self) (driver_out fl self) (stack_flag fl) (queries pin)"
    using assms by (auto simp: missing_def run_driver_def queries_def Let_def case_prod_unfold split: if_splits)
qed

text \<open>A build that went through: the steps it took, all of which succeeded.\<close>

definition full_build :: "string \<Rightarrow> driver_flags \<Rightarrow> string \<Rightarrow> driver_step list" where
  "full_build self fl pin =
     (let rustDir = path_join [driver_root fl self, ''rust''] in
      queries pin @ [Ran (cargo_build pin rustDir (stack_flag fl)), MadeDirs (path_dir (driver_out fl self)),
        Ran (translation (driver_out fl self) (wasm_file rustDir) (path_dir self))])"

definition succeeded :: "build_env \<Rightarrow> driver_step list \<Rightarrow> driver_step \<Rightarrow> bool" where
  "succeeded mc before step = (case step of Ran c \<Rightarrow> snd (exec mc before c) | MadeDirs d \<Rightarrow> mkdir_all mc d)"

lemma length_full_build [simp]: "length (full_build self fl pin) = 5"
  by (simp add: full_build_def queries_def Let_def)

text \<open>
  \<open>stopped mc self fl pin j\<close>: of the steps of a full build from the third on, \<open>j\<close> is the first that
  fails, or 5 where none does. A failed command has been run, directories that could not be made
  have not.
\<close>

definition stopped :: "build_env \<Rightarrow> string \<Rightarrow> driver_flags \<Rightarrow> string \<Rightarrow> nat \<Rightarrow> bool" where
  "stopped mc self fl pin j \<longleftrightarrow>
     (let full = full_build self fl pin in 2 \<le> j \<and> j \<le> 5 \<and>
        (\<forall>k\<in>{2..<j}. succeeded mc (take k full) (full ! k)) \<and> (j < 5 \<longrightarrow> \<not> succeeded mc (take j full) (full ! j)))"

lemma build_and_translate_steps:
  assumes "build_and_translate mc pin (path_dir self) (driver_root fl self) (driver_out fl self) (stack_flag fl) (queries pin) =
    (st, rep, taken)"
  defines "rustDir \<equiv> path_join [driver_root fl self, ''rust'']"
  shows "\<exists>j. stopped mc self fl pin j \<and> taken = take (if j = 3 then 3 else j + 1) (full_build self fl pin) \<and>
    st = (if j = 5 then 0 else 1) \<and>
    rep = (if j = 2 then Some (CargoFailed rustDir (fst (exec mc (queries pin) (cargo_build pin rustDir (stack_flag fl)))))
      else if j = 3 then Some (CannotMakeDirs (path_dir (driver_out fl self)))
      else if j = 4 then Some (TranslationFailed (fst (exec mc (take 4 (full_build self fl pin))
        (translation (driver_out fl self) (wasm_file rustDir) (path_dir self)))))
      else None)"
proof -
  define c d t where "c = Ran (cargo_build pin rustDir (stack_flag fl))"
    and "d = MadeDirs (path_dir (driver_out fl self))"
    and "t = Ran (translation (driver_out fl self) (wasm_file rustDir) (path_dir self))"
  obtain q1 q2 where q: "queries pin = [q1, q2]" by (simp add: queries_def)
  have full: "full_build self fl pin = [q1, q2, c, d, t]"
    by (simp add: full_build_def q c_def d_def t_def rustDir_def Let_def)
  have upto: "{2..<2} = ({} :: nat set)" "{2..<3} = {2 :: nat}" "{2..<4} = {2, 3 :: nat}" "{2..<5} = {2, 3, 4 :: nat}" by auto
  have at: "[q1, q2, c, d, t] ! 2 = c" "[q1, q2, c, d, t] ! 3 = d" "[q1, q2, c, d, t] ! 4 = t"
    "take 2 [q1, q2, c, d, t] = [q1, q2]" "take 3 [q1, q2, c, d, t] = [q1, q2, c]" "take 4 [q1, q2, c, d, t] = [q1, q2, c, d]"
    "take 5 [q1, q2, c, d, t] = [q1, q2, c, d, t]" by (simp_all add: eval_nat_numeral)
  note run = assms(1) [unfolded build_and_translate_def Let_def q, folded rustDir_def]
  note steps = stopped_def full q upto at Let_def
  show ?thesis
  proof (cases "succeeded mc [q1, q2] c")
    case False
    then show ?thesis using run by (intro exI [of _ 2]) (simp add: steps, simp add: c_def succeeded_def case_prod_unfold)
  next
    case c: True
    show ?thesis
    proof (cases "succeeded mc [q1, q2, c] d")
      case False
      with c show ?thesis using run
        by (intro exI [of _ 3]) (simp add: steps, simp add: c_def d_def succeeded_def case_prod_unfold)
    next
      case d: True
      show ?thesis
      proof (cases "succeeded mc [q1, q2, c, d] t")
        case False
        with c d show ?thesis using run
          by (intro exI [of _ 4]) (simp add: steps, simp add: c_def d_def t_def succeeded_def case_prod_unfold)
      next
        case True
        with c d show ?thesis using run
          by (intro exI [of _ 5]) (simp add: steps, simp add: c_def d_def t_def succeeded_def case_prod_unfold)
      qed
    qed
  qed
qed

section \<open>Property\<close>

text \<open>
  C40. The tool's exit status. Without its own location or a readable pin it ends with 1, reports
  that and runs nothing. With the pin it ends with 2 exactly when a prerequisite is missing: then
  it reports the first one missing with the install line of the pin, and has run nothing but
  queries of \<open>rustup\<close>. Otherwise it goes through the steps of a full build in order up to the
  first that fails, number \<open>j\<close>: it ends with 1 and the report of that step, and has taken the
  steps before it, and the step itself if that is a command; where none fails it has taken them
  all, ends with 0 and reports nothing. So it ends with 0 exactly when nothing is missing and
  every step succeeds.
\<close>

theorem driver_exit_status:
  assumes "run_driver mc fl = (st, rep, taken)"
  shows "(caller_file mc = None \<longrightarrow> st = 1 \<and> rep = Some CannotLocate \<and> taken = []) \<and>
    (\<forall>self. caller_file mc = Some self \<longrightarrow>
       (\<forall>err. pinnedToolchain mc (path_dir self) = Inl err \<longrightarrow> st = 1 \<and> rep = Some err \<and> taken = []) \<and>
       (\<forall>pin. pinnedToolchain mc (path_dir self) = Inr pin \<longrightarrow>
          (st = 2 \<longleftrightarrow> missing mc pin \<noteq> None) \<and>
          (st = 0 \<longleftrightarrow> missing mc pin = None \<and>
             (\<forall>k\<in>{2..<5}. succeeded mc (take k (full_build self fl pin)) (full_build self fl pin ! k))) \<and>
          (\<forall>r. missing mc pin = Some r \<longrightarrow>
             rep = Some r \<and> names_install (install_line pin) r \<and> (\<exists>n. taken = take n (queries pin))) \<and>
          (missing mc pin = None \<longrightarrow>
             (\<exists>j. stopped mc self fl pin j \<and> taken = take (if j = 3 then 3 else j + 1) (full_build self fl pin) \<and>
                st = (if j = 5 then 0 else 1) \<and>
                (let rustDir = path_join [driver_root fl self, ''rust''] in
                 rep = (if j = 2 then Some (CargoFailed rustDir (fst (exec mc (queries pin) (cargo_build pin rustDir (stack_flag fl)))))
                   else if j = 3 then Some (CannotMakeDirs (path_dir (driver_out fl self)))
                   else if j = 4 then Some (TranslationFailed (fst (exec mc (take 4 (full_build self fl pin))
                     (translation (driver_out fl self) (wasm_file rustDir) (path_dir self)))))
                   else None))))))"
proof (cases "caller_file mc")
  case (Some self)
  show ?thesis
  proof (cases "pinnedToolchain mc (path_dir self)")
    case (Inl err)
    then show ?thesis using assms Some by (simp add: run_driver_def)
  next
    case (Inr pin)
    note pinned = run_driver_pinned [OF Some Inr]
    show ?thesis
    proof (cases "missing mc pin")
      case None
      with pinned(2) assms have "build_and_translate mc pin (path_dir self) (driver_root fl self) (driver_out fl self)
          (stack_flag fl) (queries pin) = (st, rep, taken)" by simp
      from build_and_translate_steps [OF this] obtain j where j: "stopped mc self fl pin j" "st = (if j = 5 then 0 else 1)"
        by blast
      then have "st = 0 \<longleftrightarrow> (\<forall>k\<in>{2..<5}. succeeded mc (take k (full_build self fl pin)) (full_build self fl pin ! k))"
        "st \<noteq> 2" by (auto simp: stopped_def Let_def)
      then show ?thesis using Some Inr None build_and_translate_steps [OF \<open>build_and_translate _ _ _ _ _ _ _ = _\<close>]
        unfolding Let_def by simp
    next
      case r: (Some r)
      obtain n where "run_driver mc fl = (2, Some r, take n (queries pin))" "names_install (install_line pin) r"
        using pinned(1) [OF r] by blast
      then show ?thesis using assms Some Inr r by auto
    qed
  qed
qed (use assms in \<open>simp add: run_driver_def\<close>)

text \<open>A machine on which everything is there: a build from the checkout at \<open>/r\<close>.\<close>

definition default_flags :: driver_flags where
  "default_flags = \<lparr>root_flag = None, out_flag = '''', stack_flag = defaultStack\<rparr>"

definition sample_machine :: build_env where
  "sample_machine = \<lparr>caller_file = Some ''/r/go/internal/wasm2go/main.go'', look_path = (\<lambda>_. True),
     read_file = (\<lambda>p. Some (''channel = '' @ [quote] @ ''1.99.1'' @ [quote])),
     exec = (\<lambda>_ _. (target, True)), mkdir_all = (\<lambda>_. True)\<rparr>"

theorem driver_exit_status_witness:
  "\<exists>rep taken. run_driver sample_machine default_flags = (0, rep, taken) \<and>
     taken = full_build ''/r/go/internal/wasm2go/main.go'' default_flags ''1.99.1'' \<and>
     driver_out default_flags ''/r/go/internal/wasm2go/main.go'' = ''/r/go/internal/core/core.go''"
proof -
  let ?self = "''/r/go/internal/wasm2go/main.go''"
  have dir: "path_dir ?self = ''/r/go/internal/wasm2go''" by code_simp
  have "find_channel True (''channel = '' @ [quote] @ ''1.99.1'' @ [quote]) = Some ''1.99.1''" by code_simp
  then have pin: "caller_file sample_machine = Some ?self" "pinnedToolchain sample_machine (path_dir ?self) = Inr ''1.99.1''"
    by (simp_all add: sample_machine_def pinnedToolchain_def)
  have "missing sample_machine ''1.99.1'' = None" by (simp add: missing_def sample_machine_def)
  moreover obtain st rep taken where run: "run_driver sample_machine default_flags = (st, rep, taken)"
    by (cases "run_driver sample_machine default_flags")
  moreover have "st = 0" using run run_driver_pinned(2) [OF pin] calculation(1)
    by (auto simp: build_and_translate_def sample_machine_def Let_def case_prod_unfold)
  moreover have "driver_out default_flags ?self = ''/r/go/internal/core/core.go''" by code_simp
  ultimately show ?thesis using driver_exit_status [OF run] pin by (auto split: if_splits)
qed

end
