(* ===== verification/Spec2Isabelle.thy ===== *)
theory Spec2Isabelle
  imports Memory_Portability Host_Contract Host_Stateless Host_V5 Host_Concurrency Host_Source Host_Scratch
    Smoke_Program Wasm2go_Driver
begin

section \<open>HyperUuid for Go\<close>

text \<open>
  A model of the Go package of HyperUuid (\<open>src/go\<close>), which generates, converts and inspects
  UUIDs of versions 4, 5 and 7, and the theorems that make it correct.

  \<^bold>\<open>The program.\<close> The package has two layers. The \<^emph>\<open>core\<close>
  (\<open>src/go/internal/core/core.go\<close>) is a WebAssembly module translated to Go: functions
  \<open>Xuuid_...\<close> over a byte-addressed linear memory and a stack pointer \<open>g0\<close>, all arithmetic in
  32- and 64-bit words, with one import, WASI's \<open>random_get\<close>. The \<^emph>\<open>host\<close>
  (\<open>core.go\<close>, \<open>core_pool.go\<close>, \<open>core_tinygo.go\<close>, \<open>random.go\<close>, \<open>random_aes.go\<close>, \<open>uuidgen.go\<close>,
  \<open>inspect.go\<close>, \<open>errors.go\<close>) owns instances of the core, each with a scratch region in its
  memory and a source of random bytes: it copies arguments into the scratch, calls the core and
  copies the result out. One instance, the primary, mints every version 7 under a lock, so
  that one stream orders them; the stateless calls take the primary when it is free and an
  instance of a pool when it is not.

  \<^bold>\<open>Conventions.\<close> An \<open>i32\<close> or \<open>i64\<close> of the core is a 32- or 64-bit word (the synonyms \<open>i32\<close>,
  \<open>i64\<close>, \<open>u16\<close>, \<open>u8\<close> of \<open>Prelude\<close>) and wraps as in Go; Go's \<open>int\<close> is an integer or a natural
  number, with the largest \<open>int\<close> of the platform, \<open>c_maxint\<close>, a parameter. A Go panic (an index
  past the end, a failed allocation of the primary) is \<open>None\<close>; a returned error is \<open>Inl\<close> of a
  \<open>go_error\<close>, and \<open>sentinel_of\<close> is what \<open>errors.Is\<close> finds in it. State is passed explicitly: the
  module (\<open>core_module\<close>), the instance (\<open>inst\<close>), the package's variables (\<open>package\<close>) and the
  operating system (\<open>os_env\<close>: what each read of \<open>crypto/rand\<close> and of the clock gives). Names of
  functions, locals and error sentinels are the code's.
\<close>

section \<open>The theories\<close>

text \<open>
  In the order they build on one another:
  \<^item> \<open>Prelude\<close>: type synonyms, the two lemma collections (\<open>mem_simps\<close> evaluates accesses in
    bounds, \<open>core_specs\<close> holds what each exported function does) and lemmas on words and lists.
  \<^item> \<open>Wasm_Memory\<close>: \<open>load8\<close> \<dots> \<open>store64\<close>, \<open>memory_grow\<close>, \<open>memory_init\<close> and \<open>memory_copy\<close> of
    \<open>core.go\<close>, bounds-checked and little-endian, and the slice copies of the host.
  \<^item> \<open>Memory_Portability\<close>: the same loads and stores as the code writes them, with its constants
    for byte order and alignment and its two ways of making an access, on every architecture.
  \<^item> \<open>Uuid_Spec\<close>: a UUID as sixteen bytes; version, variant, timestamps of both layouts,
    byte order and SQL Server's comparison, as the abstract specification.
  \<^item> \<open>Core_Module\<close>: the module's state and creation (\<open>New\<close>), and the locale \<open>wasi_random\<close>,
    the contract of \<open>random_get\<close> the generators rely on.
  \<^item> \<open>Core_Inspect\<close>, \<open>Core_SqlOrder\<close>: the six readers and the two in-place conversions.
  \<^item> \<open>Random_Source\<close>: \<open>osSource\<close> and the AES-256-CTR source with its buffer, key budget and key
    lifetime. The block cipher is a parameter, a keystream function of key, counter and length.
  \<^item> \<open>Host_Random\<close>: \<open>Xrandom_get\<close>, by which an instance serves the import from its source; it
    interprets \<open>wasi_random\<close>, so every lemma on the core's generators holds of the host's.
  \<^item> \<open>Core_V4\<close>: \<open>Xuuid_new_v4\<close>.
  \<^item> \<open>Sha1_Spec\<close>, \<open>Core_Sha1\<close>, \<open>Core_V5\<close>: FIPS 180-4; the core's compression \<open>fn6\<close>, the 473
    assignments of its loop body in eleven pieces; and \<open>Xuuid_new_v5\<close> in the pieces its labels
    delimit.
  \<^item> \<open>V7_Stream\<close>: the abstract version 7 stream, one number, with the plan of a call on it.
  \<^item> \<open>Core_V7\<close>, \<open>Core_V7_Batch\<close>: \<open>Xuuid_new_v7\<close> and \<open>Xuuid_new_v7_batch\<close>: draw, reservation by
    a compare-and-swap loop on the word at 65560, and layout (of a batch in place).
  \<^item> \<open>Host_Instance\<close>: \<open>newInstanceWith\<close>, \<open>reserve\<close> and the calls on an instance (\<open>i_newV4\<close>,
    \<open>i_newV7\<close>, \<open>i_newV7Batch\<close>, \<open>i_version\<close>, \dots).
  \<^item> \<open>Host_Generate\<close>: the generators on well-formed instances, and the refinement of \<open>V7_Stream\<close>.
  \<^item> \<open>Host_Package\<close>: primary, lock and pool, with \<open>acquire\<close> and \<open>release\<close> of both builds; the
    locale \<open>instance_provider\<close> is their contract, interpreted on the pool (\<open>pooled\<close>) and on
    TinyGo's single instance (\<open>tinygo\<close>).
  \<^item> \<open>Host_Api\<close>, \<open>Host_V5\<close>: the exported functions and their errors.
  \<^item> \<open>Host_V7\<close>, \<open>Host_Contract\<close>: what the version 7 functions return, and histories of calls
    (\<open>run\<close>) with the documented guarantees over them.
  \<^item> \<open>Host_Stateless\<close>: what the stateless functions answer, on any instance.
  \<^item> \<open>Host_Concurrency\<close>: goroutines interleaving in any order as a step relation (\<open>go_step\<close>),
    its reachable worlds and their invariant.
  \<^item> \<open>Host_Source\<close>: the choice of an instance's random source by build tags, processor and FIPS
    mode; it interprets \<open>wasi_random\<close> again, with the kind of source in the invariant.
  \<^item> \<open>Host_Scratch\<close>: what earlier calls leave in an instance's memory, and that no version 7 call
    can see it.
  \<^item> \<open>Sha1_Vectors\<close>: a known answer of version 5, evaluated in the kernel.
  \<^item> \<open>Uuid_Text\<close>, \<open>Smoke_Program\<close>: the text form of a UUID, and \<open>internal/tinygosmoke\<close>, the
    program that calls most of the API in sequence and judges the answers.
  \<^item> \<open>Wasm2go_Driver\<close>: \<open>internal/wasm2go\<close>, the tool that regenerates the core.
\<close>

section \<open>State and its invariants\<close>

text \<open>
  \<^item> \<open>core_module\<close> is \<open>Module\<close>: \<open>memory\<close> and \<open>g0\<close>. \<open>core_ok\<close> says that the stack pointer is at
    its top, 65536, that the memory has at least two pages and that the core's constants are in
    place above the stack. What a call leaves below 65536 is not stated, and \<open>Host_Generate\<close>
    shows that it never matters.
  \<^item> The stream word at 65560 packs the last timestamp plus one and a 20-bit step. \<open>stream_word\<close>
    reads it as the number \<open>V7_Stream\<close> is about, and \<open>stream_inv\<close> bounds it.
  \<^item> \<open>inst\<close> is \<open>instance\<close>: a module (\<open>im\<close>), its scratch (address and pages) and its source.
    \<open>inst_ok\<close> puts the scratch at the third page and says that it is the rest of the memory.
  \<^item> \<open>package\<close> holds the primary, the pool and the counters the code has as package variables;
    \<open>package_ok\<close> says that every instance is well-formed and that pooled ones never minted a
    version 7. A call's view of the scheduler is \<open>sched\<close>: did \<open>TryLock\<close> succeed, and if not, which
    pooled instance \<open>sync.Pool\<close> gave, if any.
  \<^item> \<open>world\<close> adds what each goroutine is doing and who holds the lock.
\<close>

section \<open>What the lemmas show\<close>

text \<open>
  \<^bold>\<open>Core.\<close> Every exported function is translated whole, and for each there is a lemma that on a
  well-formed module and arguments in bounds it returns, with what it writes and that nothing
  else changes above its stack. The conversions are inverse and turn the order of version 7
  values into SQL Server's order. \<open>fn6\<close> is SHA-1's compression: its straight line of assignments
  is evaluated symbolically, and each right-hand side is recognised as a word of the schedule or
  of the state. \<open>Xuuid_new_v5\<close> is then SHA-1 of namespace and name for every length below
  \<open>2 ^ 31\<close>. The two version 7 generators refine the plan of \<open>V7_Stream\<close>. All of this is stated
  over little-endian memory; \<open>memory_helpers_portable\<close> says that the helpers are exactly that
  on machines of either byte order, with or without unaligned accesses.

  \<^bold>\<open>Stream.\<close> From the plan follow the guarantees the package documents: values minted in the
  stream strictly increase over any history, a batch takes one step in 64 values and leaves the
  stream at the last of them, the embedded timestamp is at most 11 s ahead of the call's, and
  exhaustion is reported, by any form of call, exactly where the stream has no room: the next
  step would run more than 1000 ms ahead or past the end. These rest on exact results
  (\<open>v7_plan_exact\<close>, \<open>NewV7At_exact\<close>, \<open>batch_exact\<close>): what a call returns and leaves as a function of
  the stream, the timestamp and the bytes drawn from the primary's source (\<open>source_of\<close>,
  \<open>drawn_value\<close>, \<open>drawn_batch\<close>), and of nothing the caller's buffer held.

  \<^bold>\<open>Random sources.\<close> While a key serves, the AES source hands out one contiguous keystream, at
  most 1 MiB of it under one key. A refill that crosses the budget is the exception
  \<open>refill_across_budget\<close> shows: the rest of the old key's keystream stays buffered. Which of
  the two sources an instance has is decided when it is made and holds for every instance in
  every interleaving; in FIPS mode, under \<open>purego\<close> and under TinyGo it is the operating system.

  \<^bold>\<open>Package.\<close> No call on a well-formed package panics; each error is one of the documented
  sentinels, a refused argument touches nothing, and a failed version 7 call reserves nothing
  and leaves the caller's buffer as it was; a fill that succeeds writes the values of the batch
  over all of it. Histories are lists of \<open>v7_request\<close>, run one after
  another from a fresh package; in \<open>Host_Concurrency\<close> the same guarantees hold for every
  interleaving, with at most one goroutine on the primary and every call able to complete; a
  stateless call waits for the primary only in a TinyGo build.
  The scratch is never cleared, yet nothing left in it shows in a later result: a source writes
  every byte it answers for (\<open>fill_ignores\<close>), so a version 7 call is a function of the stream,
  the source, the scratch's size and the operating system.

  \<^bold>\<open>Programs.\<close> The smoke program composes the package's guarantees: it never panics, and each
  verdict is stated in the results of the calls that very run makes (\<open>smoke_calls\<close>). The build
  tool's exit status is exact: 2 when a prerequisite is missing, 0 when all steps of the build
  succeed, and else 1 with the report of the first step that fails, after which none is taken.
\<close>

section \<open>Loops, bounds and fuel\<close>

text \<open>
  There is no fuel. The loops of the core and of the sources are \<open>function\<close>s with a measure
  (\<open>cas_loop\<close>: once it has written back what it found it agrees with memory, so it decides at
  most twice; \<open>batch_draw\<close>, \<open>batch_fill\<close>, \<open>generate\<close>: what is left to do), except \<open>fn6_loop\<close>,
  whose pointer meets its end only when the run is whole blocks: it is a \<open>partial_function\<close>,
  and \<open>fn6_compresses_blocks\<close> shows that it returns.
  Sizes are the code's: batches up to \<open>MaxV7Batch\<close> = \<open>2 ^ 26\<close>, names up to \<open>MaxV5Name\<close>, memories
  up to 32767 pages on a 32-bit host. \<open>host_ok\<close> asks that \<open>int\<close> has at least 32 bits, as Go
  guarantees.
\<close>

section \<open>Not modelled\<close>

text \<open>
  \<^item> The hardware behind \<open>unsafe\<close> pointer accesses: a parameter says whether the machine stores
    the most significant byte first, and the hypothesis \<open>listed_order\<close> that it is as the list of
    its architecture says.
  \<^item> AES itself, \<open>crypto/rand\<close> and the clock: a keystream function, and lists of outcomes.
  \<^item> Fairness of Go's scheduler and mutexes. What a call does while it holds its instance is one
    step of \<open>go_step\<close>; nothing else can reach that instance meanwhile. That a second load of the
    stream word in the swap loop differs from the first is never observed for that reason.
  \<^item> The garbage collector's clearing of \<open>sync.Pool\<close> beyond the choice a call takes.
  \<^item> \<open>google/uuid\<close>, of which the smoke program uses methods and constants: a record of functions
    with its documentation as the hypothesis \<open>lib_ok\<close>, shown to hold of a concrete one.
  \<^item> What the build tool runs: its environment says what each command prints and whether it
    succeeds. Its flags are taken as parsed, and paths are Unix paths.
  \<^item> \<open>generate.go\<close>, the tests, the Rust core of which \<open>core.go\<close> is the translation, and the
    bindings of other languages.
\<close>

end
